(* ===== verification/Kernel_Prelude.thy ===== *)
theory Kernel_Prelude
  imports Main "HOL-Library.Word"
begin

text \<open>
  Shared vocabulary of the development: the machine integer types of the
  kernel's C code, the counted loop \<open>for (i = a; i < n; i++)\<close> of any width as a
  combinator with its fold and invariant rules, page and alignment arithmetic,
  and the collections of simplification rules the component theories extend.
\<close>

unbundle bit_operations_syntax

named_theorems frame_simps \<open>fields an operation leaves alone\<close>
named_theorems wordnat \<open>reading word arithmetic as arithmetic on natural numbers\<close>

type_synonym u8 = "8 word"
type_synonym u16 = "16 word"
type_synonym u32 = "32 word"
type_synonym u64 = "64 word"

section \<open>Words and natural numbers\<close>

lemma unat_Suc_of_less: "(i::'a::len word) < n \<Longrightarrow> unat (i + 1) = Suc (unat i)"
proof -
  assume "i < n"
  then have "unat i < unat n" by (simp add: word_less_nat_alt)
  moreover have "unat n < 2 ^ LENGTH('a)" by (rule unsigned_less)
  ultimately have "unat i + 1 < 2 ^ LENGTH('a)" by linarith
  then show "unat (i + 1) = Suc (unat i)" by (simp add: unat_word_ariths)
qed

lemma unat_add_no_wrap [wordnat]:
  "unat a + unat b < 2 ^ LENGTH('a) \<Longrightarrow> unat (a + b :: 'a::len word) = unat a + unat b"
  by (simp add: unat_word_ariths)

lemma unat_sub_no_wrap [wordnat]:
  "b \<le> a \<Longrightarrow> unat (a - b :: 'a::len word) = unat a - unat b"
  by (simp add: unat_sub)

lemma unat_u64_bound: "unat (a :: u64) < 2 ^ 64"
  using unsigned_less [of a] by simp

lemma unat_of_nat_u64 [wordnat]: "n < 2 ^ 64 \<Longrightarrow> unat (of_nat n :: u64) = n"
  by (simp add: unat_of_nat)

lemma unat_ucast_mod: "unat (ucast (x :: 'a::len word) :: 'b::len word) = unat x mod 2 ^ LENGTH('b)"
  by (simp add: unsigned_ucast_eq take_bit_eq_mod)

lemma unat_ucast_up:
  "LENGTH('a) \<le> LENGTH('b) \<Longrightarrow> unat (ucast (x :: 'a::len word) :: 'b::len word) = unat x"
proof -
  assume le: "LENGTH('a) \<le> LENGTH('b)"
  have "unat x < 2 ^ LENGTH('a)" by (rule unsigned_less)
  also have "(2::nat) ^ LENGTH('a) \<le> 2 ^ LENGTH('b)" using le by simp
  finally show "unat (ucast x :: 'b word) = unat x" by (simp add: unat_ucast_mod)
qed

lemma of_nat_Suc_word: "(of_nat (Suc n) :: 'a::len word) = of_nat n + 1"
  by simp

section \<open>Counted loops\<close>

text \<open>\<open>for (uint64_t i = a; i < n; i++) s = f(i, s);\<close>, and the same with a \<open>uint32_t\<close>.\<close>

function for_up :: "'w::len word \<Rightarrow> 'w word \<Rightarrow> ('w word \<Rightarrow> 's \<Rightarrow> 's) \<Rightarrow> 's \<Rightarrow> 's" where
  "for_up i n f s = (if i < n then for_up (i + 1) n f (f i s) else s)"
  by pat_completeness auto
termination
proof (relation "measure (\<lambda>(i, n, f, s). unat n - unat i)")
  fix i n :: "'w::len word" and f :: "'w word \<Rightarrow> 's \<Rightarrow> 's" and s :: 's
  assume "i < n"
  then show "((i + 1, n, f, f i s), i, n, f, s) \<in> measure (\<lambda>(i, n, f, s). unat n - unat i)"
    by (simp add: unat_Suc_of_less word_less_nat_alt)
qed simp

declare for_up.simps [simp del]

lemma for_up_stop [simp]: "\<not> i < n \<Longrightarrow> for_up i n f s = s"
  by (simp add: for_up.simps [of i n])

lemma for_up_step: "i < n \<Longrightarrow> for_up i n f s = for_up (i + 1) n f (f i s)"
  by (simp add: for_up.simps [of i n])

lemma for_up_fold:
  "for_up i n f s = fold (\<lambda>k. f (of_nat k)) [unat i..<unat n] s"
proof (induction i n f s rule: for_up.induct)
  case (1 i n f s)
  show ?case
  proof (cases "i < n")
    case True
    then have "[unat i..<unat n] = unat i # [unat (i + 1)..<unat n]"
      by (simp add: unat_Suc_of_less word_less_nat_alt upt_conv_Cons)
    with True "1.IH" show ?thesis
      by (simp add: for_up_step)
  next
    case False
    then show ?thesis by (simp add: word_less_nat_alt)
  qed
qed

text \<open>The invariant rule of the counted loop, indexed by the loop counter.\<close>

lemma for_up_rule:
  assumes "i \<le> n" and "I (unat i) s"
    and "\<And>k t. unat i \<le> k \<Longrightarrow> k < unat n \<Longrightarrow> I k t \<Longrightarrow> I (Suc k) (f (of_nat k) t)"
  shows "I (unat n) (for_up i n f s)"
  using assms
proof (induction i n f s rule: for_up.induct)
  case (1 i n f s)
  show ?case
  proof (cases "i < n")
    case True
    have next_le: "i + 1 \<le> n" using True by (metis inc_le)
    have "unat i < unat n" using True by (simp add: word_less_nat_alt)
    with "1.prems"(2) "1.prems"(3) [of "unat i" s] have "I (unat (i + 1)) (f i s)"
      by (simp add: unat_Suc_of_less [OF True])
    moreover have "\<And>k t. unat (i + 1) \<le> k \<Longrightarrow> k < unat n \<Longrightarrow> I k t \<Longrightarrow> I (Suc k) (f (of_nat k) t)"
      using "1.prems"(3) by (simp add: unat_Suc_of_less [OF True])
    ultimately show ?thesis
      using "1.IH" [OF True next_le] True by (simp add: for_up_step)
  next
    case False
    with "1.prems"(1) have "i = n" by simp
    with False "1.prems"(2) show ?thesis by simp
  qed
qed

text \<open>A loop whose body never touches a projection leaves it alone.\<close>

lemma for_up_frame:
  assumes "\<And>k t. p (f k t) = p t"
  shows "p (for_up i n f s) = p s"
  using assms
proof (induction i n f s rule: for_up.induct)
  case (1 i n f s)
  then show ?case by (cases "i < n") (simp_all add: for_up_step)
qed

text \<open>\<open>for (size_t i = n; i > 0; i--) s = f(i, s);\<close>\<close>

function for_down :: "u64 \<Rightarrow> (u64 \<Rightarrow> 's \<Rightarrow> 's) \<Rightarrow> 's \<Rightarrow> 's" where
  "for_down i f s = (if 0 < i then for_down (i - 1) f (f i s) else s)"
  by pat_completeness auto
termination
  by (relation "measure (\<lambda>(i, f, s). unat i)")
    (auto simp: word_less_nat_alt unat_sub_if')

declare for_down.simps [simp del]

lemma unat_pred_Suc: "0 < (i::u64) \<Longrightarrow> unat i = Suc (unat (i - 1))"
  by (simp add: word_less_nat_alt unat_sub_if')

lemma for_down_rule:
  assumes "I (unat i) s"
    and "\<And>k t. k < unat i \<Longrightarrow> I (Suc k) t \<Longrightarrow> I k (f (of_nat (Suc k)) t)"
  shows "I 0 (for_down i f s)"
  using assms
proof (induction i f s rule: for_down.induct)
  case (1 i f s)
  show ?case
  proof (cases "0 < i")
    case True
    note pred = unat_pred_Suc [OF True]
    have i: "of_nat (Suc (unat (i - 1))) = i" by (simp flip: pred)
    have "I (unat (i - 1)) (f i s)"
      using "1.prems"(2) [of "unat (i - 1)" s] "1.prems"(1) i pred by simp
    then show ?thesis
      using "1.IH" [OF True] "1.prems"(2) True pred
      by (simp add: for_down.simps [of i])
  next
    case False
    then have "i = 0" by (simp add: word_less_nat_alt unat_eq_zero)
    with "1.prems"(1) show ?thesis by (simp add: for_down.simps [of 0])
  qed
qed

section \<open>Bits, pages and alignment\<close>

definition PAGE_SIZE :: u64 where
  "PAGE_SIZE = 0x1000"

text \<open>
  The C constant \<open>~0xFFF\<close> has type \<open>int\<close>; in an operation with a
  \<open>uint64_t\<close> it is sign extended, so it clears the low twelve bits and keeps all
  the others.
\<close>

definition PAGE_MASK :: u64 where
  "PAGE_MASK = NOT 0xFFF"

lemma page_mask_idem [simp]: "(a AND PAGE_MASK) AND PAGE_MASK = a AND PAGE_MASK"
  by (simp add: and.assoc)

lemma page_mask_or_low:
  "a AND PAGE_MASK = a \<Longrightarrow> f AND PAGE_MASK = 0 \<Longrightarrow> (a OR f) AND PAGE_MASK = a"
  by (simp add: bit.conj_disj_distrib2)

end
