(* ===== verification/LibC_Memory.thy ===== *)
theory LibC_Memory
  imports Kernel_Prelude
begin

text \<open>
  \<open>kernel/src/libc/string/mem*.c\<close> over byte memory: \<open>memset\<close>,
  \<open>memcpy\<close>, \<open>memmove\<close> and \<open>memcmp\<close>, loop by loop, with the value each one
  returns. Memory is the function from 64-bit addresses to bytes, so address
  arithmetic wraps as the machine's does. Each operation is characterised by what
  every byte of memory holds afterwards.
\<close>

type_synonym bytes = "u64 \<Rightarrow> u8"

section \<open>The operations\<close>

definition memset :: "u64 \<Rightarrow> u32 \<Rightarrow> u64 \<Rightarrow> bytes \<Rightarrow> u64 \<times> bytes" where
  "memset s c n m = (s, for_up 0 n (\<lambda>i p. p(s + i := ucast c)) m)"

definition memcpy :: "u64 \<Rightarrow> u64 \<Rightarrow> u64 \<Rightarrow> bytes \<Rightarrow> u64 \<times> bytes" where
  "memcpy dest src n m = (dest, for_up 0 n (\<lambda>i p. p(dest + i := p (src + i))) m)"

definition memmove :: "u64 \<Rightarrow> u64 \<Rightarrow> u64 \<Rightarrow> bytes \<Rightarrow> u64 \<times> bytes" where
  "memmove dest src n m =
     (if src > dest then
        (dest, for_up 0 n (\<lambda>i p. p(dest + i := p (src + i))) m)
      else if src < dest then
        (dest, for_down n (\<lambda>i p. p(dest + (i - 1) := p (src + (i - 1)))) m)
      else (dest, m))"

function memcmp_loop :: "u64 \<Rightarrow> u64 \<Rightarrow> u64 \<Rightarrow> u64 \<Rightarrow> bytes \<Rightarrow> u32" where
  "memcmp_loop i n s1 s2 m =
     (if i < n then
        (if m (s1 + i) \<noteq> m (s2 + i)
         then (if m (s1 + i) < m (s2 + i) then - 1 else 1)
         else memcmp_loop (i + 1) n s1 s2 m)
      else 0)"
  by pat_completeness auto
termination
  by (relation "measure (\<lambda>(i, n, s1, s2, m). unat n - unat i)")
    (auto simp: unat_Suc_of_less word_less_nat_alt)

declare memcmp_loop.simps [simp del]

definition memcmp :: "u64 \<Rightarrow> u64 \<Rightarrow> u64 \<Rightarrow> bytes \<Rightarrow> u32" where
  "memcmp s1 s2 n m = memcmp_loop 0 n s1 s2 m"

section \<open>What memory holds afterwards\<close>

text \<open>
  \<open>a - s < n\<close> on words says that \<open>a\<close> is one of the \<open>n\<close> addresses from
  \<open>s\<close> on, also when the region wraps around the end of the address space.
\<close>

lemma word_of_nat_less_iff:
  "k < 2 ^ 64 \<Longrightarrow> (a :: u64) < of_nat k \<longleftrightarrow> unat a < k"
  by (simp add: word_less_nat_alt wordnat)

lemma addr_of_offset: "unat ((a :: u64) - s) = k \<Longrightarrow> a = s + of_nat k"
  by auto

text \<open>One more byte of a region, counted from its start.\<close>

lemma upd_prefix:
  fixes s :: u64
  assumes "k < 2 ^ 64"
  shows "(\<lambda>a. if unat (a - s) < k then f a else m a)(s + of_nat k := f (s + of_nat k))
    = (\<lambda>a. if unat (a - s) < Suc k then f a else m a)"
proof
  fix a
  show "((\<lambda>a. if unat (a - s) < k then f a else m a)(s + of_nat k := f (s + of_nat k))) a
    = (if unat (a - s) < Suc k then f a else m a)"
  proof (cases "a = s + of_nat k")
    case True
    then show ?thesis using assms by (simp add: unat_of_nat_u64)
  next
    case False
    then have "unat (a - s) \<noteq> k" using addr_of_offset by blast
    then have "unat (a - s) < Suc k \<longleftrightarrow> unat (a - s) < k" by linarith
    with False show ?thesis by simp
  qed
qed

lemma memset_apply:
  "snd (memset s c n m) a = (if a - s < n then ucast c else m a)"
proof -
  define I where "I = (\<lambda>k p. p = (\<lambda>a. if unat (a - s) < k then ucast c else m a))"
  have "I (unat n) (for_up 0 n (\<lambda>i p. p(s + i := ucast c)) m)"
  proof (rule for_up_rule [where I = I])
    show "I (unat 0) m" by (simp add: I_def)
  next
    fix k t assume "k < unat n" and t: "I k t"
    then have k: "k < 2 ^ 64" using unat_u64_bound [of n] by linarith
    show "I (Suc k) (t(s + of_nat k := ucast c))"
      using t upd_prefix [OF k, of s "\<lambda>_. ucast c" m] by (simp add: I_def)
  qed simp
  then show ?thesis by (simp add: memset_def I_def word_less_nat_alt)
qed

text \<open>
  Forward copying is right when no byte still to be read has been overwritten, and
  backward copying symmetrically.
\<close>

lemma copy_forward:
  fixes n :: u64
  assumes "\<And>i j. i < j \<Longrightarrow> j < n \<Longrightarrow> src + j \<noteq> dest + i"
  shows "for_up 0 n (\<lambda>i p. p(dest + i := p (src + i))) m a
    = (if a - dest < n then m (src + (a - dest)) else m a)"
proof -
  define I where "I = (\<lambda>k p. p = (\<lambda>a. if unat (a - dest) < k then m (src + (a - dest)) else m a))"
  have "I (unat n) (for_up 0 n (\<lambda>i p. p(dest + i := p (src + i))) m)"
  proof (rule for_up_rule [where I = I])
    show "I (unat 0) m" by (simp add: I_def)
  next
    fix k t assume kn: "k < unat n" and t: "I k t"
    then have k: "k < 2 ^ 64" using unat_u64_bound [of n] by linarith
    have kw: "of_nat k < n" using kn k by (simp add: word_less_nat_alt wordnat)
    have "\<not> unat (src + of_nat k - dest) < k"
    proof
      assume less: "unat (src + of_nat k - dest) < k"
      then have "src + of_nat k - dest < of_nat k" using k by (simp add: word_of_nat_less_iff)
      from assms [OF this kw] show False by simp
    qed
    then have "t (src + of_nat k) = m (src + of_nat k)" using t by (simp add: I_def)
    then show "I (Suc k) (t(dest + of_nat k := t (src + of_nat k)))"
      using t upd_prefix [OF k, of dest "\<lambda>a. m (src + (a - dest))" m] by (simp add: I_def)
  qed simp
  then show ?thesis by (simp add: I_def word_less_nat_alt)
qed

lemma copy_backward:
  assumes "\<And>i j. i < j \<Longrightarrow> j < n \<Longrightarrow> src + i \<noteq> dest + j"
  shows "for_down n (\<lambda>i p. p(dest + (i - 1) := p (src + (i - 1)))) m a
    = (if a - dest < n then m (src + (a - dest)) else m a)"
proof -
  define g where "g = (\<lambda>a. if a - dest < n then m (src + (a - dest)) else m a)"
  define I where "I = (\<lambda>k p. p = (\<lambda>a. if unat (a - dest) < k then m a else g a))"
  have "I 0 (for_down n (\<lambda>i p. p(dest + (i - 1) := p (src + (i - 1)))) m)"
  proof (rule for_down_rule [where I = I])
    show "I (unat n) m" by (auto simp: I_def g_def word_less_nat_alt)
  next
    fix k t assume kn: "k < unat n" and t: "I (Suc k) t"
    then have k: "k < 2 ^ 64" using unat_u64_bound [of n] by linarith
    have kw: "of_nat k < n" using kn k by (simp add: word_less_nat_alt wordnat)
    have pred: "of_nat (Suc k) - (1::u64) = of_nat k" by simp
    have src: "t (src + of_nat k) = m (src + of_nat k)"
    proof (cases "unat (src + of_nat k - dest) < Suc k")
      case True
      then show ?thesis using t by (simp add: I_def)
    next
      case False
      have "\<not> src + of_nat k - dest < n"
      proof
        assume "src + of_nat k - dest < n"
        moreover have "of_nat k < src + of_nat k - dest"
          using False k by (simp add: word_less_nat_alt wordnat)
        ultimately show False using assms [of "of_nat k" "src + of_nat k - dest"] by simp
      qed
      then show ?thesis using t False by (simp add: I_def g_def)
    qed
    have g: "g (dest + of_nat k) = m (src + of_nat k)" using kw by (simp add: g_def)
    have "(t(dest + of_nat k := t (src + of_nat k))) a = (if unat (a - dest) < k then m a else g a)" for a
    proof (cases "a = dest + of_nat k")
      case True
      then show ?thesis using src g k by (simp add: unat_of_nat_u64)
    next
      case False
      then have "unat (a - dest) \<noteq> k" using addr_of_offset by blast
      then have "unat (a - dest) < Suc k \<longleftrightarrow> unat (a - dest) < k" by linarith
      with False t show ?thesis by (simp add: I_def)
    qed
    then show "I k (t(dest + (of_nat (Suc k) - 1) := t (src + (of_nat (Suc k) - 1))))"
      unfolding pred by (simp add: I_def fun_eq_iff)
  qed
  then show ?thesis by (simp add: I_def g_def)
qed

text \<open>
  Two regions of \<open>n\<close> bytes share no byte exactly when their distance, in both
  directions around the address space, is at least \<open>n\<close>.
\<close>

definition regions_apart :: "u64 \<Rightarrow> u64 \<Rightarrow> u64 \<Rightarrow> bool" where
  "regions_apart a b n \<longleftrightarrow> n \<le> a - b \<and> n \<le> b - a"

lemma word_diff_less:
  fixes i j n :: u64
  assumes "i < j" and "j < n"
  shows "j - i < n"
  using assms by (simp add: word_less_nat_alt unat_sub_if')

lemma regions_apartD:
  assumes "regions_apart a b n" and "i < n" and "j < n"
  shows "a + i \<noteq> b + j"
proof
  assume eq: "a + i = b + j"
  then have diff: "a - b = j - i" "b - a = i - j" by (auto simp: algebra_simps)
  show False
  proof (cases "j < i")
    case True
    then have "b - a < n" using diff word_diff_less assms by metis
    then show False using assms(1) by (auto simp: regions_apart_def dest: leD)
  next
    case False
    then have "j - i < n"
      using assms(3) by (simp add: word_less_nat_alt unat_sub_if' split: if_splits)
    then show False using diff assms(1) by (auto simp: regions_apart_def dest: leD)
  qed
qed

lemma memcpy_apply:
  assumes "regions_apart dest src n"
  shows "snd (memcpy dest src n m) a = (if a - dest < n then m (src + (a - dest)) else m a)"
proof -
  have "src + j \<noteq> dest + i" if "i < j" "j < n" for i j
    using regions_apartD [OF assms, of i j] that by (metis order.strict_trans)
  then show ?thesis unfolding memcpy_def snd_conv by (rule copy_forward)
qed

lemma unat_add_region:
  fixes a i n :: u64
  assumes "unat a + unat n \<le> 2 ^ 64" and "i < n"
  shows "unat (a + i) = unat a + unat i"
  using assms by (intro unat_add_no_wrap) (simp add: word_less_nat_alt)

lemma memmove_apply:
  assumes "unat src + unat n \<le> 2 ^ 64" and "unat dest + unat n \<le> 2 ^ 64"
  shows "snd (memmove dest src n m) a = (if a - dest < n then m (src + (a - dest)) else m a)"
proof -
  consider "dest < src" | "src < dest" | "src = dest" by (meson linorder_less_linear)
  then show ?thesis
  proof cases
    case 1
    have "src + j \<noteq> dest + i" if "i < j" "j < n" for i j
    proof
      assume "src + j = dest + i"
      then have "unat (src + j) = unat (dest + i)" by simp
      moreover have "i < n" using that by (rule order.strict_trans)
      ultimately show False
        using that 1 unat_add_region [OF assms(1), of j] unat_add_region [OF assms(2), of i]
        by (simp add: word_less_nat_alt)
    qed
    then show ?thesis using 1 copy_forward [of n src dest m a] by (simp add: memmove_def)
  next
    case 2
    have "src + i \<noteq> dest + j" if "i < j" "j < n" for i j
    proof
      assume "src + i = dest + j"
      then have "unat (src + i) = unat (dest + j)" by simp
      moreover have "i < n" using that by (rule order.strict_trans)
      ultimately show False
        using that 2 unat_add_region [OF assms(1), of i] unat_add_region [OF assms(2), of j]
        by (simp add: word_less_nat_alt)
    qed
    moreover have "\<not> dest < src" using 2 by simp
    ultimately show ?thesis using 2 copy_backward [of n src dest m a] by (simp add: memmove_def)
  next
    case 3
    then show ?thesis by (simp add: memmove_def)
  qed
qed

lemma fst_mem_ops [simp]:
  "fst (memset s c n m) = s" "fst (memcpy dest src n m) = dest"
  "fst (memmove dest src n m) = dest"
  by (simp_all add: memset_def memcpy_def memmove_def)

section \<open>Comparison\<close>

text \<open>The \<open>k\<close> bytes at \<open>p\<close>, and the three-way order of two byte sequences.\<close>

fun peek :: "bytes \<Rightarrow> u64 \<Rightarrow> nat \<Rightarrow> u8 list" where
  "peek m p 0 = []"
| "peek m p (Suc k) = m p # peek m (p + 1) k"

fun byte_order :: "u8 list \<Rightarrow> u8 list \<Rightarrow> u32" where
  "byte_order (x # xs) (y # ys) =
     (if x < y then - 1 else if y < x then 1 else byte_order xs ys)"
| "byte_order _ _ = 0"

lemma length_peek [simp]: "length (peek m p k) = k"
  by (induction m p k rule: peek.induct) simp_all

lemma nth_peek: "i < k \<Longrightarrow> peek m p k ! i = m (p + of_nat i)"
  by (induction m p k arbitrary: i rule: peek.induct)
    (auto simp: nth_Cons add.assoc split: nat.splits)

lemma peek_cong: "(\<And>i. i < k \<Longrightarrow> m (p + of_nat i) = m' (q + of_nat i)) \<Longrightarrow> peek m p k = peek m' q k"
  by (intro nth_equalityI) (simp_all add: nth_peek)

lemma memcmp_loop_order:
  "memcmp_loop i n s1 s2 m
    = byte_order (peek m (s1 + i) (unat n - unat i)) (peek m (s2 + i) (unat n - unat i))"
proof (induction i n s1 s2 m rule: memcmp_loop.induct)
  case (1 i n s1 s2 m)
  show ?case
  proof (cases "i < n")
    case True
    then have "unat n - unat i = Suc (unat n - unat (i + 1))"
      by (simp add: unat_Suc_of_less word_less_nat_alt)
    then show ?thesis
      using "1.IH" [OF True] True
      by (auto simp: memcmp_loop.simps [of i] add.assoc)
  next
    case False
    then show ?thesis by (simp add: memcmp_loop.simps [of i] word_less_nat_alt)
  qed
qed

lemma memcmp_order:
  "memcmp s1 s2 n m = byte_order (peek m s1 (unat n)) (peek m s2 (unat n))"
  by (simp add: memcmp_def memcmp_loop_order)

lemma byte_order_0_iff:
  "length xs = length ys \<Longrightarrow> byte_order xs ys = 0 \<longleftrightarrow> xs = ys"
  by (induction xs ys rule: list_induct2) auto

end
