(* ===== verification/LibC_String.thy ===== *)
theory LibC_String
  imports LibC_Memory
begin

text \<open>
  \<open>kernel/src/libc/string/str*.c\<close> and \<open>itoa.c\<close> over byte memory. Loops
  that end only at a NUL byte may run forever on memory that has none, so they are
  partial functions into \<open>option\<close>; the loops bounded by a count are total.
  \<open>NULL\<close> is the address 0.
\<close>

section \<open>Strings in memory\<close>

text \<open>The NUL-terminated string \<open>cs\<close> is at address \<open>p\<close>.\<close>

fun cstr :: "bytes \<Rightarrow> u64 \<Rightarrow> u8 list \<Rightarrow> bool" where
  "cstr m p [] \<longleftrightarrow> m p = 0"
| "cstr m p (c # cs) \<longleftrightarrow> c \<noteq> 0 \<and> m p = c \<and> cstr m (p + 1) cs"

text \<open>Writing a sequence of bytes one after the other.\<close>

fun poke :: "bytes \<Rightarrow> u64 \<Rightarrow> u8 list \<Rightarrow> bytes" where
  "poke m p [] = m"
| "poke m p (x # xs) = poke (m(p := x)) (p + 1) xs"

section \<open>The operations\<close>

partial_function (option) strlen_loop :: "u64 \<Rightarrow> u64 \<Rightarrow> bytes \<Rightarrow> u64 option" where
  "strlen_loop str len m =
     (if m (str + len) \<noteq> 0 then strlen_loop str (len + 1) m else Some len)"

definition strlen :: "u64 \<Rightarrow> bytes \<Rightarrow> u64 option" where
  "strlen str m = strlen_loop str 0 m"

text \<open>\<open>while (*src != '\0') { *ptr++ = *src++; }\<close>, shared by \<open>strcpy\<close> and \<open>strcat\<close>.\<close>

partial_function (option) copy_until_nul :: "u64 \<Rightarrow> u64 \<Rightarrow> bytes \<Rightarrow> (u64 \<times> bytes) option" where
  "copy_until_nul ptr src m =
     (if m src \<noteq> 0 then copy_until_nul (ptr + 1) (src + 1) (m(ptr := m src))
      else Some (ptr, m))"

definition strcpy :: "u64 \<Rightarrow> u64 \<Rightarrow> bytes \<Rightarrow> (u64 \<times> bytes) option" where
  "strcpy dest src m =
     (if dest = 0 \<or> src = 0 then Some (0, m)
      else case copy_until_nul dest src m of
        None \<Rightarrow> None
      | Some (ptr, m') \<Rightarrow> Some (dest, m'(ptr := 0)))"

partial_function (option) skip_to_nul :: "u64 \<Rightarrow> bytes \<Rightarrow> u64 option" where
  "skip_to_nul ptr m = (if m ptr \<noteq> 0 then skip_to_nul (ptr + 1) m else Some ptr)"

definition strcat :: "u64 \<Rightarrow> u64 \<Rightarrow> bytes \<Rightarrow> (u64 \<times> bytes) option" where
  "strcat dest src m =
     (case skip_to_nul dest m of
        None \<Rightarrow> None
      | Some ptr \<Rightarrow>
          (case copy_until_nul ptr src m of
             None \<Rightarrow> None
           | Some (ptr', m') \<Rightarrow> Some (dest, m'(ptr' := 0))))"

partial_function (option) strcmp :: "u64 \<Rightarrow> u64 \<Rightarrow> bytes \<Rightarrow> u32 option" where
  "strcmp str1 str2 m =
     (if m str1 \<noteq> 0 \<and> m str1 = m str2 then strcmp (str1 + 1) (str2 + 1) m
      else Some (ucast (m str1) - ucast (m str2)))"

function strncmp_loop :: "u64 \<Rightarrow> u64 \<Rightarrow> u64 \<Rightarrow> bytes \<Rightarrow> u32" where
  "strncmp_loop s1 s2 n m =
     (if 0 < n then
        (if m s1 \<noteq> m s2 then ucast (m s1) - ucast (m s2)
         else if m s1 = 0 then 0
         else strncmp_loop (s1 + 1) (s2 + 1) (n - 1) m)
      else 0)"
  by pat_completeness auto
termination
  by (relation "measure (\<lambda>(s1, s2, n, m). unat n)") (auto simp: unat_pred_Suc)

declare strncmp_loop.simps [simp del]

definition strncmp :: "u64 \<Rightarrow> u64 \<Rightarrow> u64 \<Rightarrow> bytes \<Rightarrow> u32" where
  "strncmp s1 s2 n m = (if n = 0 then 0 else strncmp_loop s1 s2 n m)"

function strncpy_copy :: "u64 \<Rightarrow> u64 \<Rightarrow> u64 \<Rightarrow> u64 \<Rightarrow> bytes \<Rightarrow> u64 \<times> bytes" where
  "strncpy_copy i n ptr src m =
     (if i < n \<and> m (src + i) \<noteq> 0
      then strncpy_copy (i + 1) n ptr src (m(ptr + i := m (src + i)))
      else (i, m))"
  by pat_completeness auto
termination
  by (relation "measure (\<lambda>(i, n, ptr, src, m). unat n - unat i)")
    (auto simp: unat_Suc_of_less word_less_nat_alt)

declare strncpy_copy.simps [simp del]

definition strncpy :: "u64 \<Rightarrow> u64 \<Rightarrow> u64 \<Rightarrow> bytes \<Rightarrow> u64 \<times> bytes" where
  "strncpy dest src n m =
     (if dest = 0 \<or> src = 0 then (dest, m)
      else let (i, m') = strncpy_copy 0 n dest src m
           in (dest, for_up i n (\<lambda>i p. p(dest + i := 0)) m'))"

text \<open>
  \<open>itoa.c\<close>. The digits are written least significant first and the buffer is
  then reversed in place. \<open>base\<close> is a C \<open>int\<close>, compared as a signed value.
\<close>

definition digit_byte :: "u64 \<Rightarrow> u8" where
  "digit_byte digit = (if digit < 10 then 48 + ucast digit else 97 + ucast digit - 10)"

partial_function (option) itoa_digits_loop ::
    "u64 \<Rightarrow> u64 \<Rightarrow> u64 \<Rightarrow> bytes \<Rightarrow> (u64 \<times> bytes) option" where
  "itoa_digits_loop val base ptr m =
     (if 0 < val
      then itoa_digits_loop (val div base) base (ptr + 1) (m(ptr := digit_byte (val mod base)))
      else Some (ptr, m))"

function itoa_reverse :: "u64 \<Rightarrow> u64 \<Rightarrow> bytes \<Rightarrow> bytes" where
  "itoa_reverse ptr stop m =
     (if ptr < stop
      then itoa_reverse (ptr + 1) (stop - 1) (m(ptr := m stop, stop := m ptr))
      else m)"
  by pat_completeness auto
termination
proof (relation "measure (\<lambda>(ptr, stop, m). unat stop - unat ptr)")
  fix ptr stop :: u64 and m :: bytes
  assume less: "ptr < stop"
  then have "0 < stop" by (simp add: word_less_nat_alt)
  then show "((ptr + 1, stop - 1, m(ptr := m stop, stop := m ptr)), ptr, stop, m)
      \<in> measure (\<lambda>(ptr, stop, m). unat stop - unat ptr)"
    using less unat_pred_Suc [of stop] unat_Suc_of_less [OF less]
    by (simp add: word_less_nat_alt)
qed simp

declare itoa_reverse.simps [simp del]

definition itoa :: "u64 \<Rightarrow> u64 \<Rightarrow> u32 \<Rightarrow> bytes \<Rightarrow> (u64 \<times> bytes) option" where
  "itoa val str base m =
     (if sint base < 2 \<or> 16 < sint base then Some (str, m(str := 0))
      else case (if val = 0 then Some (str + 1, m(str := 48))
                 else itoa_digits_loop val (ucast base) str m) of
        None \<Rightarrow> None
      | Some (end, m') \<Rightarrow> Some (str, itoa_reverse str (end - 1) (m'(end := 0))))"

section \<open>Writing and reading sequences\<close>

lemma poke_other: "of_nat (length xs) \<le> a - p \<Longrightarrow> length xs < 2 ^ 64 \<Longrightarrow> poke m p xs a = m a"
proof (induction xs arbitrary: m p)
  case Nil
  then show ?case by simp
next
  case (Cons x xs)
  have len: "unat (of_nat (length (x # xs)) :: u64) = Suc (length xs)"
    using Cons.prems(2) by (simp only: unat_of_nat_u64 list.size)
  then have ge: "Suc (length xs) \<le> unat (a - p)"
    using Cons.prems(1) by (simp only: word_le_nat_alt)
  then have ne: "a \<noteq> p" by auto
  have "unat (a - (p + 1)) = unat (a - p) - 1"
  proof -
    have "1 \<le> a - p" using ge unfolding word_le_nat_alt unat_1 by linarith
    then have "unat (a - p - 1) = unat (a - p) - 1" by (simp only: unat_sub_no_wrap unat_1)
    then show ?thesis by (simp add: diff_diff_add)
  qed
  then have "of_nat (length xs) \<le> a - (p + 1)"
    using ge Cons.prems(2) by (simp add: word_le_nat_alt unat_of_nat_u64)
  then show ?case using Cons.IH [of "p + 1" "m(p := x)"] Cons.prems(2) ne by (simp add: fun_upd_def)
qed

lemma poke_before: "xs \<noteq> [] \<Longrightarrow> length xs < 2 ^ 64 \<Longrightarrow> poke m (p + 1) (tl xs) p = m p"
  by (rule poke_other) simp_all

lemma poke_nth: "i < length xs \<Longrightarrow> length xs < 2 ^ 64 \<Longrightarrow> poke m p xs (p + of_nat i) = xs ! i"
proof (induction xs arbitrary: m p i)
  case Nil
  then show ?case by simp
next
  case (Cons x xs)
  show ?case
  proof (cases i)
    case 0
    then show ?thesis using poke_before [of "x # xs" "m(p := x)" p] Cons.prems(2) by simp
  next
    case (Suc j)
    then show ?thesis using Cons.IH [of j "m(p := x)" "p + 1"] Cons.prems by (simp add: add.assoc fun_upd_def)
  qed
qed

lemma peek_poke: "length xs < 2 ^ 64 \<Longrightarrow> peek (poke m p xs) p (length xs) = xs"
  by (intro nth_equalityI) (simp_all add: nth_peek poke_nth)

lemma poke_append: "poke m p (xs @ ys) = poke (poke m p xs) (p + of_nat (length xs)) ys"
  by (induction xs arbitrary: m p) (simp_all add: add.assoc)

lemma cstr_iff:
  "cstr m p cs \<longleftrightarrow> peek m p (length cs) = cs \<and> m (p + of_nat (length cs)) = 0 \<and> 0 \<notin> set cs"
  by (induction m p cs rule: cstr.induct) (auto simp: add.assoc)

lemma cstr_unique: "cstr m p cs \<Longrightarrow> cstr m p ds \<Longrightarrow> cs = ds"
proof (induction m p cs arbitrary: ds rule: cstr.induct)
  case (1 m p)
  then show ?case by (cases ds) auto
next
  case (2 m p c cs)
  then show ?case by (cases ds) auto
qed

lemma cstr_poke:
  assumes "length cs < 2 ^ 64 - 1" and "0 \<notin> set cs"
  shows "cstr ((poke m p cs)(p + of_nat (length cs) := 0)) p cs"
proof -
  have "poke m p (cs @ [0]) = (poke m p cs)(p + of_nat (length cs) := 0)"
    by (simp add: poke_append)
  moreover have "peek (poke m p (cs @ [0])) p (length cs) = cs"
    by (rule nth_equalityI) (use assms in \<open>simp_all add: nth_peek poke_nth nth_append\<close>)
  moreover have "poke m p (cs @ [0]) (p + of_nat (length cs)) = 0"
    using poke_nth [of "length cs" "cs @ [0]" m p] assms(1) by simp
  ultimately show ?thesis using assms(2) by (simp add: cstr_iff)
qed

section \<open>Length, copy, concatenation\<close>

lemma strlen_loop_cstr:
  "cstr m (str + n) cs \<Longrightarrow> strlen_loop str n m = Some (n + of_nat (length cs))"
proof (induction cs arbitrary: n)
  case Nil
  then show ?case by (simp add: strlen_loop.simps)
next
  case (Cons c cs)
  then show ?case using Cons.IH [of "n + 1"] by (subst strlen_loop.simps) (simp add: add.assoc)
qed

lemma strlen_cstr: "cstr m str cs \<Longrightarrow> strlen str m = Some (of_nat (length cs))"
  using strlen_loop_cstr [of m str 0 cs] by (simp add: strlen_def)

lemma skip_to_nul_cstr: "cstr m p cs \<Longrightarrow> skip_to_nul p m = Some (p + of_nat (length cs))"
proof (induction cs arbitrary: p)
  case Nil
  then show ?case by (simp add: skip_to_nul.simps)
next
  case (Cons c cs)
  then show ?case using Cons.IH [of "p + 1"] by (subst skip_to_nul.simps) (simp add: add.assoc)
qed

text \<open>
  The source string survives the copy because none of its bytes is among the bytes
  written before it is read.
\<close>

lemma cstr_upd: "(\<And>i. i \<le> length cs \<Longrightarrow> p + of_nat i \<noteq> a) \<Longrightarrow> cstr (m(a := x)) p cs = cstr m p cs"
proof (induction cs arbitrary: p)
  case Nil
  then show ?case using Nil [of 0] by simp
next
  case (Cons c cs)
  have "p \<noteq> a" using Cons.prems [of 0] by simp
  moreover have "cstr (m(a := x)) (p + 1) cs = cstr m (p + 1) cs"
  proof (rule Cons.IH)
    fix i assume "i \<le> length cs"
    then show "p + 1 + of_nat i \<noteq> a" using Cons.prems [of "Suc i"] by (simp add: add.assoc)
  qed
  ultimately show ?case by (simp add: fun_upd_def)
qed

lemma copy_until_nul_cstr:
  assumes "cstr m src cs"
    and "\<And>i j. i < length cs \<Longrightarrow> j \<le> length cs \<Longrightarrow> dest + of_nat i \<noteq> src + of_nat j"
  shows "copy_until_nul dest src m = Some (dest + of_nat (length cs), poke m dest cs)"
  using assms
proof (induction cs arbitrary: dest src m)
  case Nil
  then show ?case by (simp add: copy_until_nul.simps)
next
  case (Cons c cs)
  have sep: "src + 1 + of_nat i \<noteq> dest" if "i \<le> length cs" for i
    using Cons.prems(2) [of 0 "Suc i"] that by (simp add: add.assoc)
  have "cstr (m(dest := c)) (src + 1) cs"
    using Cons.prems(1) sep by (simp add: cstr_upd)
  moreover have "dest + 1 + of_nat i \<noteq> src + 1 + of_nat j"
    if "i < length cs" "j \<le> length cs" for i j
    using Cons.prems(2) [of "Suc i" "Suc j"] that by (simp add: add.assoc)
  ultimately have "copy_until_nul (dest + 1) (src + 1) (m(dest := c))
      = Some (dest + 1 + of_nat (length cs), poke (m(dest := c)) (dest + 1) cs)"
    by (rule Cons.IH)
  then show ?case
    using Cons.prems(1) by (subst copy_until_nul.simps) (simp add: add.assoc fun_upd_def)
qed

lemma cstr_no_nul: "cstr m p cs \<Longrightarrow> 0 \<notin> set cs"
  by (simp add: cstr_iff)

lemma strcpy_cstr:
  assumes "cstr m src cs" and "dest \<noteq> 0" and "src \<noteq> 0" and "length cs < 2 ^ 64 - 1"
    and "\<And>i j. i < length cs \<Longrightarrow> j \<le> length cs \<Longrightarrow> dest + of_nat i \<noteq> src + of_nat j"
  shows "\<exists>m'. strcpy dest src m = Some (dest, m') \<and> cstr m' dest cs
    \<and> (\<forall>a. of_nat (length cs) < a - dest \<longrightarrow> m' a = m a)"
proof -
  let ?m = "(poke m dest cs)(dest + of_nat (length cs) := 0)"
  have "strcpy dest src m = Some (dest, ?m)"
    using copy_until_nul_cstr [OF assms(1,5)] assms(2,3) by (simp add: strcpy_def)
  moreover have "cstr ?m dest cs" using assms(1,4) by (simp add: cstr_poke cstr_no_nul)
  moreover have "?m a = m a" if "of_nat (length cs) < a - dest" for a
    using that assms(4) poke_other [of cs a dest m] by (auto simp: less_imp_le)
  ultimately show ?thesis by blast
qed

lemma strcat_cstr:
  assumes "cstr m dest ds" and "cstr m src cs" and "length ds + length cs < 2 ^ 64 - 1"
    and "\<And>i j. i < length cs \<Longrightarrow> j \<le> length cs \<Longrightarrow>
      dest + of_nat (length ds) + of_nat i \<noteq> src + of_nat j"
  shows "\<exists>m'. strcat dest src m = Some (dest, m') \<and> cstr m' dest (ds @ cs)"
proof -
  let ?e = "dest + of_nat (length ds)"
  let ?m = "(poke m ?e cs)(?e + of_nat (length cs) := 0)"
  have "strcat dest src m = Some (dest, ?m)"
    using skip_to_nul_cstr [OF assms(1)] copy_until_nul_cstr [OF assms(2,4)]
    by (simp add: strcat_def)
  moreover have "m = poke m dest ds"
  proof -
    have "\<And>i. i < length ds \<Longrightarrow> m (dest + of_nat i) = ds ! i"
      using assms(1) by (metis cstr_iff nth_peek)
    then show ?thesis
    proof (induction ds arbitrary: dest)
      case (Cons d ds)
      have "m = poke m (dest + 1) ds"
        by (rule Cons.IH) (use Cons.prems in \<open>force simp: add.assoc\<close>)
      moreover have "m(dest := d) = m" using Cons.prems [of 0] by auto
      ultimately show ?case by simp
    qed simp
  qed
  then have "poke m ?e cs = poke m dest (ds @ cs)" by (simp add: poke_append)
  then have "cstr ?m dest (ds @ cs)"
    using cstr_poke [of "ds @ cs" m dest] assms(1-3) by (simp add: cstr_no_nul add.assoc)
  ultimately show ?thesis by blast
qed

section \<open>Comparison\<close>

text \<open>The difference of the first two bytes that differ, a missing byte read as the NUL.\<close>

fun str_order :: "u8 list \<Rightarrow> u8 list \<Rightarrow> u32" where
  "str_order [] [] = 0"
| "str_order [] (y # ys) = - ucast y"
| "str_order (x # xs) [] = ucast x"
| "str_order (x # xs) (y # ys) = (if x = y then str_order xs ys else ucast x - ucast y)"

lemma ucast_u8_u32_eq: "(ucast (x :: u8) :: u32) = ucast y \<longleftrightarrow> x = y"
proof -
  have "unat (ucast z :: u32) = unat z" for z :: u8
    by (rule unat_ucast_up) simp
  then show ?thesis by (metis word_unat_eq_iff)
qed

lemma strcmp_cstr:
  "cstr m a xs \<Longrightarrow> cstr m b ys \<Longrightarrow> strcmp a b m = Some (str_order xs ys)"
proof (induction xs ys arbitrary: a b rule: str_order.induct)
  case (4 x xs y ys)
  then show ?case by (subst strcmp.simps) auto
qed (simp_all add: strcmp.simps)

lemma strncmp_loop_cstr:
  "cstr m a xs \<Longrightarrow> cstr m b ys \<Longrightarrow>
    strncmp_loop a b n m = str_order (take (unat n) xs) (take (unat n) ys)"
proof (induction xs ys arbitrary: a b n rule: str_order.induct)
  case (4 x xs y ys)
  show ?case
  proof (cases "0 < n")
    case True
    then show ?thesis
      using 4 unat_pred_Suc [OF True] by (auto simp: strncmp_loop.simps [of a b n])
  next
    case False
    then have "unat n = 0" by (simp add: word_less_nat_alt)
    with False show ?thesis by (simp add: strncmp_loop.simps [of a b n])
  qed
next
  case 1
  then show ?case by (auto simp: strncmp_loop.simps [of a b n])
next
  case (2 y ys)
  show ?case
    by (cases "unat n") (use 2 in \<open>auto simp: strncmp_loop.simps [of a b n] word_less_nat_alt\<close>)
next
  case (3 x xs)
  show ?case
    by (cases "unat n") (use 3 in \<open>auto simp: strncmp_loop.simps [of a b n] word_less_nat_alt\<close>)
qed

lemma strncmp_cstr:
  "cstr m a xs \<Longrightarrow> cstr m b ys \<Longrightarrow>
    strncmp a b n m = str_order (take (unat n) xs) (take (unat n) ys)"
  by (simp add: strncmp_def strncmp_loop_cstr)

lemma str_order_0_iff:
  assumes "0 \<notin> set xs" and "0 \<notin> set ys"
  shows "str_order xs ys = 0 \<longleftrightarrow> xs = ys"
  using assms
  by (induction xs ys rule: str_order.induct)
    (auto simp: ucast_u8_u32_eq simp flip: ucast_u8_u32_eq)

section \<open>Bounded copy\<close>

lemma strncpy_copy_cstr:
  assumes "cstr m (src + i) cs" and "i \<le> n"
    and "\<And>k j. k < unat n \<Longrightarrow> j \<le> length cs \<Longrightarrow> ptr + of_nat k \<noteq> src + i + of_nat j"
  shows "strncpy_copy i n ptr src m
    = (let l = min (length cs) (unat n - unat i)
       in (i + of_nat l, poke m (ptr + i) (take l cs)))"
  using assms
proof (induction cs arbitrary: i m)
  case Nil
  then show ?case by (simp add: strncpy_copy.simps [of i])
next
  case (Cons c cs)
  show ?case
  proof (cases "i < n")
    case True
    note Si = unat_Suc_of_less [OF True]
    have in_un: "unat i < unat n" using True by (simp add: word_less_nat_alt)
    have sep: "src + i + 1 + of_nat j \<noteq> ptr + i" if "j \<le> length cs" for j
      using Cons.prems(3) [of "unat i" "Suc j"] that in_un by (auto simp: add.assoc)
    have "cstr (m(ptr + i := c)) (src + (i + 1)) cs"
      using Cons.prems(1) sep by (simp add: cstr_upd add.assoc)
    moreover have "i + 1 \<le> n" using True by (rule inc_le)
    moreover have "ptr + of_nat k \<noteq> src + (i + 1) + of_nat j"
      if "k < unat n" "j \<le> length cs" for k j
      using Cons.prems(3) [of k "Suc j"] that by (simp add: add.assoc)
    ultimately have "strncpy_copy (i + 1) n ptr src (m(ptr + i := c))
        = (let l = min (length cs) (unat n - unat (i + 1))
           in (i + 1 + of_nat l, poke (m(ptr + i := c)) (ptr + (i + 1)) (take l cs)))"
      by (rule Cons.IH)
    moreover have "unat n - unat i = Suc (unat n - unat (i + 1))" using Si in_un by simp
    ultimately show ?thesis
      using True Cons.prems(1)
      by (simp add: strncpy_copy.simps [of i] Let_def add.assoc fun_upd_def)
  next
    case False
    then show ?thesis by (simp add: strncpy_copy.simps [of i] word_less_nat_alt)
  qed
qed

section \<open>Number formatting\<close>

text \<open>
  The specification of \<open>itoa\<close>: the digits of a number, least significant first,
  and the value a digit string denotes.
\<close>

fun digits_le :: "nat \<Rightarrow> nat \<Rightarrow> nat list" where
  "digits_le b v = (if v = 0 \<or> b < 2 then [] else v mod b # digits_le b (v div b))"

declare digits_le.simps [simp del]

definition itoa_digits :: "nat \<Rightarrow> nat \<Rightarrow> nat list" where
  "itoa_digits b v = (if v = 0 then [0] else rev (digits_le b v))"

definition digit_char :: "nat \<Rightarrow> u8" where
  "digit_char d = (if d < 10 then 48 + of_nat d else 87 + of_nat d)"

definition itoa_string :: "nat \<Rightarrow> nat \<Rightarrow> u8 list" where
  "itoa_string b v = map digit_char (itoa_digits b v)"

definition char_digit :: "u8 \<Rightarrow> nat" where
  "char_digit c = (if c < 97 then unat c - 48 else unat c - 87)"

definition parse_number :: "nat \<Rightarrow> u8 list \<Rightarrow> nat" where
  "parse_number b cs = foldl (\<lambda>acc c. acc * b + char_digit c) 0 cs"

lemma digits_le_0 [simp]: "digits_le b 0 = []"
  by (simp add: digits_le.simps)

lemma digits_le_step:
  "0 < v \<Longrightarrow> 2 \<le> b \<Longrightarrow> digits_le b v = v mod b # digits_le b (v div b)"
  by (simp add: digits_le.simps [of b v])

lemma digits_le_small: "2 \<le> b \<Longrightarrow> d \<in> set (digits_le b v) \<Longrightarrow> d < b"
proof (induction b v rule: digits_le.induct)
  case (1 b v)
  then show ?case
    by (cases "v = 0") (auto simp: digits_le_step)
qed

lemma digits_le_value:
  "2 \<le> b \<Longrightarrow> foldr (\<lambda>d acc. acc * b + d) (digits_le b v) 0 = v"
proof (induction b v rule: digits_le.induct)
  case (1 b v)
  then show ?case by (cases "v = 0") (auto simp: digits_le_step)
qed

lemma digits_le_length: "2 \<le> b \<Longrightarrow> v < b ^ n \<Longrightarrow> length (digits_le b v) \<le> n"
proof (induction n arbitrary: v)
  case 0
  then show ?case by simp
next
  case (Suc n)
  show ?case
  proof (cases "v = 0")
    case False
    have "v div b < b ^ n"
      using Suc.prems by (simp add: less_mult_imp_div_less mult.commute)
    with Suc False show ?thesis by (simp add: digits_le_step)
  qed simp
qed

lemma itoa_digits_value: "2 \<le> b \<Longrightarrow> foldl (\<lambda>acc d. acc * b + d) 0 (itoa_digits b v) = v"
  by (simp add: itoa_digits_def foldl_conv_foldr digits_le_value)

lemma itoa_digits_small: "2 \<le> b \<Longrightarrow> d \<in> set (itoa_digits b v) \<Longrightarrow> d < b"
  by (auto simp: itoa_digits_def dest: digits_le_small split: if_splits)

lemma char_digit_char: "d < 16 \<Longrightarrow> char_digit (digit_char d) = d"
proof -
  assume d: "d < 16"
  then have u: "unat (of_nat d :: u8) = d" by (simp add: unat_of_nat)
  have "unat (48 + of_nat d :: u8) = 48 + d" "unat (87 + of_nat d :: u8) = 87 + d"
    using d u by (simp_all add: unat_word_ariths)
  with d show ?thesis
    by (auto simp: char_digit_def digit_char_def word_less_nat_alt)
qed

lemma digit_char_nonzero: "d < 16 \<Longrightarrow> digit_char d \<noteq> 0"
proof -
  assume d: "d < 16"
  then have u: "unat (of_nat d :: u8) = d" by (simp add: unat_of_nat)
  have "unat (48 + of_nat d :: u8) = 48 + d" "unat (87 + of_nat d :: u8) = 87 + d"
    using d u by (simp_all add: unat_word_ariths)
  then show ?thesis unfolding digit_char_def by (metis add_is_0 unat_0 zero_neq_numeral)
qed

lemma parse_itoa_string:
  assumes "2 \<le> b" and "b \<le> 16"
  shows "parse_number b (itoa_string b v) = v"
proof -
  have "foldl (\<lambda>acc c. acc * b + char_digit c) a (map digit_char ds)
      = foldl (\<lambda>acc d. acc * b + d) a ds" if "\<forall>d \<in> set ds. d < 16" for ds a
    using that by (induction ds arbitrary: a) (simp_all add: char_digit_char)
  moreover have "\<forall>d \<in> set (itoa_digits b v). d < 16"
    using assms itoa_digits_small by fastforce
  ultimately show ?thesis
    using assms(1) by (simp add: parse_number_def itoa_string_def itoa_digits_value)
qed

lemma itoa_string_length:
  "2 \<le> b \<Longrightarrow> v < b ^ n \<Longrightarrow> 0 < n \<Longrightarrow> length (itoa_string b v) \<le> n"
  using digits_le_length [of b v n] by (simp add: itoa_string_def itoa_digits_def)

lemma itoa_string_no_nul: "2 \<le> b \<Longrightarrow> b \<le> 16 \<Longrightarrow> 0 \<notin> set (itoa_string b v)"
  using itoa_digits_small digit_char_nonzero by (fastforce simp: itoa_string_def)

lemma digit_byte_char:
  assumes "unat d < 16"
  shows "digit_byte d = digit_char (unat d)"
proof -
  have "ucast d = (of_nat (unat d) :: u8)" by simp
  then show ?thesis using assms by (simp add: digit_byte_def digit_char_def word_less_nat_alt)
qed

lemma itoa_digits_loop_pokes:
  assumes "2 \<le> unat base" and "unat base \<le> 16"
  shows "itoa_digits_loop val base ptr m
    = Some (ptr + of_nat (length (digits_le (unat base) (unat val))),
            poke m ptr (map digit_char (digits_le (unat base) (unat val))))"
  using assms
proof (induction "unat val" arbitrary: val ptr m rule: less_induct)
  case less
  show ?case
  proof (cases "0 < val")
    case True
    then have pos: "0 < unat val" by (simp add: word_less_nat_alt)
    have lt: "unat (val div base) < unat val"
      using pos less.prems by (simp add: unat_div)
    have dig: "digit_byte (val mod base) = digit_char (unat val mod unat base)"
    proof -
      have "unat val mod unat base < unat base" using less.prems by simp
      then have "unat val mod unat base < 16" using less.prems by linarith
      then have "unat (val mod base) < 16" by (simp only: unat_mod)
      then show ?thesis by (simp add: digit_byte_char unat_mod)
    qed
    show ?thesis
      using less.hyps [OF lt less.prems, of "ptr + 1" "m(ptr := digit_byte (val mod base))"]
        True pos less.prems dig
      by (subst itoa_digits_loop.simps)
        (simp add: digits_le_step unat_div add.assoc fun_upd_def)
  next
    case False
    then have "unat val = 0" by (simp add: word_less_nat_alt)
    with False show ?thesis by (subst itoa_digits_loop.simps) simp
  qed
qed

text \<open>Reversing a buffer in place, two ends at a time.\<close>

lemma itoa_reverse_apply:
  assumes "unat stop < 2 ^ 64 - 1"
  shows "itoa_reverse ptr stop m a
    = (if ptr \<le> a \<and> a \<le> stop then m (ptr + (stop - a)) else m a)"
  using assms
proof (induction ptr stop m rule: itoa_reverse.induct)
  case (1 ptr stop m)
  let ?m = "m(ptr := m stop, stop := m ptr)"
  show ?case
  proof (cases "ptr < stop")
    case True
    then have "0 < stop" by (simp add: word_less_nat_alt)
    note u = unat_Suc_of_less [OF True] unat_pred_Suc [OF this]
    have IH: "itoa_reverse (ptr + 1) (stop - 1) ?m a
        = (if ptr + 1 \<le> a \<and> a \<le> stop - 1 then ?m (ptr + 1 + (stop - 1 - a)) else ?m a)"
    proof -
      have "unat (stop - 1) < 2 ^ 64 - 1" using u "1.prems" by linarith
      then show ?thesis by (rule "1.IH" [OF True])
    qed
    have same: "ptr + 1 + (stop - 1 - a) = ptr + (stop - a)" by (simp add: algebra_simps)
    have step: "itoa_reverse ptr stop m a = itoa_reverse (ptr + 1) (stop - 1) ?m a"
      using True by (simp add: itoa_reverse.simps [of ptr])
    consider (lo) "a = ptr" | (hi) "a = stop" | (mid) "ptr < a" "a < stop" | (out) "a < ptr \<or> stop < a"
      by (metis linorder_less_linear)
    then show ?thesis
    proof cases
      case lo
      have "\<not> ptr + 1 \<le> ptr" using u by (simp add: word_le_nat_alt)
      then show ?thesis using lo True step IH by auto
    next
      case hi
      have "\<not> stop \<le> stop - 1" using u by (simp add: word_le_nat_alt)
      then show ?thesis using hi True step IH by auto
    next
      case mid
      have le: "ptr + 1 \<le> a" "a \<le> stop - 1"
        using mid u by (simp_all add: word_le_nat_alt word_less_nat_alt)
      have sub: "unat (stop - a) = unat stop - unat a"
        using mid by (simp add: unat_sub_no_wrap)
      have "unat (ptr + (stop - a)) = unat ptr + unat (stop - a)"
        using mid sub "1.prems"
        by (intro unat_add_no_wrap) (simp add: word_less_nat_alt)
      then have "ptr + (stop - a) \<noteq> ptr" "ptr + (stop - a) \<noteq> stop"
        using mid sub by (auto simp: word_less_nat_alt word_unat_eq_iff)
      then show ?thesis using mid step IH same le by auto
    next
      case out
      then have "\<not> (ptr + 1 \<le> a \<and> a \<le> stop - 1)" "a \<noteq> ptr" "a \<noteq> stop"
        using u True by (auto simp: word_le_nat_alt word_less_nat_alt)
      then show ?thesis using out step IH by auto
    qed
  next
    case False
    then have same: "itoa_reverse ptr stop m a = m a"
      by (subst itoa_reverse.simps) simp
    show ?thesis
    proof (cases "ptr \<le> a \<and> a \<le> stop")
      case True
      with False have "a = ptr" "stop = ptr" by auto
      with same show ?thesis by simp
    next
      case outside: False
      with same show ?thesis by auto
    qed
  qed
qed

lemma sint_small_u32:
  assumes "unat (b :: u32) < 2 ^ 31"
  shows "sint b = int (unat b)"
proof -
  have "int (unat b) < int (2 ^ 31)" using assms by (simp only: of_nat_less_iff)
  then have "uint b < 2 ^ 31" by simp
  moreover have "0 \<le> uint b" by simp
  ultimately have "signed_take_bit 31 (uint b) = uint b"
    by (intro signed_take_bit_int_eq_self) linarith+
  then show ?thesis by (simp add: sint_uint)
qed

lemma itoa_correct:
  assumes "2 \<le> unat base" and "unat base \<le> 16"
    and "unat str + length (itoa_string (unat base) (unat val)) < 2 ^ 64 - 1"
  shows "\<exists>m'. itoa val str base m = Some (str, m')
    \<and> cstr m' str (itoa_string (unat base) (unat val))
    \<and> (\<forall>a. of_nat (length (itoa_string (unat base) (unat val))) < a - str \<longrightarrow> m' a = m a)"
proof -
  let ?b = "unat base" and ?v = "unat val"
  let ?cs = "itoa_string ?b ?v" and ?k = "length (itoa_string ?b ?v)"
  let ?m1 = "(poke m str (rev ?cs))(str + of_nat ?k := 0)"
  let ?stop = "str + of_nat ?k - 1"
  have guard: "\<not> (sint base < 2 \<or> 16 < sint base)"
  proof -
    have "sint base = int ?b" using assms(2) by (intro sint_small_u32) simp
    moreover have "2 \<le> int ?b" "int ?b \<le> 16" using assms(1,2) by linarith+
    ultimately show ?thesis by linarith
  qed
  have base: "unat (ucast base :: u64) = ?b" by (rule unat_ucast_up) simp
  have loop: "(if val = 0 then Some (str + 1, m(str := 48))
      else itoa_digits_loop val (ucast base) str m)
    = Some (str + of_nat ?k, poke m str (rev ?cs))"
  proof (cases "val = 0")
    case True
    then show ?thesis by (simp add: itoa_string_def itoa_digits_def digit_char_def)
  next
    case False
    then have "?v \<noteq> 0" by (simp add: unat_eq_zero)
    then have "rev ?cs = map digit_char (digits_le ?b ?v)" "?k = length (digits_le ?b ?v)"
      by (simp_all add: itoa_string_def itoa_digits_def rev_map)
    then show ?thesis
      using False itoa_digits_loop_pokes [of "ucast base" val str m] assms(1,2) base by simp
  qed
  then have run: "itoa val str base m = Some (str, itoa_reverse str ?stop ?m1)"
    using guard by (simp add: itoa_def)
  have k0: "0 < ?k"
    using digits_le_step [of ?v ?b] assms(1) by (auto simp: itoa_string_def itoa_digits_def)
  have k64: "?k < 2 ^ 64" using assms(3) by linarith
  have "unat (str + of_nat ?k) = unat str + ?k"
    using assms(3) k64 by (subst unat_add_no_wrap) (simp_all add: unat_of_nat_u64)
  moreover from this k0 have "1 \<le> str + of_nat ?k" by (simp only: word_le_nat_alt unat_1)
  ultimately have stop: "unat ?stop = unat str + ?k - 1" by (simp only: unat_sub_no_wrap unat_1)
  have rev: "itoa_reverse str ?stop ?m1 a
      = (if str \<le> a \<and> a \<le> ?stop then ?m1 (str + (?stop - a)) else ?m1 a)" for a
    using stop assms(3) by (intro itoa_reverse_apply) linarith
  have at: "unat (str + of_nat i) = unat str + i" if "i \<le> ?k" for i
    using that assms(3) by (subst unat_add_no_wrap) (simp_all add: unat_of_nat_u64)
  have in_buf: "itoa_reverse str ?stop ?m1 (str + of_nat i) = ?cs ! i" if i: "i < ?k" for i
  proof -
    have range: "str \<le> str + of_nat i" "str + of_nat i \<le> ?stop"
      using at [of i] stop i by (simp_all add: word_le_nat_alt)
    have mirror: "?stop - (str + of_nat i) = of_nat (?k - 1 - i)"
      using i k0 by (simp add: of_nat_diff algebra_simps)
    have "itoa_reverse str ?stop ?m1 (str + of_nat i) = ?m1 (str + of_nat (?k - 1 - i))"
      by (subst rev) (simp only: range mirror simp_thms if_True)
    also have "\<dots> = poke m str (rev ?cs) (str + of_nat (?k - 1 - i))"
    proof -
      have "unat (str + of_nat (?k - 1 - i)) \<noteq> unat (str + of_nat ?k)"
        using i at [of "?k - 1 - i"] at [of ?k] by simp
      then show ?thesis by (metis fun_upd_other)
    qed
    also have "\<dots> = rev ?cs ! (?k - 1 - i)" using i k64 by (intro poke_nth) simp_all
    also have "\<dots> = ?cs ! i" using i by (simp add: rev_nth)
    finally show ?thesis .
  qed
  have "itoa_reverse str ?stop ?m1 (str + of_nat ?k) = 0"
  proof -
    have "\<not> str + of_nat ?k \<le> ?stop"
      using at [of ?k] stop k0 unfolding word_le_nat_alt by linarith
    then show ?thesis by (subst rev) (simp only: simp_thms if_False fun_upd_same)
  qed
  then have "cstr (itoa_reverse str ?stop ?m1) str ?cs"
    using in_buf assms(1,2)
    by (simp add: cstr_iff itoa_string_no_nul nth_peek list_eq_iff_nth_eq)
  moreover have "itoa_reverse str ?stop ?m1 a = m a" if out: "of_nat ?k < a - str" for a
  proof -
    have outside: "\<not> (str \<le> a \<and> a \<le> ?stop)"
      using out stop k64 by (auto simp: word_less_nat_alt word_le_nat_alt unat_sub_no_wrap unat_of_nat_u64)
    have ne: "a \<noteq> str + of_nat ?k" using out by auto
    have "poke m str (rev ?cs) a = m a"
      using out k64 by (intro poke_other) (auto simp: less_imp_le)
    then show ?thesis using outside ne by (subst rev) (simp only: if_False fun_upd_other simp_thms)
  qed
  ultimately show ?thesis using run by blast
qed

end
