(* ===== verification/Console.thy ===== *)
theory Console
  imports LibC_String
begin

text \<open>
  The kernel's log, as every other component sees it: the text handed to
  \<open>serial_puts\<close>, with the driver's newline translation, appended to what the
  serial line has carried so far. \<open>Serial\<close> models the driver itself, port by
  port, and shows that this is what it transmits. The record \<open>console\<close> is the
  bottom of the chain of state records: each later component extends it with its
  own fields.

  The theory also holds the interface of a character sink, with the fact that
  printing a string prints its characters in order.
\<close>

section \<open>Numbers as text\<close>

definition num_text :: "nat \<Rightarrow> u64 \<Rightarrow> string" where
  "num_text base v = map (\<lambda>b. char_of (unat b)) (itoa_string base (unat v))"

section \<open>The log\<close>

record console =
  serial_out :: string

definition crlf :: "string \<Rightarrow> string" where
  "crlf msg = concat (map (\<lambda>c. if c = CHR 0x0A then [CHR 0x0D, CHR 0x0A] else [c]) msg)"

definition klog :: "string \<Rightarrow> 'a console_scheme \<Rightarrow> 'a console_scheme" where
  "klog msg s = s\<lparr>serial_out := serial_out s @ crlf msg\<rparr>"

text \<open>\<open>serial_puts(a); serial_puts(itoa(v, buf, base)); serial_puts(b);\<close>\<close>

definition klog_num :: "string \<Rightarrow> nat \<Rightarrow> u64 \<Rightarrow> string \<Rightarrow> 'a console_scheme \<Rightarrow> 'a console_scheme" where
  "klog_num a base v b s = klog b (klog (num_text base v) (klog a s))"

lemma serial_out_klog: "serial_out (klog msg s) = serial_out s @ crlf msg"
  by (simp add: klog_def)

lemma more_klog [frame_simps, simp]: "console.more (klog msg s) = console.more s"
  by (simp add: klog_def)

lemma more_klog_num [frame_simps, simp]: "console.more (klog_num a base v b s) = console.more s"
  by (simp add: klog_num_def)

section \<open>Character sinks\<close>

text \<open>
  \<open>while (*str) putc(*str++);\<close> with a \<open>putc\<close> that may wait for its device for
  ever (\<open>None\<close>).
\<close>

fun put_all :: "('c \<Rightarrow> 's \<Rightarrow> 's option) \<Rightarrow> 'c list \<Rightarrow> 's \<Rightarrow> 's option" where
  "put_all putc [] s = Some s"
| "put_all putc (c # cs) s =
     (case putc c s of None \<Rightarrow> None | Some s' \<Rightarrow> put_all putc cs s')"

locale char_sink =
  fixes putc :: "'c \<Rightarrow> 's \<Rightarrow> 's option"
    and ready :: "'s \<Rightarrow> bool"
    and out :: "'s \<Rightarrow> 'd list"
    and enc :: "'c \<Rightarrow> 'd list"
  assumes putc_ready: "ready s \<Longrightarrow> \<exists>s'. putc c s = Some s' \<and> ready s' \<and> out s' = out s @ enc c"
begin

lemma put_all_out:
  "ready s \<Longrightarrow> \<exists>s'. put_all putc cs s = Some s' \<and> ready s'
     \<and> out s' = out s @ concat (map enc cs)"
proof (induction cs arbitrary: s)
  case Nil
  then show ?case by simp
next
  case (Cons c cs)
  from putc_ready [OF Cons.prems, of c] obtain s1
    where s1: "putc c s = Some s1" "ready s1" "out s1 = out s @ enc c" by blast
  from Cons.IH [OF s1(2)] obtain s2
    where "put_all putc cs s1 = Some s2" "ready s2" "out s2 = out s1 @ concat (map enc cs)"
    by blast
  with s1 show ?case by simp
qed

lemma put_all_append:
  "ready s \<Longrightarrow> put_all putc (cs @ ds) s = Option.bind (put_all putc cs s) (put_all putc ds)"
proof (induction cs arbitrary: s)
  case (Cons c cs)
  from putc_ready [OF Cons.prems, of c] Cons.IH show ?case by auto
qed simp

end

end
