(* ===== verification/Framebuffer.thy ===== *)
theory Framebuffer
  imports Console
begin

text \<open>
  \<open>kernel/src/graphics/fb.c\<close> and \<open>banner.c\<close>: drawing into the linear framebuffer
  that the boot loader hands over. The pixel memory is indexed in 32-bit cells from
  \<open>fb->address\<close>; the index arithmetic is the code's, in 32 bits with its
  wrap-around. The font is a binary object linked into the kernel; its bytes are a
  parameter (\<open>font\<close>).
\<close>

section \<open>State and parameters\<close>

record framebuffer =
  fb_address :: u64
  fb_width :: u64
  fb_height :: u64
  fb_pitch :: u64

type_synonym pixels = "u64 \<Rightarrow> u32"
type_synonym font = "u64 \<Rightarrow> u8"

definition RGB :: "u32 \<Rightarrow> u32 \<Rightarrow> u32 \<Rightarrow> u32" where
  "RGB r g b = push_bit 16 r OR push_bit 8 g OR b"

definition COLOR_BLACK :: u32 where "COLOR_BLACK = RGB 0 0 0"
definition COLOR_WHITE :: u32 where "COLOR_WHITE = RGB 255 255 255"
definition COLOR_GREEN :: u32 where "COLOR_GREEN = RGB 0 255 0"
definition COLOR_CYAN :: u32 where "COLOR_CYAN = RGB 0 255 255"
definition COLOR_ORANGE :: u32 where "COLOR_ORANGE = RGB 255 165 0"

text \<open>\<open>y * pitch + x\<close> with \<open>uint32_t pitch = fb->pitch / 4\<close>, as an array index.\<close>

definition pitch32 :: "framebuffer \<Rightarrow> u32" where
  "pitch32 fb = ucast (fb_pitch fb div 4)"

definition fb_index :: "framebuffer \<Rightarrow> u32 \<Rightarrow> u32 \<Rightarrow> u64" where
  "fb_index fb x y = ucast (y * pitch32 fb + x)"

section \<open>Operations\<close>

definition fb_draw_pixel :: "framebuffer \<Rightarrow> u32 \<Rightarrow> u32 \<Rightarrow> u32 \<Rightarrow> pixels \<Rightarrow> pixels" where
  "fb_draw_pixel fb x y color p =
     (if ucast x \<ge> fb_width fb \<or> ucast y \<ge> fb_height fb then p
      else p(fb_index fb x y := color))"

definition fb_fill_rect :: "framebuffer \<Rightarrow> u32 \<Rightarrow> u32 \<Rightarrow> u32 \<Rightarrow> u32 \<Rightarrow> u32 \<Rightarrow> pixels \<Rightarrow> pixels" where
  "fb_fill_rect fb x y w h color p =
     for_up y (y + h) (\<lambda>py. for_up x (x + w) (\<lambda>px. fb_draw_pixel fb px py color)) p"

definition fb_clear :: "framebuffer \<Rightarrow> u32 \<Rightarrow> pixels \<Rightarrow> pixels" where
  "fb_clear fb color p =
     (let cells = fb_width fb * fb_height fb in for_up 0 cells (\<lambda>i q. q(i := color)) p)"

definition psf_validate :: "font \<Rightarrow> nat" where
  "psf_validate raw =
     (if raw 0 = 0x72 \<and> raw 1 = 0xb5 \<and> raw 2 = 0x4a \<and> raw 3 = 0x86 then 2
      else if raw 0 = 0x36 \<and> raw 1 = 0x04 then 1
      else 0)"

text \<open>\<open>*(uint32_t* )(raw + 20)\<close>\<close>

definition font_word :: "font \<Rightarrow> u64 \<Rightarrow> u32" where
  "font_word raw a = ucast (raw a) OR push_bit 8 (ucast (raw (a + 1)))
     OR push_bit 16 (ucast (raw (a + 2))) OR push_bit 24 (ucast (raw (a + 3)))"

definition fb_draw_char :: "font \<Rightarrow> framebuffer \<Rightarrow> u8 \<Rightarrow> u32 \<Rightarrow> u32 \<Rightarrow> u32 \<Rightarrow> pixels \<Rightarrow> pixels" where
  "fb_draw_char raw fb c x y color p =
     (let headersize = 32;
          charsiz = font_word raw 20;
          glyph_index0 = (if c < 128 then ucast c else 63 :: u32);
          glyph_index = (if glyph_index0 \<ge> 512 then 63 else glyph_index0);
          glyph = headersize + ucast (glyph_index * charsiz)
      in for_up 0 16 (\<lambda>row q.
           let byte = raw (glyph + ucast row)
           in for_up 0 8 (\<lambda>col r.
                if (ucast byte :: u32) AND drop_bit (unat col) 0x80 \<noteq> 0
                then fb_draw_pixel fb (x + col) (y + row) color r else r) q) p)"

fun draw_string_loop :: "font \<Rightarrow> framebuffer \<Rightarrow> u8 list \<Rightarrow> u32 \<Rightarrow> u32 \<Rightarrow> u32 \<Rightarrow> u32 \<Rightarrow> pixels \<Rightarrow> pixels" where
  "draw_string_loop raw fb [] orig_x x y color p = p"
| "draw_string_loop raw fb (c # cs) orig_x x y color p =
     (if c = 10 then draw_string_loop raw fb cs orig_x orig_x (y + 16) color p
      else draw_string_loop raw fb cs orig_x (x + 8) y color (fb_draw_char raw fb c x y color p))"

definition fb_draw_string :: "font \<Rightarrow> framebuffer \<Rightarrow> u8 list \<Rightarrow> u32 \<Rightarrow> u32 \<Rightarrow> u32 \<Rightarrow> pixels \<Rightarrow> pixels" where
  "fb_draw_string raw fb str x y color p =
     (if psf_validate raw = 0 then p else draw_string_loop raw fb str x x y color p)"

definition banner_blank :: string where
  "banner_blank = replicate 83 CHR '' ''"

definition banner_lines :: "string list" where
  "banner_lines =
    [banner_blank, banner_blank,
     ''DDDDDDDDDDDDD      EEEEEEEEEEEEEEEEEEEEEEEEEEEEEEEEEEEEEEEEEEEERRRRRRRRRRRRRRRRR   '',
     ''D::::::::::::DDD   E::::::::::::::::::::EE::::::::::::::::::::ER::::::::::::::::R  '',
     ''D:::::::::::::::DD E::::::::::::::::::::EE::::::::::::::::::::ER::::::RRRRRR:::::R '',
     ''DDD:::::DDDDD:::::DEE::::::EEEEEEEEE::::EEE::::::EEEEEEEEE::::ERR:::::R     R:::::R'',
     ''  D:::::D    D:::::D E:::::E       EEEEEE  E:::::E       EEEEEE  R::::R     R:::::R'',
     ''  D:::::D     D:::::DE:::::E               E:::::E               R::::R     R:::::R'',
     ''  D:::::D     D:::::DE::::::EEEEEEEEEE     E::::::EEEEEEEEEE     R::::RRRRRR:::::R '',
     ''  D:::::D     D:::::DE:::::::::::::::E     E:::::::::::::::E     R:::::::::::::RR  '',
     ''  D:::::D     D:::::DE:::::::::::::::E     E:::::::::::::::E     R::::RRRRRR:::::R '',
     ''  D:::::D     D:::::DE::::::EEEEEEEEEE     E::::::EEEEEEEEEE     R::::R     R:::::R'',
     ''  D:::::D     D:::::DE:::::E               E:::::E               R::::R     R:::::R'',
     ''  D:::::D    D:::::D E:::::E       EEEEEE  E:::::E       EEEEEE  R::::R     R:::::R'',
     ''DDD:::::DDDDD:::::DEE::::::EEEEEEEE:::::EEE::::::EEEEEEEE:::::ERR:::::R     R:::::R'',
     ''D:::::::::::::::DD E::::::::::::::::::::EE::::::::::::::::::::ER::::::R     R:::::R'',
     ''D::::::::::::DDD   E::::::::::::::::::::EE::::::::::::::::::::ER::::::R     R:::::R'',
     ''DDDDDDDDDDDDD      EEEEEEEEEEEEEEEEEEEEEEEEEEEEEEEEEEEEEEEEEEEERRRRRRRR     RRRRRRR'']
    @ replicate 7 banner_blank"

definition draw_deer_banner :: "font \<Rightarrow> framebuffer \<Rightarrow> u32 \<Rightarrow> u32 \<Rightarrow> u32 \<Rightarrow> pixels \<Rightarrow> pixels" where
  "draw_deer_banner raw fb x y color p =
     snd (fold (\<lambda>line (current_y, q).
       (current_y + 16, fb_draw_string raw fb (map of_char line) x current_y color q)) banner_lines (y, p))"

section \<open>Every write is clipped to the screen\<close>

definition on_screen :: "framebuffer \<Rightarrow> u64 \<Rightarrow> bool" where
  "on_screen fb i \<longleftrightarrow> (\<exists>x y. ucast x < fb_width fb \<and> ucast y < fb_height fb \<and> i = fb_index fb x y)"

definition only_screen :: "framebuffer \<Rightarrow> pixels \<Rightarrow> pixels \<Rightarrow> bool" where
  "only_screen fb p q \<longleftrightarrow> (\<forall>i. \<not> on_screen fb i \<longrightarrow> q i = p i)"

lemma only_screen_refl [simp]: "only_screen fb p p"
  by (simp add: only_screen_def)

lemma only_screen_trans: "only_screen fb p q \<Longrightarrow> only_screen fb q r \<Longrightarrow> only_screen fb p r"
  by (simp add: only_screen_def)

lemma only_screen_pixel [simp]: "only_screen fb p (fb_draw_pixel fb x y color p)"
  by (force simp: only_screen_def fb_draw_pixel_def on_screen_def not_le)

lemma only_screen_loop:
  assumes "\<And>k q. only_screen fb q (f k q)"
  shows "only_screen fb p (for_up i n f p)"
  using assms
proof (induction i n f p rule: for_up.induct)
  case (1 i n f p)
  then show ?case
    by (cases "i < n") (auto simp: for_up_step intro: only_screen_trans)
qed

lemma only_screen_fill_rect [simp]: "only_screen fb p (fb_fill_rect fb x y w h color p)"
  unfolding fb_fill_rect_def by (intro only_screen_loop) simp

lemma only_screen_char [simp]: "only_screen fb p (fb_draw_char raw fb c x y color p)"
  unfolding fb_draw_char_def Let_def by (intro only_screen_loop) simp

lemma only_screen_string [simp]: "only_screen fb p (fb_draw_string raw fb str x y color p)"
proof -
  have "only_screen fb p (draw_string_loop raw fb str ox x y color p)" for ox
    by (induction raw fb str ox x y color p rule: draw_string_loop.induct)
      (auto intro: only_screen_trans [OF only_screen_char])
  then show ?thesis by (simp add: fb_draw_string_def)
qed

lemma only_screen_banner: "only_screen fb p (draw_deer_banner raw fb x y color p)"
proof -
  have "only_screen fb q (snd (fold (\<lambda>line (current_y, q).
       (current_y + 16, fb_draw_string raw fb (map of_char line) x current_y color q)) ls (y, q)))" for ls y q
    by (induction ls arbitrary: y q) (auto intro: only_screen_trans [OF only_screen_string])
  then show ?thesis by (simp add: draw_deer_banner_def)
qed

section \<open>What filling does, pixel by pixel\<close>

text \<open>
  A framebuffer whose rows do not overlap and whose cells the 32-bit index can
  reach.
\<close>

definition fb_ok :: "framebuffer \<Rightarrow> bool" where
  "fb_ok fb \<longleftrightarrow> unat (fb_width fb) \<le> unat (pitch32 fb)
     \<and> unat (pitch32 fb) * unat (fb_height fb) < 2 ^ 32
     \<and> unat (fb_width fb) < 2 ^ 32 \<and> unat (fb_height fb) < 2 ^ 32"

definition on_fb :: "framebuffer \<Rightarrow> u32 \<Rightarrow> u32 \<Rightarrow> bool" where
  "on_fb fb x y \<longleftrightarrow> unat x < unat (fb_width fb) \<and> unat y < unat (fb_height fb)"

lemma on_fb_ucast: "on_fb fb x y \<longleftrightarrow> ucast x < fb_width fb \<and> ucast y < fb_height fb"
  by (simp add: on_fb_def word_less_nat_alt unat_ucast_up)

lemma draw_pixel_on: "fb_draw_pixel fb x y color p = (if on_fb fb x y then p(fb_index fb x y := color) else p)"
  by (auto simp: fb_draw_pixel_def on_fb_ucast not_less)

lemma fb_index_nat:
  assumes ok: "fb_ok fb" and on: "on_fb fb x y"
  shows "unat (fb_index fb x y) = unat y * unat (pitch32 fb) + unat x"
proof -
  have "(unat y + 1) * unat (pitch32 fb) \<le> unat (fb_height fb) * unat (pitch32 fb)"
    using on by (intro mult_le_mono1) (simp add: on_fb_def)
  also have "\<dots> < 2 ^ 32" using ok by (simp add: fb_ok_def mult.commute)
  finally have room: "unat y * unat (pitch32 fb) + unat (pitch32 fb) < 2 ^ 32" by simp
  moreover have x: "unat x < unat (pitch32 fb)" using ok on by (simp add: fb_ok_def on_fb_def)
  ultimately have "unat (y * pitch32 fb) = unat y * unat (pitch32 fb)"
    by (simp add: unat_word_ariths)
  moreover from this have "unat (y * pitch32 fb + x) = unat y * unat (pitch32 fb) + unat x"
    using room x unat_add_no_wrap [of "y * pitch32 fb" x] by simp
  ultimately show ?thesis by (simp add: fb_index_def unat_ucast_up)
qed

lemma fb_index_inj:
  assumes ok: "fb_ok fb" and on: "on_fb fb x y" "on_fb fb x' y'"
  shows "fb_index fb x y = fb_index fb x' y' \<longleftrightarrow> x = x' \<and> y = y'"
proof
  let ?p = "unat (pitch32 fb)"
  assume "fb_index fb x y = fb_index fb x' y'"
  then have eq: "unat y * ?p + unat x = unat y' * ?p + unat x'"
    using fb_index_nat [OF ok on(1)] fb_index_nat [OF ok on(2)] by simp
  have lt: "unat x < ?p" "unat x' < ?p" using ok on by (simp_all add: fb_ok_def on_fb_def)
  have "unat y = (unat y * ?p + unat x) div ?p" using lt by simp
  also have "\<dots> = unat y'" unfolding eq using lt by simp
  finally have "unat y = unat y'" .
  with eq show "x = x' \<and> y = y'" by (simp add: word_unat_eq_iff)
qed simp

text \<open>The pixels of a screen as a function of column and row.\<close>

definition screen_is :: "framebuffer \<Rightarrow> (u32 \<Rightarrow> u32 \<Rightarrow> u32) \<Rightarrow> pixels \<Rightarrow> bool" where
  "screen_is fb f p \<longleftrightarrow> (\<forall>a b. on_fb fb a b \<longrightarrow> p (fb_index fb a b) = f a b)"

lemma screen_isD: "screen_is fb f p \<Longrightarrow> on_fb fb a b \<Longrightarrow> p (fb_index fb a b) = f a b"
  by (simp add: screen_is_def)

lemma screen_is_self: "screen_is fb (\<lambda>a b. p (fb_index fb a b)) p"
  by (simp add: screen_is_def)

lemma screen_is_set:
  assumes ok: "fb_ok fb" and s: "screen_is fb f p" and on: "on_fb fb x y"
  shows "screen_is fb (\<lambda>a b. if a = x \<and> b = y then c else f a b) (p(fb_index fb x y := c))"
  unfolding screen_is_def using s fb_index_inj [OF ok _ on] by (auto simp: screen_is_def)

lemma screen_is_pixel:
  assumes ok: "fb_ok fb" and s: "screen_is fb f p"
  shows "screen_is fb (\<lambda>a b. if a = x \<and> b = y then c else f a b) (fb_draw_pixel fb x y c p)"
proof (cases "on_fb fb x y")
  case True
  then show ?thesis using screen_is_set [OF ok s True] by (simp add: draw_pixel_on)
next
  case False
  then show ?thesis using s by (auto simp: draw_pixel_on screen_is_def)
qed

lemma screen_is_cong: "screen_is fb f p \<Longrightarrow> (\<And>a b. on_fb fb a b \<Longrightarrow> f a b = g a b) \<Longrightarrow> screen_is fb g p"
  by (simp add: screen_is_def)

lemma u32_of_nat: "k < unat (n :: u32) \<Longrightarrow> unat (of_nat k :: u32) = k"
proof -
  assume "k < unat n"
  moreover have "unat n < 2 ^ LENGTH(32)" by (rule unsigned_less)
  ultimately show ?thesis by (simp add: unat_of_nat)
qed

text \<open>A loop over the pixels of a row, and over rows.\<close>

lemma screen_row_loop:
  assumes s: "screen_is fb f p" and le: "x \<le> x'"
    and step: "\<And>k g q. screen_is fb g q \<Longrightarrow> x \<le> k \<Longrightarrow> k < x' \<Longrightarrow>
      (\<And>a b. on_fb fb a b \<Longrightarrow> k \<le> a \<or> b \<noteq> y \<Longrightarrow> g a b = f a b) \<Longrightarrow>
      screen_is fb (\<lambda>a b. if a = k \<and> b = y then h a else g a b) (body k q)"
  shows "screen_is fb (\<lambda>a b. if b = y \<and> x \<le> a \<and> a < x' then h a else f a b) (for_up x x' body p)"
proof -
  define I where "I = (\<lambda>k q. screen_is fb (\<lambda>a b. if b = y \<and> x \<le> a \<and> unat a < k then h a else f a b) q)"
  have "I (unat x') (for_up x x' body p)"
  proof (rule for_up_rule [where I = I])
    show "I (unat x) p"
      unfolding I_def by (rule screen_is_cong [OF s]) (auto simp: word_le_nat_alt)
  next
    fix k q assume k: "unat x \<le> k" "k < unat x'" and q: "I k q"
    have u: "unat (of_nat k :: u32) = k" by (rule u32_of_nat [OF k(2)])
    then have "x \<le> of_nat k" "(of_nat k :: u32) < x'"
      using k by (simp_all add: word_le_nat_alt word_less_nat_alt)
    note st = step [OF q [unfolded I_def] this]
    have "screen_is fb (\<lambda>a b. if a = of_nat k \<and> b = y then h a
        else if b = y \<and> x \<le> a \<and> unat a < k then h a else f a b) (body (of_nat k) q)"
      by (rule st) (auto simp: word_le_nat_alt u)
    then show "I (Suc k) (body (of_nat k) q)"
      unfolding I_def
      by (rule screen_is_cong) (use k u in \<open>auto simp: word_unat_eq_iff word_le_nat_alt less_Suc_eq\<close>)
  qed (use le in simp)
  then show ?thesis by (simp add: I_def word_less_nat_alt)
qed

lemma fill_row:
  assumes ok: "fb_ok fb" and s: "screen_is fb f p" and le: "x \<le> x'"
  shows "screen_is fb (\<lambda>a b. if b = y \<and> x \<le> a \<and> a < x' then c else f a b)
    (for_up x x' (\<lambda>px. fb_draw_pixel fb px y c) p)"
  by (rule screen_row_loop [OF s le]) (rule screen_is_pixel [OF ok])

lemma fill_rect_screen:
  assumes ok: "fb_ok fb" and s: "screen_is fb f p"
    and w: "unat x + unat w < 2 ^ 32" and h: "unat y + unat h < 2 ^ 32"
  shows "screen_is fb (\<lambda>a b. if y \<le> b \<and> b < y + h \<and> x \<le> a \<and> a < x + w then c else f a b)
    (fb_fill_rect fb x y w h c p)"
proof -
  have le: "x \<le> x + w" "y \<le> y + h"
    using w h by (simp_all add: word_le_nat_alt unat_add_no_wrap)
  define I where "I = (\<lambda>k q. screen_is fb (\<lambda>a b. if y \<le> b \<and> unat b < k \<and> x \<le> a \<and> a < x + w then c else f a b) q)"
  have "I (unat (y + h)) (for_up y (y + h) (\<lambda>py. for_up x (x + w) (\<lambda>px. fb_draw_pixel fb px py c)) p)"
  proof (rule for_up_rule [where I = I])
    show "I (unat y) p"
      unfolding I_def by (rule screen_is_cong [OF s]) (auto simp: word_le_nat_alt)
  next
    fix k q assume k: "unat y \<le> k" "k < unat (y + h)" and q: "I k q"
    have u: "unat (of_nat k :: u32) = k" by (rule u32_of_nat [OF k(2)])
    from fill_row [OF ok q [unfolded I_def] le(1), of "of_nat k" c]
    show "I (Suc k) (for_up x (x + w) (\<lambda>px. fb_draw_pixel fb px (of_nat k) c) q)"
      unfolding I_def
      by (rule screen_is_cong) (use k u in \<open>auto simp: word_unat_eq_iff word_le_nat_alt less_Suc_eq\<close>)
  qed (use le in simp)
  then show ?thesis by (simp add: I_def fb_fill_rect_def word_less_nat_alt)
qed

lemma fb_clear_cells:
  "fb_clear fb c p i = (if i < fb_width fb * fb_height fb then c else p i)"
proof -
  define I where "I = (\<lambda>k q. q = (\<lambda>i. if unat i < k then c else p i))"
  have "I (unat (fb_width fb * fb_height fb)) (for_up 0 (fb_width fb * fb_height fb) (\<lambda>i q. q(i := c)) p)"
  proof (rule for_up_rule [where I = I])
    show "I (unat (0 :: u64)) p" by (simp add: I_def)
  next
    fix k q assume "k < unat (fb_width fb * fb_height fb)" and q: "I k q"
    then have k: "k < 2 ^ 64" using unat_u64_bound [of "fb_width fb * fb_height fb"] by linarith
    show "I (Suc k) (q(of_nat k := c))"
      using q upd_prefix [OF k, of 0 "\<lambda>_. c" p] by (simp add: I_def)
  qed simp
  then show ?thesis by (simp add: I_def fb_clear_def word_less_nat_alt)
qed

end
