(* ===== verification/Printf.thy ===== *)
theory Printf
  imports Framebuffer
begin

text \<open>
  \<open>kernel/src/libc/stdio/printf.c\<close>: formatted output to the serial line and, when
  there is one, to the framebuffer, with the cursor and the scrolling of the screen.
  The record \<open>screen\<close> has the file's static variables, the boot loader's
  framebuffer response, the pixel memory and the font's bytes.

  A call of \<open>printf\<close> reads its arguments with \<open>va_arg\<close>; the list of arguments
  is a list of 64-bit values and strings, and reading one that is not there, or of the
  other kind, has no defined behaviour: \<open>None\<close>. So has a format that ends in an
  unfinished conversion, after which the code reads past the terminating zero.
\<close>

section \<open>State\<close>

record screen = console +
  current_fb :: "framebuffer option"
  fb_pixels :: pixels
  font_data :: font
  cursor_x :: u32
  cursor_y :: u32
  text_color :: u32
  bg_color :: u32
  printf_initialized :: bool
  fb_response :: "framebuffer list option"

definition printf_auto_init :: "'a screen_scheme \<Rightarrow> 'a screen_scheme" where
  "printf_auto_init s =
     (if printf_initialized s then s
      else (case fb_response s of
              Some (fb # fbs) \<Rightarrow>
                klog ''[PRINTF] Auto-initialized with framebuffer\<newline>'' (s\<lparr>current_fb := Some fb\<rparr>)
            | _ \<Rightarrow> klog ''[PRINTF] WARNING: No framebuffer available, using serial only\<newline>'' s)
           \<lparr>printf_initialized := True\<rparr>)"

definition printf_set_framebuffer :: "u64 \<Rightarrow> framebuffer option \<Rightarrow> 'a screen_scheme \<Rightarrow> 'a screen_scheme" where
  "printf_set_framebuffer ptr fb s =
     klog_num ''[PRINTF] Framebuffer set manually at 0x'' 16 ptr ''\<newline>''
       (s\<lparr>current_fb := fb, printf_initialized := True\<rparr>)"

definition printf_set_cursor :: "u32 \<Rightarrow> u32 \<Rightarrow> 'a screen_scheme \<Rightarrow> 'a screen_scheme" where
  "printf_set_cursor x y s = s\<lparr>cursor_x := x, cursor_y := y\<rparr>"

definition printf_set_color :: "u32 \<Rightarrow> 'a screen_scheme \<Rightarrow> 'a screen_scheme" where
  "printf_set_color color s = s\<lparr>text_color := color\<rparr>"

definition printf_set_bg_color :: "u32 \<Rightarrow> 'a screen_scheme \<Rightarrow> 'a screen_scheme" where
  "printf_set_bg_color color s = s\<lparr>bg_color := color\<rparr>"

definition printf_get_cursor :: "'a screen_scheme \<Rightarrow> u32 \<times> u32" where
  "printf_get_cursor s = (cursor_x s, cursor_y s)"

definition printf_init_with_framebuffer :: "framebuffer option \<Rightarrow> 'a screen_scheme \<Rightarrow> 'a screen_scheme" where
  "printf_init_with_framebuffer fb s =
     klog ''[PRINTF] Initialized with framebuffer\<newline>'' (s\<lparr>current_fb := fb, printf_initialized := True\<rparr>)"

section \<open>Characters\<close>

text \<open>Move every row but the first sixteen up by sixteen rows, then blank the last sixteen.\<close>

definition scroll_pixels :: "framebuffer \<Rightarrow> u32 \<Rightarrow> pixels \<Rightarrow> pixels" where
  "scroll_pixels fb bg p =
     (let scroll_height = 16;
          screen_height = ucast (fb_height fb);
          screen_width = ucast (fb_width fb);
          p1 = for_up scroll_height screen_height (\<lambda>y. for_up 0 screen_width (\<lambda>x q.
                 q(fb_index fb x (y - scroll_height) := q (fb_index fb x y)))) p
      in for_up (screen_height - scroll_height) screen_height (\<lambda>y. for_up 0 screen_width (\<lambda>x.
           fb_draw_pixel fb x y bg)) p1)"

definition scroll_screen :: "'a screen_scheme \<Rightarrow> 'a screen_scheme" where
  "scroll_screen s =
     (case current_fb s of
        None \<Rightarrow> s
      | Some fb \<Rightarrow> s\<lparr>fb_pixels := scroll_pixels fb (bg_color s) (fb_pixels s),
                     cursor_y := cursor_y s - 16\<rparr>)"

definition printf_clear :: "'a screen_scheme \<Rightarrow> 'a screen_scheme" where
  "printf_clear s =
     (let s1 = printf_auto_init s
      in case current_fb s1 of
           None \<Rightarrow> s1
         | Some fb \<Rightarrow> s1\<lparr>fb_pixels := fb_clear fb (bg_color s1) (fb_pixels s1),
                          cursor_x := 5, cursor_y := 5\<rparr>)"

abbreviation NL :: char where "NL \<equiv> CHR 0x0A"
abbreviation CR :: char where "CR \<equiv> CHR 0x0D"
abbreviation TAB :: char where "TAB \<equiv> CHR 0x09"
abbreviation BS :: char where "BS \<equiv> CHR 0x08"

definition putchar_fb :: "framebuffer \<Rightarrow> char \<Rightarrow> 'a screen_scheme \<Rightarrow> 'a screen_scheme" where
  "putchar_fb fb c s =
     (if c = NL then s\<lparr>cursor_x := 5, cursor_y := cursor_y s + 16\<rparr>
      else if c = CR then s\<lparr>cursor_x := 5\<rparr>
      else if c = TAB then s\<lparr>cursor_x := (cursor_x s + 32) AND NOT 31\<rparr>
      else if c = BS then
        (if cursor_x s > 5
         then let x = cursor_x s - 8
              in s\<lparr>cursor_x := x,
                   fb_pixels := fb_fill_rect fb x (cursor_y s) 8 16 (bg_color s) (fb_pixels s)\<rparr>
         else s)
      else
        let s1 = (if ucast (cursor_x s + 8) \<ge> fb_width fb
                  then s\<lparr>cursor_x := 5, cursor_y := cursor_y s + 16\<rparr> else s);
            s2 = (if ucast (cursor_y s1 + 16) \<ge> fb_height fb then scroll_screen s1 else s1)
        in s2\<lparr>fb_pixels := fb_draw_char (font_data s2) fb (of_char c) (cursor_x s2) (cursor_y s2)
                             (text_color s2) (fb_pixels s2),
              cursor_x := cursor_x s2 + 8\<rparr>)"

definition putchar :: "char \<Rightarrow> 'a screen_scheme \<Rightarrow> 'a screen_scheme" where
  "putchar c s =
     (let s1 = printf_auto_init s;
          s2 = (if c = NL then klog [CR] s1 else s1);
          s3 = klog [c] s2
      in case current_fb s3 of None \<Rightarrow> s3 | Some fb \<Rightarrow> putchar_fb fb c s3)"

fun putstring :: "string \<Rightarrow> 'a screen_scheme \<Rightarrow> 'a screen_scheme" where
  "putstring [] s = s"
| "putstring (c # cs) s = putstring cs (putchar c s)"

definition putnumber :: "u64 \<Rightarrow> nat \<Rightarrow> bool \<Rightarrow> 'a screen_scheme \<Rightarrow> 'a screen_scheme" where
  "putnumber num base is_signed s =
     (if is_signed \<and> sint num < 0
      then putstring (num_text base (- num)) (putchar CHR ''-'' s)
      else putstring (num_text base num) s)"

section \<open>Formats\<close>

datatype vararg = IntArg u64 | StrArg "string option"

fun pop_int :: "vararg list \<Rightarrow> (u64 \<times> vararg list) option" where
  "pop_int (IntArg v # as) = Some (v, as)"
| "pop_int _ = None"

fun pop_str :: "vararg list \<Rightarrow> (string option \<times> vararg list) option" where
  "pop_str (StrArg v # as) = Some (v, as)"
| "pop_str _ = None"

text \<open>The flag loop: \<open>l\<close> and \<open>#\<close>, any number of times, in any order.\<close>

fun skip_flags :: "string \<Rightarrow> bool \<Rightarrow> bool \<Rightarrow> string \<times> bool \<times> bool" where
  "skip_flags (c # cs) is_long is_alt =
     (if c = CHR ''l'' then skip_flags cs True is_alt
      else if c = CHR ''#'' then skip_flags cs is_long True
      else (c # cs, is_long, is_alt))"
| "skip_flags [] is_long is_alt = ([], is_long, is_alt)"

definition narrow :: "bool \<Rightarrow> u64 \<Rightarrow> u64" where
  "narrow is_long v = (if is_long then v else ucast (ucast v :: u32))"

text \<open>The \<open>switch\<close> on the conversion character: characters counted, arguments left, state.\<close>

definition printf_conv ::
  "char \<Rightarrow> bool \<Rightarrow> bool \<Rightarrow> vararg list \<Rightarrow> 'a screen_scheme \<Rightarrow> (int \<times> vararg list \<times> 'a screen_scheme) option" where
  "printf_conv c is_long is_alt args s =
     (if c = CHR ''d'' \<or> c = CHR ''i'' then
        (case pop_int args of None \<Rightarrow> None
         | Some (v, as) \<Rightarrow> Some (1, as, putnumber (narrow is_long v) 10 True s))
      else if c = CHR ''u'' then
        (case pop_int args of None \<Rightarrow> None
         | Some (v, as) \<Rightarrow> Some (1, as, putnumber (narrow is_long v) 10 False s))
      else if c = CHR ''x'' then
        (case pop_int args of None \<Rightarrow> None
         | Some (v, as) \<Rightarrow> Some (1, as, putnumber (narrow is_long v) 16 False
                               (if is_alt then putstring ''0x'' s else s)))
      else if c = CHR ''o'' then
        (case pop_int args of None \<Rightarrow> None
         | Some (v, as) \<Rightarrow> Some (1, as, putnumber (narrow is_long v) 8 False
                               (if is_alt then putstring ''0'' s else s)))
      else if c = CHR ''p'' then
        (case pop_int args of None \<Rightarrow> None
         | Some (v, as) \<Rightarrow> Some (1, as, putnumber v 16 False (putstring ''0x'' s)))
      else if c = CHR ''c'' then
        (case pop_int args of None \<Rightarrow> None
         | Some (v, as) \<Rightarrow> Some (1, as, putchar (char_of (unat (ucast v :: u8))) s))
      else if c = CHR ''s'' then
        (case pop_str args of None \<Rightarrow> None
         | Some (None, as) \<Rightarrow> Some (1, as, putstring ''(null)'' s)
         | Some (Some str, as) \<Rightarrow> Some (1, as, putstring str s))
      else if c = CHR ''%'' then Some (1, args, putchar CHR ''%'' s)
      else Some (2, args, putchar c (putchar CHR ''%'' s)))"

lemma skip_flags_length: "skip_flags cs l a = (ds, l', a') \<Longrightarrow> length ds \<le> length cs"
  by (induction cs l a rule: skip_flags.induct) (fastforce split: if_splits)+

function printf_loop ::
  "string \<Rightarrow> vararg list \<Rightarrow> int \<Rightarrow> 'a screen_scheme \<Rightarrow> (int \<times> 'a screen_scheme) option" where
  "printf_loop [] args chars_written s = Some (chars_written, s)"
| "printf_loop (c # cs) args chars_written s =
     (if c = CHR ''%'' then
        (case skip_flags cs False False of
           ([], _, _) \<Rightarrow> None
         | (d # ds, is_long, is_alt) \<Rightarrow>
             (case printf_conv d is_long is_alt args s of
                None \<Rightarrow> None
              | Some (k, args', s') \<Rightarrow> printf_loop ds args' (chars_written + k) s'))
      else printf_loop cs args (chars_written + 1) (putchar c s))"
  by pat_completeness auto
termination
  by (relation "measure (\<lambda>(cs, args, n, s). length cs)")
    (auto dest!: skip_flags_length sym [of "(_ # _, _, _)"])

definition printf :: "string \<Rightarrow> vararg list \<Rightarrow> 'a screen_scheme \<Rightarrow> (int \<times> 'a screen_scheme) option" where
  "printf format args s = printf_loop format args 0 (printf_auto_init s)"

definition puts :: "string \<Rightarrow> 'a screen_scheme \<Rightarrow> (int \<times> 'a screen_scheme) option" where
  "puts str s = printf ''%s\<newline>'' [StrArg (Some str)] s"

definition printf_uint64 :: "u64 \<Rightarrow> 'a screen_scheme \<Rightarrow> 'a screen_scheme option" where
  "printf_uint64 v s = map_option snd (printf ''%s'' [StrArg (Some (num_text 10 v))] s)"

end
