(* ===== verification/Pmm.thy ===== *)
theory Pmm
  imports Printf
begin

text \<open>
  \<open>kernel/src/memory/pmm.c\<close>: the physical memory manager, a bitmap with one bit
  per page frame. The record \<open>pmm\<close> has the file's static variables;
  \<open>bitmap_bytes\<close> is the memory the pointer \<open>bitmap\<close> points to, indexed from
  that pointer. The Limine memory map is the list of its entries, a NULL response
  the value \<open>None\<close>; \<open>me_usable\<close> is the outcome of the code's comparison
  \<open>entry->type == LIMINE_MEMMAP_USABLE\<close>.
\<close>

section \<open>State\<close>

record memmap_entry =
  me_base :: u64
  me_length :: u64
  me_usable :: bool

record pmm = screen +
  current_memmap :: "memmap_entry list option"
  current_hhdm :: "u64 option"
  bitmap :: u64
  bitmap_bytes :: bytes
  bitmap_size :: u64
  total_pages :: u64
  used_pages :: u64
  total_memory :: u64

definition memmap_entries :: "'a pmm_scheme \<Rightarrow> memmap_entry list" where
  "memmap_entries s = (case current_memmap s of None \<Rightarrow> [] | Some es \<Rightarrow> es)"

section \<open>The bitmap\<close>

definition bitmap_set :: "u64 \<Rightarrow> 'a pmm_scheme \<Rightarrow> 'a pmm_scheme" where
  "bitmap_set b s =
     (let byte = b div 8; offset = unat (b mod 8)
      in s\<lparr>bitmap_bytes := (bitmap_bytes s)(byte := bitmap_bytes s byte OR push_bit offset 1),
           used_pages := used_pages s + 1\<rparr>)"

definition bitmap_clear :: "u64 \<Rightarrow> 'a pmm_scheme \<Rightarrow> 'a pmm_scheme" where
  "bitmap_clear b s =
     (let byte = b div 8; offset = unat (b mod 8)
      in s\<lparr>bitmap_bytes := (bitmap_bytes s)(byte := bitmap_bytes s byte AND NOT (push_bit offset 1)),
           used_pages := used_pages s - 1\<rparr>)"

definition bitmap_test :: "u64 \<Rightarrow> 'a pmm_scheme \<Rightarrow> bool" where
  "bitmap_test b s =
     (let byte = b div 8; offset = unat (b mod 8)
      in bitmap_bytes s byte AND push_bit offset 1 \<noteq> 0)"

section \<open>Allocation\<close>

text \<open>The inner loop of \<open>find_free_pages\<close>, with its \<open>break\<close>.\<close>

fun usable_page :: "u64 \<Rightarrow> memmap_entry list \<Rightarrow> bool" where
  "usable_page i [] = False"
| "usable_page i (entry # es) =
     (if me_usable entry \<and> i * PAGE_SIZE \<ge> me_base entry
         \<and> i * PAGE_SIZE < me_base entry + me_length entry
      then True else usable_page i es)"

function find_free_loop :: "u64 \<Rightarrow> u64 \<Rightarrow> u64 \<Rightarrow> u64 \<Rightarrow> 'a pmm_scheme \<Rightarrow> u64" where
  "find_free_loop i consecutive start_page count s =
     (if i < total_pages s then
        if \<not> bitmap_test i s then
          if usable_page i (memmap_entries s) then
            let start' = (if consecutive = 0 then i else start_page)
            in if consecutive + 1 = count then start'
               else find_free_loop (i + 1) (consecutive + 1) start' count s
          else find_free_loop (i + 1) 0 start_page count s
        else find_free_loop (i + 1) 0 start_page count s
      else - 1)"
  by pat_completeness auto
termination
  by (relation "measure (\<lambda>(i, c, st, n, s). unat (total_pages s) - unat i)")
    (auto simp: unat_Suc_of_less word_less_nat_alt)

declare find_free_loop.simps [simp del]

definition find_free_pages :: "u64 \<Rightarrow> 'a pmm_scheme \<Rightarrow> u64" where
  "find_free_pages count s = find_free_loop 1 0 0 count s"

definition pmm_alloc_pages :: "u64 \<Rightarrow> 'a pmm_scheme \<Rightarrow> u64 \<times> 'a pmm_scheme" where
  "pmm_alloc_pages count s =
     (if bitmap s = 0 then (0, s)
      else let start = find_free_pages count s
           in if start = - 1 then (0, klog ''[PMM] Out of memory!\<newline>'' s)
              else (start * PAGE_SIZE, for_up 0 count (\<lambda>i. bitmap_set (start + i)) s))"

definition pmm_alloc_page :: "'a pmm_scheme \<Rightarrow> u64 \<times> 'a pmm_scheme" where
  "pmm_alloc_page s = pmm_alloc_pages 1 s"

definition pmm_free_pages :: "u64 \<Rightarrow> u64 \<Rightarrow> 'a pmm_scheme \<Rightarrow> 'a pmm_scheme" where
  "pmm_free_pages page count s =
     (if bitmap s = 0 then s
      else let start = page div PAGE_SIZE
           in for_up 0 count
                (\<lambda>i t. if start + i < total_pages t then bitmap_clear (start + i) t else t) s)"

definition pmm_free_page :: "u64 \<Rightarrow> 'a pmm_scheme \<Rightarrow> 'a pmm_scheme" where
  "pmm_free_page page s = pmm_free_pages page 1 s"

definition pmm_get_total_memory :: "'a pmm_scheme \<Rightarrow> u64" where
  "pmm_get_total_memory s = total_pages s * PAGE_SIZE"

definition pmm_get_free_memory :: "'a pmm_scheme \<Rightarrow> u64" where
  "pmm_get_free_memory s = (total_pages s - used_pages s) * PAGE_SIZE"

definition pmm_get_used_memory :: "'a pmm_scheme \<Rightarrow> u64" where
  "pmm_get_used_memory s = used_pages s * PAGE_SIZE"

section \<open>Initialisation\<close>

text \<open>The first scan: total memory, highest usable address, largest usable region.\<close>

fun scan_memmap :: "memmap_entry list \<Rightarrow> u64 \<times> u64 \<times> u64 \<times> u64 \<Rightarrow> u64 \<times> u64 \<times> u64 \<times> u64" where
  "scan_memmap [] acc = acc"
| "scan_memmap (entry # es) (tot, highest, lbase, lsize) =
     scan_memmap es
       (tot + me_length entry,
        (if me_usable entry \<and> me_base entry + me_length entry > highest
         then me_base entry + me_length entry else highest),
        (if me_usable entry \<and> me_length entry > lsize then me_base entry else lbase),
        (if me_usable entry \<and> me_length entry > lsize then me_length entry else lsize))"

text \<open>\<open>for (page = start; page < end; page++) if (page < total_pages) bitmap_set(page);\<close>\<close>

definition mark_range :: "u64 \<Rightarrow> u64 \<Rightarrow> 'a pmm_scheme \<Rightarrow> 'a pmm_scheme" where
  "mark_range start stop s =
     for_up start stop (\<lambda>page t. if page < total_pages t then bitmap_set page t else t) s"

fun mark_reserved :: "memmap_entry list \<Rightarrow> 'a pmm_scheme \<Rightarrow> 'a pmm_scheme" where
  "mark_reserved [] s = s"
| "mark_reserved (entry # es) s =
     mark_reserved es
       (if \<not> me_usable entry
        then mark_range (me_base entry div PAGE_SIZE)
               ((me_base entry + me_length entry + PAGE_SIZE - 1) div PAGE_SIZE) s
        else s)"

definition pmm_init :: "memmap_entry list option \<Rightarrow> u64 option \<Rightarrow> 'a pmm_scheme \<Rightarrow> 'a pmm_scheme" where
  "pmm_init memmap_response hhdm_response s =
     (let s1 = (klog ''[PMM] Initializing...\<newline>'' s)
            \<lparr>current_memmap := memmap_response, current_hhdm := hhdm_response\<rparr>
      in case (memmap_response, hhdm_response) of
           (Some es, Some offset) \<Rightarrow>
             let (tot, highest_addr, largest_base, largest_size)
                   = scan_memmap es (total_memory s1, 0, 0, 0);
                 pages = highest_addr div PAGE_SIZE;
                 size = (pages + 7) div 8;
                 s2 = s1\<lparr>total_memory := tot, total_pages := pages, bitmap_size := size,
                         bitmap := largest_base + offset,
                         bitmap_bytes := snd (memset 0 0 size (bitmap_bytes s1))\<rparr>;
                 s3 = mark_reserved es s2;
                 s4 = mark_range (largest_base div PAGE_SIZE)
                        ((largest_base + size + PAGE_SIZE - 1) div PAGE_SIZE) s3
             in klog_num ''[PMM] Ready: '' 10 (total_pages s4 - used_pages s4) '' free pages\<newline>'' s4
         | _ \<Rightarrow> klog ''[PMM] ERROR: No memory map or HHDM!\<newline>'' s1)"

fun dump_entries :: "memmap_entry list \<Rightarrow> 'a pmm_scheme \<Rightarrow> 'a pmm_scheme" where
  "dump_entries [] s = s"
| "dump_entries (entry # es) s =
     dump_entries es
       (klog_num '' Size: '' 10 (me_length entry div 1024 div 1024) '' MB\<newline>''
         (klog_num ''  Base: 0x'' 16 (me_base entry) '''' s))"

definition pmm_dump_memory_map :: "'a pmm_scheme \<Rightarrow> 'a pmm_scheme" where
  "pmm_dump_memory_map s =
     (case current_memmap s of
        None \<Rightarrow> s
      | Some es \<Rightarrow> dump_entries es (klog ''[PMM] Memory Map:\<newline>'' s))"

section \<open>The bitmap as a set of frames\<close>

definition page_bit :: "'a pmm_scheme \<Rightarrow> nat \<Rightarrow> bool" where
  "page_bit s k \<longleftrightarrow> bit (bitmap_bytes s (of_nat (k div 8))) (k mod 8)"

lemma word_div8_mod8:
  fixes b :: u64
  shows "b div 8 = of_nat (unat b div 8)" "unat (b mod 8) = unat b mod 8"
proof -
  have "unat b div 8 < 2 ^ 64" using unat_u64_bound [of b] by linarith
  then show "b div 8 = of_nat (unat b div 8)"
    by (simp add: word_unat_eq_iff unat_div unat_of_nat_u64)
qed (simp add: unat_mod)

lemma bitmap_test_iff: "bitmap_test b s \<longleftrightarrow> page_bit s (unat b)"
  by (simp add: bitmap_test_def page_bit_def word_div8_mod8 and_exp_eq_0_iff_not_bit)

lemma of_nat_u64_eq_iff:
  "j < 2 ^ 64 \<Longrightarrow> k < 2 ^ 64 \<Longrightarrow> (of_nat j :: u64) = of_nat k \<longleftrightarrow> j = k"
  by (metis unat_of_nat_u64)

lemma div8_less: "k < 2 ^ 64 \<Longrightarrow> k div 8 < (2::nat) ^ 64"
  by simp

lemma same_bit_iff: "(j::nat) div 8 = k div 8 \<and> j mod 8 = k mod 8 \<longleftrightarrow> j = k"
  by (metis div_mult_mod_eq)

lemma page_bit_set:
  "k < 2 ^ 64 \<Longrightarrow> page_bit (bitmap_set b s) k \<longleftrightarrow> k = unat b \<or> page_bit s k"
  using same_bit_iff [of k "unat b"] unat_u64_bound [of b]
  by (auto simp: bitmap_set_def page_bit_def word_div8_mod8 of_nat_u64_eq_iff div8_less
      bit_simps Let_def)

lemma page_bit_clear:
  "k < 2 ^ 64 \<Longrightarrow> page_bit (bitmap_clear b s) k \<longleftrightarrow> k \<noteq> unat b \<and> page_bit s k"
  using same_bit_iff [of k "unat b"] unat_u64_bound [of b]
  by (auto simp: bitmap_clear_def page_bit_def word_div8_mod8 of_nat_u64_eq_iff div8_less
      bit_simps Let_def)

lemma bitmap_set_frame [frame_simps, simp]:
  "current_memmap (bitmap_set b s) = current_memmap s"
  "current_hhdm (bitmap_set b s) = current_hhdm s"
  "bitmap (bitmap_set b s) = bitmap s"
  "bitmap_size (bitmap_set b s) = bitmap_size s"
  "total_pages (bitmap_set b s) = total_pages s"
  "used_pages (bitmap_set b s) = used_pages s + 1"
  "serial_out (bitmap_set b s) = serial_out s"
  "pmm.more (bitmap_set b s) = pmm.more s"
  by (simp_all add: bitmap_set_def Let_def)

lemma bitmap_clear_frame [frame_simps, simp]:
  "current_memmap (bitmap_clear b s) = current_memmap s"
  "current_hhdm (bitmap_clear b s) = current_hhdm s"
  "bitmap (bitmap_clear b s) = bitmap s"
  "bitmap_size (bitmap_clear b s) = bitmap_size s"
  "total_pages (bitmap_clear b s) = total_pages s"
  "used_pages (bitmap_clear b s) = used_pages s - 1"
  "serial_out (bitmap_clear b s) = serial_out s"
  "pmm.more (bitmap_clear b s) = pmm.more s"
  by (simp_all add: bitmap_clear_def Let_def)

lemma klog_pmm [frame_simps, simp]:
  "current_memmap (klog m s) = current_memmap s"
  "current_hhdm (klog m s) = current_hhdm s"
  "bitmap (klog m s) = bitmap s"
  "bitmap_bytes (klog m s) = bitmap_bytes s"
  "bitmap_size (klog m s) = bitmap_size s"
  "total_pages (klog m s) = total_pages s"
  "used_pages (klog m s) = used_pages s"
  "total_memory (klog m s) = total_memory s"
  "pmm.more (klog m s) = pmm.more s"
  by (simp_all add: klog_def)

lemma klog_num_pmm [frame_simps, simp]:
  "current_memmap (klog_num a n v b s) = current_memmap s"
  "current_hhdm (klog_num a n v b s) = current_hhdm s"
  "bitmap (klog_num a n v b s) = bitmap s"
  "bitmap_bytes (klog_num a n v b s) = bitmap_bytes s"
  "bitmap_size (klog_num a n v b s) = bitmap_size s"
  "total_pages (klog_num a n v b s) = total_pages s"
  "used_pages (klog_num a n v b s) = used_pages s"
  "total_memory (klog_num a n v b s) = total_memory s"
  "pmm.more (klog_num a n v b s) = pmm.more s"
  by (simp_all add: klog_num_def)

lemma page_bit_klog [simp]:
  "page_bit (klog m s) k = page_bit s k" "page_bit (klog_num a n v b s) k = page_bit s k"
  by (simp_all add: page_bit_def)

section \<open>The invariant\<close>

text \<open>
  Frames in use, frames an allocation may hand out, and what the manager keeps true:
  the frame count is a page count (so frame numbers times the page size do not
  overflow) and \<open>used_pages\<close> counts the set bits.
\<close>

definition used_frames :: "'a pmm_scheme \<Rightarrow> nat set" where
  "used_frames s = {k. k < unat (total_pages s) \<and> page_bit s k}"

definition allocatable :: "'a pmm_scheme \<Rightarrow> nat \<Rightarrow> bool" where
  "allocatable s k \<longleftrightarrow> 0 < k \<and> k < unat (total_pages s) \<and> \<not> page_bit s k
     \<and> usable_page (of_nat k) (memmap_entries s)"

definition pmm_wf :: "'a pmm_scheme \<Rightarrow> bool" where
  "pmm_wf s \<longleftrightarrow> unat (total_pages s) \<le> 2 ^ 52 \<and> unat (used_pages s) = card (used_frames s)"

lemma finite_used_frames [simp]: "finite (used_frames s)"
  by (simp add: used_frames_def)

text \<open>\<open>n\<close> allocatable frames in a row from \<open>p\<close> on.\<close>

definition free_run :: "'a pmm_scheme \<Rightarrow> nat \<Rightarrow> nat \<Rightarrow> bool" where
  "free_run s p n \<longleftrightarrow> (\<forall>k. p \<le> k \<and> k < p + n \<longrightarrow> allocatable s k)"

section \<open>The search\<close>

lemma free_run_0 [simp]: "free_run s p 0"
  by (auto simp: free_run_def)

lemma free_run_Suc: "free_run s p (Suc n) \<longleftrightarrow> free_run s p n \<and> allocatable s (p + n)"
  by (auto simp: free_run_def less_Suc_eq)

lemma free_runD: "free_run s p n \<Longrightarrow> p \<le> k \<Longrightarrow> k < p + n \<Longrightarrow> allocatable s k"
  by (simp add: free_run_def)

lemma free_run_bound: "free_run s p n \<Longrightarrow> 0 < n \<Longrightarrow> 0 < p \<and> p + n \<le> unat (total_pages s)"
proof -
  assume run: "free_run s p n" and n: "0 < n"
  have "allocatable s p" "allocatable s (p + n - 1)"
    using n by (auto intro: free_runD [OF run])
  then have "0 < p" "p + n - 1 < unat (total_pages s)" by (simp_all add: allocatable_def)
  with n show "0 < p \<and> p + n \<le> unat (total_pages s)" by linarith
qed

text \<open>
  What the loop knows when it looks at frame \<open>i\<close>: the last \<open>c\<close> frames are
  allocatable and the one before them is not, and no long enough run ends at or
  before \<open>i\<close>.
\<close>

definition search_inv :: "'a pmm_scheme \<Rightarrow> nat \<Rightarrow> nat \<Rightarrow> nat \<Rightarrow> nat \<Rightarrow> bool" where
  "search_inv s i c st n \<longleftrightarrow> c < n \<and> c < i \<and> free_run s (i - c) c \<and> \<not> allocatable s (i - c - 1)
     \<and> (0 < c \<longrightarrow> st = i - c) \<and> (\<forall>p. p + n \<le> i \<longrightarrow> \<not> free_run s p n)"

lemma search_inv_reset:
  assumes "search_inv s i c st n" and "\<not> allocatable s i"
  shows "search_inv s (Suc i) 0 st' n"
proof -
  have "\<not> free_run s p n" if "p + n \<le> Suc i" for p
  proof (cases "p + n \<le> i")
    case True
    with assms(1) show ?thesis by (simp add: search_inv_def)
  next
    case False
    then have "p + n = Suc i" using that by simp
    moreover have "0 < n" using assms(1) by (simp add: search_inv_def)
    ultimately show ?thesis using free_runD [of s p n i] assms(2) by auto
  qed
  with assms show ?thesis by (simp add: search_inv_def)
qed

lemma search_inv_extend:
  assumes "search_inv s i c st n" and "allocatable s i" and "Suc c \<noteq> n"
  shows "search_inv s (Suc i) (Suc c) (if c = 0 then i else st) n"
proof -
  have "\<not> free_run s p n" if "p + n \<le> Suc i" for p
  proof (cases "p + n \<le> i")
    case True
    with assms(1) show ?thesis by (simp add: search_inv_def)
  next
    case False
    then have "p \<le> i - c - 1" "i - c - 1 < p + n"
      using that assms(1,3) by (auto simp: search_inv_def)
    then show ?thesis using free_runD [of s p n "i - c - 1"] assms(1) by (auto simp: search_inv_def)
  qed
  moreover have "free_run s (i - c) (Suc c)"
    using assms by (simp add: free_run_Suc search_inv_def)
  ultimately show ?thesis using assms by (auto simp: search_inv_def)
qed

lemma search_inv_found:
  assumes "search_inv s i c st n" and "allocatable s i" and "Suc c = n"
  shows "free_run s (if c = 0 then i else st) n \<and> (\<forall>p < (if c = 0 then i else st). \<not> free_run s p n)"
proof -
  have "(if c = 0 then i else st) = i - c" using assms(1) by (simp add: search_inv_def)
  moreover have "free_run s (i - c) n"
    using assms by (auto simp: free_run_Suc search_inv_def)
  moreover have "\<not> free_run s p n" if "p < i - c" for p
    using that assms by (simp add: search_inv_def)
  ultimately show ?thesis by simp
qed

text \<open>The least allocatable run, if there is one.\<close>

definition first_fit :: "'a pmm_scheme \<Rightarrow> nat \<Rightarrow> u64 \<Rightarrow> bool" where
  "first_fit s n r \<longleftrightarrow>
     (if r = - 1 then \<forall>p. \<not> free_run s p n
      else free_run s (unat r) n \<and> (\<forall>p < unat r. \<not> free_run s p n))"

lemma allocatable_word:
  assumes "unat (total_pages s) \<le> 2 ^ 52" and "i < total_pages s" and "0 < unat i"
  shows "allocatable s (unat i) \<longleftrightarrow> \<not> bitmap_test i s \<and> usable_page i (memmap_entries s)"
  using assms by (simp add: allocatable_def bitmap_test_iff word_less_nat_alt)

lemma frame_not_minus_1: "unat (k :: u64) < 2 ^ 52 \<Longrightarrow> k \<noteq> - 1"
  by (auto simp: unsigned_minus_1_eq_mask mask_eq_exp_minus_1)

lemma find_free_loop_first_fit:
  assumes "unat (total_pages s) \<le> 2 ^ 52" and "0 < unat i" and "i \<le> total_pages s"
    and "search_inv s (unat i) (unat c) (unat st) (unat n)"
  shows "first_fit s (unat n) (find_free_loop i c st n s)"
  using assms
proof (induction i c st n s rule: find_free_loop.induct)
  case (1 i c st n s)
  show ?case
  proof (cases "i < total_pages s")
    case True
    note Si = unat_Suc_of_less [OF True] and le = inc_le [OF True]
    note alloc = allocatable_word [OF "1.prems"(1) True "1.prems"(2)]
    show ?thesis
    proof (cases "allocatable s (unat i)")
      case good: True
      then have test: "\<not> bitmap_test i s" and use: "usable_page i (memmap_entries s)"
        using alloc by auto
      have c_i: "unat c < unat i" using "1.prems"(4) by (simp add: search_inv_def)
      then have Sc: "unat (c + 1) = Suc (unat c)" by (simp add: unat_Suc_of_less word_less_nat_alt)
      have c0: "c = 0 \<longleftrightarrow> unat c = 0" by (simp add: unat_eq_zero)
      show ?thesis
      proof (cases "c + 1 = n")
        case found: True
        let ?st = "if c = 0 then i else st"
        have fit: "free_run s (unat ?st) (unat n) \<and> (\<forall>p < unat ?st. \<not> free_run s p (unat n))"
          using search_inv_found [OF "1.prems"(4) good] Sc found c0 by auto
        moreover have "0 < unat n" using Sc found by auto
        ultimately have "unat ?st < 2 ^ 52"
          using free_run_bound [of s "unat ?st" "unat n"] "1.prems"(1) by linarith
        then have "?st \<noteq> - 1" by (rule frame_not_minus_1)
        with fit show ?thesis
          using True test use found
          by (simp add: find_free_loop.simps [of i] first_fit_def split del: if_split)
      next
        case more: False
        then have "Suc (unat c) \<noteq> unat n" using Sc by (metis word_unat_eq_iff)
        from search_inv_extend [OF "1.prems"(4) good this]
        have "search_inv s (unat (i + 1)) (unat (c + 1)) (unat (if c = 0 then i else st)) (unat n)"
          using Si Sc c0 by (simp split: if_splits)
        then have "first_fit s (unat n) (find_free_loop (i + 1) (c + 1) (if c = 0 then i else st) n s)"
          using "1.IH"(1) True test use more le Si "1.prems"(1) by simp
        then show ?thesis
          using True test use more by (simp add: find_free_loop.simps [of i] Let_def split del: if_split)
      qed
    next
      case bad: False
      have "search_inv s (unat (i + 1)) (unat 0) (unat st) (unat n)"
        using search_inv_reset [OF "1.prems"(4) bad] Si by simp
      then have "first_fit s (unat n) (find_free_loop (i + 1) 0 st n s)"
        using "1.IH"(2,3) True bad alloc le Si "1.prems"(1) by (cases "bitmap_test i s") simp_all
      then show ?thesis
        using True bad alloc by (auto simp: find_free_loop.simps [of i] Let_def)
    qed
  next
    case False
    with "1.prems"(3) have "i = total_pages s" by simp
    moreover have "\<not> free_run s p (unat n)" for p
    proof
      assume run: "free_run s p (unat n)"
      have "0 < unat n" using "1.prems"(4) by (auto simp: search_inv_def)
      then have "p + unat n \<le> unat (total_pages s)" using free_run_bound [OF run] by simp
      with run "1.prems"(4) \<open>i = total_pages s\<close> show False by (simp add: search_inv_def)
    qed
    moreover have "find_free_loop i c st n s = - 1"
      using False by (simp add: find_free_loop.simps [of i])
    ultimately show ?thesis by (simp add: first_fit_def)
  qed
qed

lemma not_allocatable_0: "\<not> allocatable s 0"
  by (simp add: allocatable_def)

lemma find_free_pages_first_fit:
  assumes "pmm_wf s" and "0 < unat n" and "0 < unat (total_pages s)"
  shows "first_fit s (unat n) (find_free_pages n s)"
  unfolding find_free_pages_def
proof (rule find_free_loop_first_fit)
  show "search_inv s (unat 1) (unat 0) (unat 0) (unat n)"
  proof -
    have "\<not> free_run s p (unat n)" if "p + unat n \<le> 1" for p
      using free_run_bound [of s p "unat n"] that assms(2) by auto
    then show ?thesis using assms(2) by (simp add: search_inv_def not_allocatable_0)
  qed
qed (use assms in \<open>simp_all add: pmm_wf_def word_le_nat_alt\<close>)

section \<open>Allocating and freeing runs of frames\<close>

lemma loop_frame [frame_simps, simp]:
  "total_pages (for_up i n (\<lambda>i. bitmap_set (a + i)) s) = total_pages s"
  "current_memmap (for_up i n (\<lambda>i. bitmap_set (a + i)) s) = current_memmap s"
  "current_hhdm (for_up i n (\<lambda>i. bitmap_set (a + i)) s) = current_hhdm s"
  "bitmap (for_up i n (\<lambda>i. bitmap_set (a + i)) s) = bitmap s"
  "pmm.more (for_up i n (\<lambda>i. bitmap_set (a + i)) s) = pmm.more s"
  by (rule for_up_frame; simp)+

lemma memmap_entries_cong: "current_memmap s = current_memmap t \<Longrightarrow> memmap_entries s = memmap_entries t"
  by (simp add: memmap_entries_def)

lemma set_run_bits:
  fixes s :: "'a pmm_scheme"
  assumes "unat a + unat n \<le> 2 ^ 64" and "k < 2 ^ 64"
  shows "page_bit (for_up 0 n (\<lambda>i. bitmap_set (a + i)) s) k
    \<longleftrightarrow> page_bit s k \<or> unat a \<le> k \<and> k < unat a + unat n"
proof -
  define I where "I = (\<lambda>j (t :: 'a pmm_scheme). page_bit t k \<longleftrightarrow> page_bit s k \<or> unat a \<le> k \<and> k < unat a + j)"
  have "I (unat n) (for_up 0 n (\<lambda>i. bitmap_set (a + i)) s)"
  proof (rule for_up_rule [where I = I])
    show "I (unat 0) s" by (auto simp: I_def)
  next
    fix j t assume j: "j < unat n" and t: "I j t"
    then have "unat (a + of_nat j) = unat a + j"
      using assms(1) by (subst unat_add_no_wrap) (simp_all add: unat_of_nat_u64)
    then show "I (Suc j) (bitmap_set (a + of_nat j) t)"
      using t assms(2) by (auto simp: I_def page_bit_set)
  qed simp
  then show ?thesis by (simp add: I_def)
qed

lemma set_run_count: "used_pages (for_up 0 n (\<lambda>i. bitmap_set (a + i)) s) = used_pages s + n"
proof -
  have "used_pages (for_up 0 n (\<lambda>i. bitmap_set (a + i)) s) = used_pages s + of_nat (unat n)"
  proof (rule for_up_rule [where I = "\<lambda>j t. used_pages t = used_pages s + of_nat j"])
    fix j t
    assume "used_pages t = used_pages s + of_nat j"
    then show "used_pages (bitmap_set (a + of_nat j) t) = used_pages s + of_nat (Suc j)" by simp
  qed simp_all
  then show ?thesis by simp
qed

text \<open>The counted set grows by a run of frames that were clear.\<close>

lemma wf_set_run:
  assumes wf: "pmm_wf s" and run: "free_run s (unat a) (unat n)" and n: "0 < unat n"
  defines "s' \<equiv> for_up 0 n (\<lambda>i. bitmap_set (a + i)) s"
  shows "pmm_wf s'" and "used_frames s' = used_frames s \<union> {unat a..<unat a + unat n}"
proof -
  have bound: "unat a + unat n \<le> unat (total_pages s)" using free_run_bound [OF run n] by simp
  have t52: "unat (total_pages s) \<le> 2 ^ 52" using wf by (simp add: pmm_wf_def)
  have bits: "page_bit s' k \<longleftrightarrow> page_bit s k \<or> unat a \<le> k \<and> k < unat a + unat n"
    if "k < 2 ^ 64" for k
    unfolding s'_def by (rule set_run_bits) (use bound t52 that in simp_all)
  have tot: "total_pages s' = total_pages s" by (simp add: s'_def)
  show frames: "used_frames s' = used_frames s \<union> {unat a..<unat a + unat n}"
    using bound t52 bits unfolding used_frames_def tot by auto
  have disj: "used_frames s \<inter> {unat a..<unat a + unat n} = {}"
    using run by (auto simp: used_frames_def free_run_def allocatable_def)
  have "card (used_frames s') = card (used_frames s) + unat n"
    unfolding frames using disj by (subst card_Un_disjoint) simp_all
  moreover have "card (used_frames s') \<le> unat (total_pages s)"
    using card_mono [of "{..<unat (total_pages s)}" "used_frames s'"] tot
    by (auto simp: used_frames_def)
  moreover have "unat (used_pages s + n) = unat (used_pages s) + unat n"
    using calculation wf t52 by (intro unat_add_no_wrap) (simp add: pmm_wf_def)
  ultimately show "pmm_wf s'"
    using wf t52 tot by (simp add: pmm_wf_def s'_def set_run_count)
qed

lemma pmm_wf_klog [simp]: "pmm_wf (klog m s) = pmm_wf s" "pmm_wf (klog_num a b v c s) = pmm_wf s"
  by (simp_all add: pmm_wf_def used_frames_def)

lemma used_frames_klog [simp]:
  "used_frames (klog m s) = used_frames s" "used_frames (klog_num a b v c s) = used_frames s"
  by (simp_all add: used_frames_def)

lemma unat_frame_addr: "k \<le> 2 ^ 52 - 1 \<Longrightarrow> unat (of_nat k * PAGE_SIZE) = k * 4096"
  by (simp add: PAGE_SIZE_def unat_word_ariths unat_of_nat)

lemma frame_addr_eq: "unat w < 2 ^ 52 \<Longrightarrow> unat (w * PAGE_SIZE) = unat w * 4096"
  by (simp add: PAGE_SIZE_def unat_word_ariths)

lemma alloc_pages_fail:
  assumes "fst (pmm_alloc_pages n s) = 0" and "pmm_wf s" and "0 < unat n"
    and "bitmap s \<noteq> 0" and "0 < unat (total_pages s)"
  shows "(\<forall>p. \<not> free_run s p (unat n)) \<and> snd (pmm_alloc_pages n s) = klog ''[PMM] Out of memory!\<newline>'' s"
proof -
  note fit = find_free_pages_first_fit [OF assms(2,3,5)]
  have "find_free_pages n s = - 1"
  proof (rule ccontr)
    assume ne: "find_free_pages n s \<noteq> - 1"
    with fit have run: "free_run s (unat (find_free_pages n s)) (unat n)" by (simp add: first_fit_def)
    from free_run_bound [OF run assms(3)] assms(2,3)
    have "0 < unat (find_free_pages n s)" "unat (find_free_pages n s) < 2 ^ 52"
      by (auto simp: pmm_wf_def)
    then have "unat (find_free_pages n s * PAGE_SIZE) \<noteq> 0" by (simp add: frame_addr_eq)
    then have "find_free_pages n s * PAGE_SIZE \<noteq> 0" by (metis unat_0)
    with ne assms(1,4) show False by (simp add: pmm_alloc_pages_def Let_def)
  qed
  with fit assms(4) show ?thesis by (simp add: first_fit_def pmm_alloc_pages_def)
qed

lemma alloc_pages_success:
  assumes a: "fst (pmm_alloc_pages n s) \<noteq> 0" and wf: "pmm_wf s" and n: "0 < unat n"
  obtains p where "unat (fst (pmm_alloc_pages n s)) = p * 4096" and "free_run s p (unat n)"
    and "\<forall>q < p. \<not> free_run s q (unat n)"
    and "pmm_wf (snd (pmm_alloc_pages n s))"
    and "used_frames (snd (pmm_alloc_pages n s)) = used_frames s \<union> {p..<p + unat n}"
    and "snd (pmm_alloc_pages n s) = for_up 0 n (\<lambda>i. bitmap_set (of_nat p + i)) s"
proof -
  let ?r = "find_free_pages n s"
  have b: "bitmap s \<noteq> 0" and r: "?r \<noteq> - 1"
    using a by (auto simp: pmm_alloc_pages_def Let_def split: if_splits)
  have pos: "0 < unat (total_pages s)"
  proof (rule ccontr)
    assume "\<not> 0 < unat (total_pages s)"
    then have "\<not> 1 < total_pages s" by (simp add: word_less_nat_alt)
    then show False using r by (simp add: find_free_pages_def find_free_loop.simps [of 1])
  qed
  from find_free_pages_first_fit [OF wf n pos] r
  have run: "free_run s (unat ?r) (unat n)" and least: "\<forall>q < unat ?r. \<not> free_run s q (unat n)"
    by (simp_all add: first_fit_def)
  have res: "pmm_alloc_pages n s = (?r * PAGE_SIZE, for_up 0 n (\<lambda>i. bitmap_set (?r + i)) s)"
    using b r by (simp add: pmm_alloc_pages_def Let_def)
  have "unat ?r < 2 ^ 52"
    using free_run_bound [OF run n] wf n by (simp add: pmm_wf_def)
  then have "unat (fst (pmm_alloc_pages n s)) = unat ?r * 4096"
    by (simp add: res frame_addr_eq)
  then show thesis
    using that [of "unat ?r"] run least wf_set_run [OF wf run n] res by simp
qed

text \<open>The body of \<open>pmm_free_pages\<close>'s loop.\<close>

abbreviation free_step :: "u64 \<Rightarrow> u64 \<Rightarrow> 'a pmm_scheme \<Rightarrow> 'a pmm_scheme" where
  "free_step a \<equiv> \<lambda>i t. if a + i < total_pages t then bitmap_clear (a + i) t else t"

lemma free_loop_frame [frame_simps, simp]:
  "total_pages (for_up i n (free_step a) s) = total_pages s"
  "current_memmap (for_up i n (free_step a) s) = current_memmap s"
  "current_hhdm (for_up i n (free_step a) s) = current_hhdm s"
  "bitmap (for_up i n (free_step a) s) = bitmap s"
  "serial_out (for_up i n (free_step a) s) = serial_out s"
  "pmm.more (for_up i n (free_step a) s) = pmm.more s"
  by (rule for_up_frame; simp)+

lemma clear_run_bits:
  fixes s :: "'a pmm_scheme"
  assumes "unat a + unat n \<le> 2 ^ 64" and "k < 2 ^ 64"
  shows "page_bit (for_up 0 n (free_step a) s) k
    \<longleftrightarrow> page_bit s k \<and> \<not> (unat a \<le> k \<and> k < unat a + unat n \<and> k < unat (total_pages s))"
proof -
  define I where "I = (\<lambda>j (t :: 'a pmm_scheme). total_pages t = total_pages s \<and> (page_bit t k
    \<longleftrightarrow> page_bit s k \<and> \<not> (unat a \<le> k \<and> k < unat a + j \<and> k < unat (total_pages s))))"
  have "I (unat n) (for_up 0 n (free_step a) s)"
  proof (rule for_up_rule [where I = I])
    show "I (unat 0) s" by (auto simp: I_def)
  next
    fix j and t :: "'a pmm_scheme" assume j: "j < unat n" and t: "I j t"
    then have "unat (a + of_nat j) = unat a + j"
      using assms(1) by (subst unat_add_no_wrap) (simp_all add: unat_of_nat_u64)
    then show "I (Suc j) (free_step a (of_nat j) t)"
      using t assms(2) by (auto simp: I_def page_bit_clear word_less_nat_alt)
  qed simp
  then show ?thesis by (simp add: I_def)
qed

lemma clear_run_count:
  fixes s :: "'a pmm_scheme"
  assumes "unat a + unat n \<le> unat (total_pages s)"
  shows "used_pages (for_up 0 n (free_step a) s) = used_pages s - n"
proof -
  have "total_pages (for_up 0 n (free_step a) s) = total_pages s
    \<and> used_pages (for_up 0 n (free_step a) s) = used_pages s - of_nat (unat n)"
  proof (rule for_up_rule [where I = "\<lambda>j (t :: 'a pmm_scheme). total_pages t = total_pages s
        \<and> used_pages t = used_pages s - of_nat j"])
    fix j and t :: "'a pmm_scheme"
    assume j: "j < unat n" and t: "total_pages t = total_pages s \<and> used_pages t = used_pages s - of_nat j"
    have "unat (a + of_nat j) = unat a + j"
      using j assms unat_u64_bound [of "total_pages s"]
      by (subst unat_add_no_wrap) (simp_all add: unat_of_nat_u64)
    then have "a + of_nat j < total_pages s" using j assms by (simp add: word_less_nat_alt)
    with t show "total_pages (free_step a (of_nat j) t) = total_pages s
        \<and> used_pages (free_step a (of_nat j) t) = used_pages s - of_nat (Suc j)"
      by (simp add: algebra_simps)
  qed simp_all
  then show ?thesis by simp
qed

lemma frame_addr_div:
  assumes "unat a = p * 4096"
  shows "unat (a div PAGE_SIZE) = p"
  using assms by (simp add: unat_div PAGE_SIZE_def)

lemma free_pages_owned:
  assumes wf: "pmm_wf s" and b: "bitmap s \<noteq> 0" and addr: "unat a = p * 4096"
    and owned: "{p..<p + unat n} \<subseteq> used_frames s"
  shows "pmm_wf (pmm_free_pages a n s)"
    and "used_frames (pmm_free_pages a n s) = used_frames s - {p..<p + unat n}"
proof -
  let ?a = "a div PAGE_SIZE" and ?s' = "pmm_free_pages a n s"
  have pa: "unat ?a = p" using addr by (rule frame_addr_div)
  have run: "?s' = for_up 0 n (free_step ?a) s" using b by (simp add: pmm_free_pages_def Let_def)
  have tot: "total_pages ?s' = total_pages s" by (simp add: run)
  have t52: "unat (total_pages s) \<le> 2 ^ 52" using wf by (simp add: pmm_wf_def)
  have bound: "unat n = 0 \<or> p + unat n \<le> unat (total_pages s)"
  proof (cases "unat n = 0")
    case False
    then have "p + unat n - 1 \<in> {p..<p + unat n}" by auto
    then have "p + unat n - 1 \<in> used_frames s" using owned by blast
    then have "p + unat n - 1 < unat (total_pages s)" by (simp add: used_frames_def)
    then show ?thesis by linarith
  qed simp
  show frames: "used_frames ?s' = used_frames s - {p..<p + unat n}"
  proof (cases "unat n = 0")
    case True
    then have "\<not> 0 < n" by (simp add: word_less_nat_alt)
    then show ?thesis using True by (simp add: run)
  next
    case False
    then have "page_bit ?s' k \<longleftrightarrow> page_bit s k \<and> \<not> (p \<le> k \<and> k < p + unat n \<and> k < unat (total_pages s))"
      if "k < 2 ^ 64" for k
      unfolding run using clear_run_bits [of ?a n k s] bound t52 pa that by auto
    with t52 show ?thesis unfolding used_frames_def tot by auto
  qed
  have "card (used_frames ?s') = card (used_frames s) - unat n"
    unfolding frames using owned by (subst card_Diff_subset) simp_all
  moreover have "unat n \<le> card (used_frames s)"
    using card_mono [OF _ owned] by simp
  moreover have "used_pages ?s' = used_pages s - n"
  proof (cases "unat n = 0")
    case True
    then have "n = 0" by (simp add: unat_eq_zero)
    then show ?thesis unfolding run by simp
  next
    case False
    then show ?thesis unfolding run using bound pa by (intro clear_run_count) simp
  qed
  ultimately show "pmm_wf ?s'"
    using wf t52 tot by (simp add: pmm_wf_def unat_sub_no_wrap word_le_nat_alt)
qed

text \<open>Freeing exactly what was allocated gives the free frames back.\<close>

lemma alloc_frame [frame_simps, simp]:
  "total_pages (snd (pmm_alloc_pages n s)) = total_pages s"
  "current_memmap (snd (pmm_alloc_pages n s)) = current_memmap s"
  "current_hhdm (snd (pmm_alloc_pages n s)) = current_hhdm s"
  "bitmap (snd (pmm_alloc_pages n s)) = bitmap s"
  "pmm.more (snd (pmm_alloc_pages n s)) = pmm.more s"
  by (simp_all add: pmm_alloc_pages_def Let_def)

lemma free_frame [frame_simps, simp]:
  "total_pages (pmm_free_pages a n s) = total_pages s"
  "current_memmap (pmm_free_pages a n s) = current_memmap s"
  "current_hhdm (pmm_free_pages a n s) = current_hhdm s"
  "bitmap (pmm_free_pages a n s) = bitmap s"
  "serial_out (pmm_free_pages a n s) = serial_out s"
  "pmm.more (pmm_free_pages a n s) = pmm.more s"
  by (simp_all add: pmm_free_pages_def Let_def)

lemma alloc_free_restores:
  assumes a: "fst (pmm_alloc_pages n s) \<noteq> 0" and wf: "pmm_wf s" and n: "0 < unat n"
  defines "s' \<equiv> pmm_free_pages (fst (pmm_alloc_pages n s)) n (snd (pmm_alloc_pages n s))"
  shows "pmm_wf s'" and "used_frames s' = used_frames s"
proof -
  from a wf n obtain p where p: "unat (fst (pmm_alloc_pages n s)) = p * 4096" "free_run s p (unat n)"
    "pmm_wf (snd (pmm_alloc_pages n s))"
    "used_frames (snd (pmm_alloc_pages n s)) = used_frames s \<union> {p..<p + unat n}"
    by (rule alloc_pages_success)
  have b: "bitmap (snd (pmm_alloc_pages n s)) \<noteq> 0"
    using a by (auto simp: pmm_alloc_pages_def Let_def split: if_splits)
  have sub: "{p..<p + unat n} \<subseteq> used_frames (snd (pmm_alloc_pages n s))" using p(4) by simp
  have "used_frames s \<inter> {p..<p + unat n} = {}"
    using p(2) by (auto simp: used_frames_def free_run_def allocatable_def)
  then show "pmm_wf s'" "used_frames s' = used_frames s"
    unfolding s'_def using free_pages_owned [OF p(3) b p(1) sub] p(4) by auto
qed

text \<open>\<open>pmm_free_pages\<close> does not look at the bit it clears.\<close>

lemma double_free_miscounts:
  assumes wf: "pmm_wf s" and b: "bitmap s \<noteq> 0" and addr: "unat a = p * 4096"
    and free: "p < unat (total_pages s)" "\<not> page_bit s p"
  shows "used_frames (pmm_free_page a s) = used_frames s"
    and "used_pages (pmm_free_page a s) = used_pages s - 1"
    and "\<not> pmm_wf (pmm_free_page a s)"
proof -
  let ?a = "a div PAGE_SIZE" and ?s' = "pmm_free_page a s"
  have pa: "unat ?a = p" using addr by (rule frame_addr_div)
  have t52: "unat (total_pages s) \<le> 2 ^ 52" using wf by (simp add: pmm_wf_def)
  have run: "?s' = for_up 0 1 (free_step ?a) s"
    using b by (simp add: pmm_free_page_def pmm_free_pages_def Let_def)
  have "page_bit ?s' k = page_bit s k" if "k < 2 ^ 64" for k
    unfolding run using clear_run_bits [of ?a 1 k s] t52 pa free that
    by (auto simp: less_Suc_eq)
  moreover have "total_pages ?s' = total_pages s" by (simp add: run)
  ultimately show frames: "used_frames ?s' = used_frames s"
    using t52 by (auto simp: used_frames_def)
  show cnt: "used_pages ?s' = used_pages s - 1"
    unfolding run by (rule clear_run_count) (use free pa in simp)
  have "used_pages s - 1 \<noteq> used_pages s" by simp
  then show "\<not> pmm_wf ?s'" using wf frames cnt unfolding pmm_wf_def by (metis word_unat_eq_iff)
qed

section \<open>What initialisation establishes\<close>

abbreviation mark_step :: "u64 \<Rightarrow> 'a pmm_scheme \<Rightarrow> 'a pmm_scheme" where
  "mark_step \<equiv> \<lambda>page t. if page < total_pages t then bitmap_set page t else t"

lemma mark_range_frame [frame_simps, simp]:
  "total_pages (mark_range a b s) = total_pages s"
  "current_memmap (mark_range a b s) = current_memmap s"
  "current_hhdm (mark_range a b s) = current_hhdm s"
  "bitmap (mark_range a b s) = bitmap s"
  "bitmap_size (mark_range a b s) = bitmap_size s"
  "pmm.more (mark_range a b s) = pmm.more s"
  unfolding mark_range_def by (rule for_up_frame; simp)+

lemma mark_range_bits:
  fixes s :: "'a pmm_scheme"
  assumes "k < 2 ^ 64"
  shows "page_bit (mark_range a b s) k
    \<longleftrightarrow> page_bit s k \<or> unat a \<le> k \<and> k < unat b \<and> k < unat (total_pages s)"
proof (cases "a \<le> b")
  case True
  define I where "I = (\<lambda>j (t :: 'a pmm_scheme). total_pages t = total_pages s \<and> (page_bit t k
    \<longleftrightarrow> page_bit s k \<or> unat a \<le> k \<and> k < j \<and> k < unat (total_pages s)))"
  have "I (unat b) (for_up a b mark_step s)"
  proof (rule for_up_rule [where I = I])
    fix j and t :: "'a pmm_scheme" assume j: "unat a \<le> j" "j < unat b" and t: "I j t"
    have "unat (of_nat j :: u64) = j" using j unat_u64_bound [of b] by (intro unat_of_nat_u64) simp
    then show "I (Suc j) (mark_step (of_nat j) t)"
      using t assms j by (auto simp: I_def page_bit_set word_less_nat_alt less_Suc_eq)
  qed (use True in \<open>auto simp: I_def\<close>)
  then show ?thesis by (simp add: I_def mark_range_def)
next
  case False
  then have "\<not> a < b" "unat b \<le> unat a" by (simp_all add: word_le_nat_alt word_less_nat_alt)
  then show ?thesis by (auto simp: mark_range_def)
qed

definition frames_between :: "u64 \<Rightarrow> u64 \<Rightarrow> nat set" where
  "frames_between a b = {unat a..<unat b}"

lemma mark_range_count:
  fixes s :: "'a pmm_scheme"
  shows "used_pages (mark_range a b s)
    = used_pages s + of_nat (card (frames_between a b \<inter> {..<unat (total_pages s)}))"
proof (cases "a \<le> b")
  case True
  define I where "I = (\<lambda>j (t :: 'a pmm_scheme). total_pages t = total_pages s
    \<and> used_pages t = used_pages s + of_nat (card ({unat a..<j} \<inter> {..<unat (total_pages s)})))"
  have "I (unat b) (for_up a b mark_step s)"
  proof (rule for_up_rule [where I = I])
    fix j and t :: "'a pmm_scheme" assume j: "unat a \<le> j" "j < unat b" and t: "I j t"
    have u: "unat (of_nat j :: u64) = j" using j unat_u64_bound [of b] by (intro unat_of_nat_u64) simp
    have "{unat a..<Suc j} \<inter> {..<unat (total_pages s)}
        = (if j < unat (total_pages s) then insert j ({unat a..<j} \<inter> {..<unat (total_pages s)})
           else {unat a..<j} \<inter> {..<unat (total_pages s)})"
      using j(1) by auto
    then show "I (Suc j) (mark_step (of_nat j) t)"
      using t u by (simp add: I_def word_less_nat_alt)
  qed (use True in \<open>auto simp: I_def\<close>)
  then show ?thesis by (simp add: I_def mark_range_def frames_between_def)
next
  case False
  then have "\<not> a < b" "unat b \<le> unat a" by (simp_all add: word_le_nat_alt word_less_nat_alt)
  then show ?thesis by (simp add: mark_range_def frames_between_def)
qed

text \<open>The frames an entry of the memory map touches, as the code rounds them.\<close>

definition entry_frames :: "memmap_entry \<Rightarrow> nat set" where
  "entry_frames e = frames_between (me_base e div PAGE_SIZE)
     ((me_base e + me_length e + PAGE_SIZE - 1) div PAGE_SIZE)"

lemma mark_reserved_frame [frame_simps, simp]:
  "total_pages (mark_reserved es s) = total_pages s"
  "current_memmap (mark_reserved es s) = current_memmap s"
  "current_hhdm (mark_reserved es s) = current_hhdm s"
  "bitmap (mark_reserved es s) = bitmap s"
  "bitmap_size (mark_reserved es s) = bitmap_size s"
  "pmm.more (mark_reserved es s) = pmm.more s"
  by (induction es s rule: mark_reserved.induct) simp_all

lemma mark_reserved_bits:
  "k < 2 ^ 64 \<Longrightarrow> page_bit (mark_reserved es s) k \<longleftrightarrow> page_bit s k
     \<or> k < unat (total_pages s) \<and> (\<exists>e \<in> set es. \<not> me_usable e \<and> k \<in> entry_frames e)"
proof (induction es arbitrary: s)
  case Nil
  then show ?case by simp
next
  case (Cons e es)
  then show ?case
    by (auto simp: mark_range_bits entry_frames_def frames_between_def)
qed

lemma mark_reserved_count:
  "used_pages (mark_reserved es s) = used_pages s
     + of_nat (\<Sum>e \<leftarrow> filter (\<lambda>e. \<not> me_usable e) es. card (entry_frames e \<inter> {..<unat (total_pages s)}))"
  by (induction es arbitrary: s) (simp_all add: mark_range_count entry_frames_def)

text \<open>The scan of the map.\<close>

lemma scan_memmap_highest:
  "scan_memmap es (t, h, lb, ls) = (t', h', lb', ls') \<Longrightarrow>
     h \<le> h' \<and> (\<forall>e \<in> set es. me_usable e \<longrightarrow> me_base e + me_length e \<le> h')"
proof (induction es arbitrary: t h lb ls)
  case (Cons e es)
  then show ?case by (fastforce split: if_splits)
qed simp

lemma scan_memmap_largest:
  "scan_memmap es (t, h, lb, ls) = (t', h', lb', ls') \<Longrightarrow>
     ls \<le> ls' \<and> (\<forall>e \<in> set es. me_usable e \<longrightarrow> me_length e \<le> ls')
     \<and> ((lb', ls') = (lb, ls) \<or> (\<exists>e \<in> set es. me_usable e \<and> me_base e = lb' \<and> me_length e = ls'))"
proof (induction es arbitrary: t h lb ls)
  case (Cons e es)
  then show ?case by (fastforce split: if_splits)
qed simp

end
