(* ===== verification/Frame_Allocator.thy ===== *)
theory Frame_Allocator
  imports Kernel_Prelude
begin

text \<open>
  The interface between the physical memory manager and the code that builds page
  tables: an operation that hands out one page frame (0 when there is none) and, in
  the extended interface, one that takes it back. \<open>owned\<close> is the set of frame
  numbers that are not to be handed out, \<open>ok\<close> the provider's invariant. The
  provider's theory discharges the laws for \<open>pmm_alloc_page\<close> and
  \<open>pmm_free_page\<close>.
\<close>

section \<open>Requests in a row\<close>

text \<open>\<open>n\<close> requests, the addresses in the order of the calls, zeros included.\<close>

primrec alloc_many :: "('s \<Rightarrow> u64 \<times> 's) \<Rightarrow> nat \<Rightarrow> 's \<Rightarrow> u64 list \<times> 's" where
  "alloc_many alloc 0 s = ([], s)"
| "alloc_many alloc (Suc n) s =
     (let (a, s1) = alloc s; (as, s2) = alloc_many alloc n s1 in (a # as, s2))"

locale frame_source =
  fixes alloc :: "'s \<Rightarrow> u64 \<times> 's"
    and ok :: "'s \<Rightarrow> bool"
    and owned :: "'s \<Rightarrow> nat set"
  assumes alloc_refused: "ok s \<Longrightarrow> fst (alloc s) = 0 \<Longrightarrow>
      ok (snd (alloc s)) \<and> owned (snd (alloc s)) = owned s"
    and alloc_frame: "ok s \<Longrightarrow> fst (alloc s) \<noteq> 0 \<Longrightarrow>
      \<exists>p. unat (fst (alloc s)) = p * 4096 \<and> 0 < p \<and> p \<notin> owned s
        \<and> ok (snd (alloc s)) \<and> owned (snd (alloc s)) = insert p (owned s)"
begin

lemma alloc_ok: "ok s \<Longrightarrow> ok (snd (alloc s))"
  using alloc_refused [of s] alloc_frame [of s] by (cases "fst (alloc s) = 0") auto

lemma alloc_owned: "ok s \<Longrightarrow> owned s \<subseteq> owned (snd (alloc s))"
  using alloc_refused [of s] alloc_frame [of s] by (cases "fst (alloc s) = 0") auto

lemma alloc_new:
  assumes "ok s" and "fst (alloc s) \<noteq> 0"
  shows "unat (fst (alloc s)) div 4096 \<notin> owned s
     \<and> owned (snd (alloc s)) = insert (unat (fst (alloc s)) div 4096) (owned s)"
proof -
  obtain p where "unat (fst (alloc s)) = p * 4096" and p: "p \<notin> owned s"
      "owned (snd (alloc s)) = insert p (owned s)"
    using alloc_frame [OF assms] by blast
  then have "unat (fst (alloc s)) div 4096 = p" by (metis nonzero_mult_div_cancel_right zero_neq_numeral)
  with p show ?thesis by simp
qed

lemma alloc_aligned: "ok s \<Longrightarrow> unat (fst (alloc s)) mod 4096 = 0"
  using alloc_frame [of s] by (cases "fst (alloc s) = 0") (simp, metis mod_mult_self2_is_0)

text \<open>
  Frames handed out one after the other are pairwise distinct, were not in use, and
  are the only ones added to those in use.
\<close>

lemma alloc_many_frames:
  assumes "ok s" and "alloc_many alloc n s = (as, t)"
  shows "ok t \<and> length as = n \<and> distinct (filter (\<lambda>a. a \<noteq> 0) as)
    \<and> (\<forall>a \<in> set as. unat a mod 4096 = 0 \<and> (a \<noteq> 0 \<longrightarrow> unat a div 4096 \<notin> owned s))
    \<and> owned t = owned s \<union> (\<lambda>a. unat a div 4096) ` {a \<in> set as. a \<noteq> 0}"
  using assms
proof (induction n arbitrary: s as)
  case (Suc n)
  obtain bs where as: "as = fst (alloc s) # bs" and bs: "alloc_many alloc n (snd (alloc s)) = (bs, t)"
    using Suc.prems(2) by (auto simp: Let_def split: prod.splits)
  note IH = Suc.IH [OF alloc_ok [OF Suc.prems(1)] bs]
  show ?case
  proof (cases "fst (alloc s) = 0")
    case True
    with IH as alloc_refused [OF Suc.prems(1)] show ?thesis by auto
  next
    case False
    note new = alloc_new [OF Suc.prems(1) False]
    have "fst (alloc s) \<notin> set bs"
      using IH new False by (metis insertI1)
    moreover have "{a \<in> set as. a \<noteq> 0} = insert (fst (alloc s)) {a \<in> set bs. a \<noteq> 0}"
      using as False by auto
    ultimately show ?thesis
      using IH new as False alloc_aligned [OF Suc.prems(1)] by auto
  qed
qed auto

end

text \<open>A source that also takes frames back.\<close>

locale frame_allocator = frame_source alloc ok owned
  for alloc :: "'s \<Rightarrow> u64 \<times> 's" and ok :: "'s \<Rightarrow> bool" and owned :: "'s \<Rightarrow> nat set" +
  fixes free :: "u64 \<Rightarrow> 's \<Rightarrow> 's"
  assumes free_frame: "ok s \<Longrightarrow> unat a = p * 4096 \<Longrightarrow> p \<in> owned s \<Longrightarrow>
      ok (free a s) \<and> owned (free a s) = owned s - {p}"
begin

lemma alloc_free:
  assumes "ok s" and "fst (alloc s) \<noteq> 0"
  shows "ok (free (fst (alloc s)) (snd (alloc s)))"
    and "owned (free (fst (alloc s)) (snd (alloc s))) = owned s"
proof -
  obtain p where p: "unat (fst (alloc s)) = p * 4096" "p \<notin> owned s"
      "ok (snd (alloc s))" "owned (snd (alloc s)) = insert p (owned s)"
    using alloc_frame [OF assms] by blast
  then have "p \<in> owned (snd (alloc s))" by simp
  from free_frame [OF p(3,1) this] p
  show "ok (free (fst (alloc s)) (snd (alloc s)))"
    "owned (free (fst (alloc s)) (snd (alloc s))) = owned s" by auto
qed

end

end
