(* ===== verification/Pmm_Init.thy ===== *)
theory Pmm_Init
  imports Pmm Frame_Allocator
begin

text \<open>
  What \<open>pmm_init\<close> makes true of the memory map it is given: which frames end up
  marked, that the manager's invariant holds under the page-disjointness of the
  map, and that no frame it will ever hand out overlaps the bitmap's own storage or
  leaves a usable region. The second half is the interface the paging code uses:
  a frame allocator, with \<open>pmm_alloc_page\<close> and \<open>pmm_free_page\<close> as its
  provider.
\<close>

section \<open>The frames marked by the initialisation\<close>

definition map_highest :: "memmap_entry list \<Rightarrow> u64" where
  "map_highest es = (case scan_memmap es (0, 0, 0, 0) of (_, h, _, _) \<Rightarrow> h)"

definition map_largest_base :: "memmap_entry list \<Rightarrow> u64" where
  "map_largest_base es = (case scan_memmap es (0, 0, 0, 0) of (_, _, b, _) \<Rightarrow> b)"

definition map_largest_size :: "memmap_entry list \<Rightarrow> u64" where
  "map_largest_size es = (case scan_memmap es (0, 0, 0, 0) of (_, _, _, l) \<Rightarrow> l)"

definition map_pages :: "memmap_entry list \<Rightarrow> u64" where
  "map_pages es = map_highest es div PAGE_SIZE"

definition map_bitmap_size :: "memmap_entry list \<Rightarrow> u64" where
  "map_bitmap_size es = (map_pages es + 7) div 8"

definition bitmap_frames :: "memmap_entry list \<Rightarrow> nat set" where
  "bitmap_frames es = frames_between (map_largest_base es div PAGE_SIZE)
     ((map_largest_base es + map_bitmap_size es + PAGE_SIZE - 1) div PAGE_SIZE)"

definition reserved_frames :: "memmap_entry list \<Rightarrow> nat set" where
  "reserved_frames es = (\<Union>e \<in> {e \<in> set es. \<not> me_usable e}. entry_frames e)"

lemma scan_memmap_total:
  "scan_memmap es (t, h, lb, ls) = (t', r) \<Longrightarrow> \<exists>u'. scan_memmap es (u, h, lb, ls) = (u', r)"
proof (induction es arbitrary: t u h lb ls)
  case (Cons e es)
  show ?case unfolding scan_memmap.simps by (rule Cons.IH [OF Cons.prems [unfolded scan_memmap.simps]])
qed simp

lemma scan_memmap_parts:
  "\<exists>t'. scan_memmap es (t, 0, 0, 0) = (t', map_highest es, map_largest_base es, map_largest_size es)"
proof -
  obtain t0 h b l where r: "scan_memmap es (0, 0, 0, 0) = (t0, h, b, l)"
    by (metis prod_cases4)
  then have "map_highest es = h" "map_largest_base es = b" "map_largest_size es = l"
    by (simp_all add: map_highest_def map_largest_base_def map_largest_size_def)
  with scan_memmap_total [OF r, of t] show ?thesis by simp
qed

lemma map_pages_bound: "unat (map_pages es) < 2 ^ 52"
  using unat_u64_bound [of "map_highest es"]
  by (simp add: map_pages_def unat_div PAGE_SIZE_def)

lemma map_bitmap_size_nat: "unat (map_bitmap_size es) = (unat (map_pages es) + 7) div 8"
proof -
  have "unat (map_pages es + 7) = unat (map_pages es) + 7"
    using map_pages_bound [of es] by (simp add: unat_add_no_wrap)
  then show ?thesis by (simp add: map_bitmap_size_def unat_div)
qed

text \<open>The state between the scan and the marking.\<close>

definition pmm_cleared :: "memmap_entry list \<Rightarrow> u64 \<Rightarrow> 'a pmm_scheme \<Rightarrow> 'a pmm_scheme \<Rightarrow> bool" where
  "pmm_cleared es off s t \<longleftrightarrow> current_memmap t = Some es \<and> current_hhdm t = Some off
     \<and> total_pages t = map_pages es \<and> bitmap_size t = map_bitmap_size es
     \<and> bitmap t = map_largest_base es + off \<and> used_pages t = used_pages s
     \<and> pmm.more t = pmm.more s
     \<and> (\<forall>k < unat (map_pages es). \<not> page_bit t k)"

lemma memset_clears:
  assumes "k < unat (map_pages es)"
  shows "\<not> bit (snd (memset 0 0 (map_bitmap_size es) m) (of_nat (k div 8))) n"
proof -
  have "k div 8 < (unat (map_pages es) + 7) div 8" using assms by linarith
  moreover have "k div 8 < 2 ^ 64"
  proof -
    have "k div 8 \<le> k" by simp
    also have "k < 2 ^ 52" using assms map_pages_bound [of es] by (rule less_trans)
    finally show ?thesis by simp
  qed
  ultimately have "(of_nat (k div 8) :: u64) < map_bitmap_size es"
    by (simp add: word_less_nat_alt unat_of_nat_u64 map_bitmap_size_nat)
  then show ?thesis by (simp add: memset_apply)
qed

lemma pmm_init_stages:
  fixes s :: "'a pmm_scheme"
  obtains t :: "'a pmm_scheme" where "pmm_cleared es off s t"
    and "\<exists>v. pmm_init (Some es) (Some off) s
      = klog_num ''[PMM] Ready: '' 10 v '' free pages\<newline>''
          (mark_range (map_largest_base es div PAGE_SIZE)
             ((map_largest_base es + map_bitmap_size es + PAGE_SIZE - 1) div PAGE_SIZE)
             (mark_reserved es t))"
proof -
  let ?s1 = "(klog ''[PMM] Initializing...\<newline>'' s)\<lparr>current_memmap := Some es, current_hhdm := Some off\<rparr>"
  obtain t' where scan: "scan_memmap es (total_memory ?s1, 0, 0, 0)
      = (t', map_highest es, map_largest_base es, map_largest_size es)"
    using scan_memmap_parts by blast
  let ?t = "?s1\<lparr>total_memory := t', total_pages := map_pages es, bitmap_size := map_bitmap_size es,
      bitmap := map_largest_base es + off,
      bitmap_bytes := snd (memset 0 0 (map_bitmap_size es) (bitmap_bytes ?s1))\<rparr>"
  have "pmm_cleared es off s ?t"
    by (simp add: pmm_cleared_def page_bit_def memset_clears)
  moreover have "\<exists>v. pmm_init (Some es) (Some off) s
      = klog_num ''[PMM] Ready: '' 10 v '' free pages\<newline>''
          (mark_range (map_largest_base es div PAGE_SIZE)
             ((map_largest_base es + map_bitmap_size es + PAGE_SIZE - 1) div PAGE_SIZE)
             (mark_reserved es ?t))"
    unfolding pmm_init_def Let_def option.case prod.case scan
    by (simp only: map_pages_def [symmetric] map_bitmap_size_def [symmetric]) (rule exI, rule refl)
  ultimately show thesis by (rule that)
qed

lemma pmm_init_state:
  shows "current_memmap (pmm_init (Some es) (Some off) s) = Some es"
    and "current_hhdm (pmm_init (Some es) (Some off) s) = Some off"
    and "total_pages (pmm_init (Some es) (Some off) s) = map_pages es"
    and "bitmap (pmm_init (Some es) (Some off) s) = map_largest_base es + off"
    and "pmm.more (pmm_init (Some es) (Some off) s) = pmm.more s"
  by (rule pmm_init_stages [of es off s]; auto simp: pmm_cleared_def)+

lemma pmm_init_bits:
  assumes "k < unat (map_pages es)"
  shows "page_bit (pmm_init (Some es) (Some off) s) k
    \<longleftrightarrow> k \<in> reserved_frames es \<or> k \<in> bitmap_frames es"
proof -
  have k: "k < 2 ^ 64" using less_trans [OF assms map_pages_bound] by simp
  show ?thesis
    by (rule pmm_init_stages [of es off s])
      (use assms k in \<open>auto simp: pmm_cleared_def mark_range_bits mark_reserved_bits
        reserved_frames_def bitmap_frames_def frames_between_def\<close>)
qed

lemma pmm_init_count:
  "used_pages (pmm_init (Some es) (Some off) s) = used_pages s
     + of_nat (\<Sum>e \<leftarrow> filter (\<lambda>e. \<not> me_usable e) es. card (entry_frames e \<inter> {..<unat (map_pages es)}))
     + of_nat (card (bitmap_frames es \<inter> {..<unat (map_pages es)}))"
  by (rule pmm_init_stages [of es off s])
    (auto simp: pmm_cleared_def mark_range_count mark_reserved_count bitmap_frames_def)

text \<open>No response from the boot loader: the error path.\<close>

lemma pmm_init_null:
  assumes "m = None \<or> h = None"
  shows "pmm_init m h s = klog ''[PMM] ERROR: No memory map or HHDM!\<newline>''
    ((klog ''[PMM] Initializing...\<newline>'' s)\<lparr>current_memmap := m, current_hhdm := h\<rparr>)"
  using assms by (auto simp: pmm_init_def Let_def split: option.splits)

section \<open>The invariant after initialisation\<close>

text \<open>
  What the boot loader's map has to satisfy: no entry reaches the end of the
  address space, usable entries are page aligned, no two entries share a page frame
  once rounded outwards, and the bitmap fits into the largest usable region. The
  first three are what the Limine protocol documents for usable entries; for the
  other types the protocol promises neither alignment nor disjointness.
\<close>

definition entries_disjoint :: "memmap_entry list \<Rightarrow> bool" where
  "entries_disjoint = sorted_wrt (\<lambda>e f. entry_frames e \<inter> entry_frames f = {})"

definition memmap_ok :: "memmap_entry list \<Rightarrow> bool" where
  "memmap_ok es \<longleftrightarrow>
     (\<forall>e \<in> set es. unat (me_base e) + unat (me_length e) + 4095 < 2 ^ 64
        \<and> (me_usable e \<longrightarrow> unat (me_base e) mod 4096 = 0 \<and> unat (me_length e) mod 4096 = 0))
     \<and> entries_disjoint es
     \<and> map_bitmap_size es \<le> map_largest_size es"

lemma finite_entry_frames [simp]: "finite (entry_frames e)"
  by (simp add: entry_frames_def frames_between_def)

lemma finite_bitmap_frames [simp]: "finite (bitmap_frames es)"
  by (simp add: bitmap_frames_def frames_between_def)

lemma round_up_frames:
  fixes b l :: u64
  assumes "unat b + unat l + 4095 < 2 ^ 64"
  shows "frames_between (b div PAGE_SIZE) ((b + l + PAGE_SIZE - 1) div PAGE_SIZE)
    = {unat b div 4096..<(unat b + unat l + 4095) div 4096}"
proof -
  have "b + l + PAGE_SIZE - 1 = b + l + 4095" by (simp add: PAGE_SIZE_def)
  moreover have "unat (b + l + 4095) = unat b + unat l + 4095"
    using assms by (simp add: unat_add_no_wrap)
  then have "unat (4095 + (b + l)) = unat b + unat l + 4095" by (simp only: ac_simps)
  ultimately show ?thesis by (simp add: frames_between_def unat_div PAGE_SIZE_def)
qed

lemma memmap_ok_frames:
  "memmap_ok es \<Longrightarrow> e \<in> set es \<Longrightarrow>
     entry_frames e = {unat (me_base e) div 4096..<(unat (me_base e) + unat (me_length e) + 4095) div 4096}"
  by (simp add: entry_frames_def memmap_ok_def round_up_frames)

lemma entries_disjointD:
  "entries_disjoint es \<Longrightarrow> e \<in> set es \<Longrightarrow> f \<in> set es \<Longrightarrow> e \<noteq> f \<Longrightarrow> entry_frames e \<inter> entry_frames f = {}"
  unfolding entries_disjoint_def by (induction es) auto

lemma card_reserved_frames:
  "entries_disjoint es \<Longrightarrow> card (reserved_frames es \<inter> {..<n})
     = (\<Sum>e \<leftarrow> filter (\<lambda>e. \<not> me_usable e) es. card (entry_frames e \<inter> {..<n}))"
proof (induction es)
  case (Cons e es)
  then have IH: "card (reserved_frames es \<inter> {..<n})
      = (\<Sum>e \<leftarrow> filter (\<lambda>e. \<not> me_usable e) es. card (entry_frames e \<inter> {..<n}))"
    by (simp add: entries_disjoint_def)
  have split: "reserved_frames (e # es)
      = (if me_usable e then reserved_frames es else entry_frames e \<union> reserved_frames es)"
    by (auto simp: reserved_frames_def)
  have "entry_frames e \<inter> reserved_frames es = {}"
    using Cons.prems by (auto simp: entries_disjoint_def reserved_frames_def)
  then have "card ((entry_frames e \<union> reserved_frames es) \<inter> {..<n})
      = card (entry_frames e \<inter> {..<n}) + card (reserved_frames es \<inter> {..<n})"
    by (subst Int_Un_distrib2) (rule card_Un_disjoint; auto simp: reserved_frames_def)
  with IH split show ?case by simp
qed (simp add: reserved_frames_def)

lemma largest_entry:
  "map_largest_base es = 0 \<and> map_largest_size es = 0
   \<or> (\<exists>e \<in> set es. me_usable e \<and> me_base e = map_largest_base es \<and> me_length e = map_largest_size es)"
proof -
  obtain t' where "scan_memmap es (0, 0, 0, 0)
      = (t', map_highest es, map_largest_base es, map_largest_size es)"
    using scan_memmap_parts by blast
  from scan_memmap_largest [OF this] show ?thesis by auto
qed

text \<open>The bitmap lies in frames of the largest usable region.\<close>

lemma bitmap_frames_in_largest:
  assumes ok: "memmap_ok es" and k: "k \<in> bitmap_frames es"
  obtains e where "e \<in> set es" "me_usable e" "k \<in> entry_frames e"
proof -
  let ?b = "map_largest_base es" and ?z = "map_bitmap_size es" and ?l = "map_largest_size es"
  have le: "?z \<le> ?l" using ok by (simp add: memmap_ok_def)
  have "bitmap_frames es = {}" if "?b = 0" "?l = 0"
    using le that by (simp add: bitmap_frames_def frames_between_def PAGE_SIZE_def)
  with k largest_entry [of es] obtain e where e: "e \<in> set es" "me_usable e"
      "me_base e = ?b" "me_length e = ?l" by auto
  have "unat ?b + unat ?l + 4095 < 2 ^ 64" using ok e by (auto simp: memmap_ok_def)
  moreover have "unat ?z \<le> unat ?l" using le by (simp add: word_le_nat_alt)
  ultimately have "bitmap_frames es \<subseteq> entry_frames e"
    using div_le_mono [of "unat ?b + unat ?z + 4095" "unat ?b + unat ?l + 4095" 4096]
    by (auto simp: bitmap_frames_def memmap_ok_frames [OF ok e(1)] round_up_frames e)
  with e k show thesis by (auto intro: that)
qed

lemma pmm_init_used_frames:
  "used_frames (pmm_init (Some es) (Some off) s)
     = (reserved_frames es \<union> bitmap_frames es) \<inter> {..<unat (map_pages es)}"
  by (auto simp: used_frames_def pmm_init_state pmm_init_bits)

lemma pmm_init_wf:
  assumes ok: "memmap_ok es" and fresh: "used_pages s = 0"
  shows "pmm_wf (pmm_init (Some es) (Some off) s)"
proof -
  let ?N = "unat (map_pages es)" and ?s = "pmm_init (Some es) (Some off) s"
  have "reserved_frames es \<inter> bitmap_frames es = {}"
  proof (rule equals0I)
    fix k assume k: "k \<in> reserved_frames es \<inter> bitmap_frames es"
    then obtain e where e: "e \<in> set es" "\<not> me_usable e" "k \<in> entry_frames e"
      by (auto simp: reserved_frames_def)
    from k obtain f where f: "f \<in> set es" "me_usable f" "k \<in> entry_frames f"
      using bitmap_frames_in_largest [OF ok, of k] by auto
    have "entry_frames e \<inter> entry_frames f = {}"
      using e f ok by (intro entries_disjointD [of es]) (auto simp: memmap_ok_def)
    with e f show False by auto
  qed
  then have "card (used_frames ?s)
      = card (reserved_frames es \<inter> {..<?N}) + card (bitmap_frames es \<inter> {..<?N})"
    unfolding pmm_init_used_frames Int_Un_distrib2
    by (intro card_Un_disjoint) (auto simp: reserved_frames_def)
  then have "used_pages ?s = of_nat (card (used_frames ?s))"
    using ok fresh by (simp add: pmm_init_count card_reserved_frames memmap_ok_def)
  moreover have "card (used_frames ?s) \<le> ?N"
    using card_mono [of "{..<?N}" "used_frames ?s"] by (simp add: pmm_init_used_frames)
  then have "card (used_frames ?s) < 2 ^ 52"
    using map_pages_bound [of es] by (rule le_less_trans)
  ultimately have "unat (used_pages ?s) = card (used_frames ?s)"
    by (simp add: unat_of_nat_u64)
  moreover have "unat (total_pages ?s) \<le> 2 ^ 52"
    using map_pages_bound [of es] by (simp add: pmm_init_state)
  ultimately show ?thesis by (simp add: pmm_wf_def)
qed

text \<open>No frame the manager may hand out holds the bitmap or lies outside usable memory.\<close>

lemma usable_page_iff:
  "usable_page i es \<longleftrightarrow> (\<exists>e \<in> set es. me_usable e \<and> me_base e \<le> i * PAGE_SIZE
     \<and> i * PAGE_SIZE < me_base e + me_length e)"
  by (induction es) auto

lemma usable_page_region:
  assumes ok: "memmap_ok es" and k: "k < 2 ^ 52" and use: "usable_page (of_nat k) es"
  obtains e where "e \<in> set es" "me_usable e" "k \<in> entry_frames e"
    "unat (me_base e) \<le> k * 4096" "k * 4096 + 4096 \<le> unat (me_base e) + unat (me_length e)"
proof -
  from use obtain e where e: "e \<in> set es" "me_usable e" "me_base e \<le> of_nat k * PAGE_SIZE"
      "of_nat k * PAGE_SIZE < me_base e + me_length e"
    by (auto simp: usable_page_iff)
  let ?b = "unat (me_base e)" and ?l = "unat (me_length e)"
  have a: "unat (of_nat k * PAGE_SIZE :: u64) = k * 4096" using k by (simp add: unat_frame_addr)
  have nw: "?b + ?l + 4095 < 2 ^ 64" and al: "?b mod 4096 = 0" "?l mod 4096 = 0"
    using ok e by (auto simp: memmap_ok_def)
  have "unat (me_base e + me_length e) = ?b + ?l" using nw by (intro unat_add_no_wrap) simp
  with e(3,4) a have lo: "?b \<le> k * 4096" and hi: "k * 4096 < ?b + ?l"
    by (simp_all add: word_le_nat_alt word_less_nat_alt)
  from al obtain x y where xy: "?b = 4096 * x" "?l = 4096 * y"
    unfolding mod_eq_0_iff_dvd by (elim dvdE)
  have "k < x + y" using hi unfolding xy by linarith
  then have hi': "k * 4096 + 4096 \<le> ?b + ?l" unfolding xy by linarith
  have "k \<in> entry_frames e"
  proof -
    have "?b div 4096 \<le> k" using div_le_mono [OF lo, of 4096] by simp
    moreover have "Suc k \<le> (?b + ?l + 4095) div 4096"
      using div_le_mono [of "Suc k * 4096" "?b + ?l + 4095" 4096] hi' by simp
    ultimately show ?thesis by (simp add: memmap_ok_frames [OF ok e(1)])
  qed
  then show thesis using that e lo hi' by simp
qed

lemma pmm_init_allocatable:
  assumes ok: "memmap_ok es" and al: "allocatable (pmm_init (Some es) (Some off) s) k"
  shows "k \<notin> bitmap_frames es" and "k \<notin> reserved_frames es"
    and "\<exists>e \<in> set es. me_usable e \<and> unat (me_base e) \<le> k * 4096
           \<and> k * 4096 + 4096 \<le> unat (me_base e) + unat (me_length e)"
proof -
  from al have k: "k < unat (map_pages es)"
    and free: "\<not> page_bit (pmm_init (Some es) (Some off) s) k"
    and use: "usable_page (of_nat k) es"
    by (simp_all add: allocatable_def pmm_init_state memmap_entries_def)
  from free show "k \<notin> bitmap_frames es" "k \<notin> reserved_frames es" by (simp_all add: pmm_init_bits k)
  from usable_page_region [OF ok less_trans [OF k map_pages_bound] use]
  show "\<exists>e \<in> set es. me_usable e \<and> unat (me_base e) \<le> k * 4096
           \<and> k * 4096 + 4096 \<le> unat (me_base e) + unat (me_length e)" by blast
qed

section \<open>The frame allocator\<close>

definition pmm_ok :: "'a pmm_scheme \<Rightarrow> bool" where
  "pmm_ok s \<longleftrightarrow> pmm_wf s \<and> bitmap s \<noteq> 0"

lemma alloc_page_refused:
  assumes "fst (pmm_alloc_page s) = 0" and "pmm_ok s"
  shows "pmm_ok (snd (pmm_alloc_page s)) \<and> used_frames (snd (pmm_alloc_page s)) = used_frames s"
proof (cases "unat (total_pages s) = 0")
  case True
  then have "\<not> 1 < total_pages s" by (simp add: word_less_nat_alt)
  then have "find_free_pages 1 s = - 1" by (simp add: find_free_pages_def find_free_loop.simps [of 1])
  with assms(2) show ?thesis by (simp add: pmm_alloc_page_def pmm_alloc_pages_def pmm_ok_def)
next
  case False
  with assms alloc_pages_fail [of 1 s] show ?thesis
    by (simp add: pmm_alloc_page_def pmm_ok_def)
qed

lemma alloc_page_frame:
  assumes a: "fst (pmm_alloc_page s) \<noteq> 0" and ok: "pmm_ok s"
  shows "\<exists>p. unat (fst (pmm_alloc_page s)) = p * 4096 \<and> 0 < p \<and> p \<notin> used_frames s
    \<and> pmm_ok (snd (pmm_alloc_page s)) \<and> used_frames (snd (pmm_alloc_page s)) = insert p (used_frames s)"
proof -
  have b: "fst (pmm_alloc_pages 1 s) \<noteq> 0" and wf: "pmm_wf s" and one: "0 < unat (1::u64)"
    using a ok by (simp_all add: pmm_alloc_page_def pmm_ok_def)
  obtain p where p: "unat (fst (pmm_alloc_pages 1 s)) = p * 4096" "free_run s p (unat (1::u64))"
      "pmm_wf (snd (pmm_alloc_pages 1 s))"
      "used_frames (snd (pmm_alloc_pages 1 s)) = used_frames s \<union> {p..<p + unat (1::u64)}"
      "snd (pmm_alloc_pages 1 s) = for_up 0 1 (\<lambda>i. bitmap_set (of_nat p + i)) s"
    using alloc_pages_success [OF b wf one] by metis
  have "allocatable s p" using p(2) by (simp add: free_run_def)
  moreover have "bitmap (snd (pmm_alloc_pages 1 s)) = bitmap s" by (simp add: p(5))
  ultimately show ?thesis
    using p ok by (auto simp: pmm_alloc_page_def pmm_ok_def allocatable_def used_frames_def)
qed

lemma free_page_frame:
  assumes "pmm_ok s" and "unat a = p * 4096" and "p \<in> used_frames s"
  shows "pmm_ok (pmm_free_page a s) \<and> used_frames (pmm_free_page a s) = used_frames s - {p}"
proof -
  have "bitmap (pmm_free_page a s) = bitmap s"
    by (simp add: pmm_free_page_def pmm_free_pages_def Let_def)
  with assms free_pages_owned [of s a p 1] show ?thesis
    by (auto simp: pmm_free_page_def pmm_ok_def)
qed

interpretation pf: frame_allocator pmm_alloc_page pmm_ok used_frames pmm_free_page
  by unfold_locales (use alloc_page_refused alloc_page_frame free_page_frame in blast)+

text \<open>
  The same operation seen from the frames it may hand out: everything else, the
  frames outside usable memory included, is taken.
\<close>

definition taken :: "'a pmm_scheme \<Rightarrow> nat set" where
  "taken s = {k. \<not> allocatable s k}"

lemma allocatable_cong:
  assumes "current_memmap t = current_memmap s" and "total_pages t = total_pages s"
    and "k < unat (total_pages s) \<Longrightarrow> page_bit t k = page_bit s k"
  shows "allocatable t k = allocatable s k"
  using assms by (auto simp: allocatable_def memmap_entries_def)

lemma allocatable_klog [simp]: "allocatable (klog m s) k = allocatable s k"
  by (rule allocatable_cong) simp_all

lemma taken_klog [simp]: "taken (klog m s) = taken s"
  by (simp add: taken_def)

lemma alloc_page_taken:
  assumes ok: "pmm_ok s"
  shows "fst (pmm_alloc_page s) = 0 \<Longrightarrow> taken (snd (pmm_alloc_page s)) = taken s"
    and "fst (pmm_alloc_page s) \<noteq> 0 \<Longrightarrow>
      \<exists>p. unat (fst (pmm_alloc_page s)) = p * 4096 \<and> 0 < p \<and> p \<notin> taken s
        \<and> taken (snd (pmm_alloc_page s)) = insert p (taken s)"
proof -
  assume "fst (pmm_alloc_page s) = 0"
  then show "taken (snd (pmm_alloc_page s)) = taken s"
  proof (cases "unat (total_pages s) = 0")
    case True
    then have "\<not> 1 < total_pages s" by (simp add: word_less_nat_alt)
    then have "find_free_pages 1 s = - 1" by (simp add: find_free_pages_def find_free_loop.simps [of 1])
    with ok show ?thesis by (simp add: pmm_alloc_page_def pmm_alloc_pages_def pmm_ok_def)
  next
    case False
    assume "fst (pmm_alloc_page s) = 0"
    with ok False alloc_pages_fail [of 1 s] show ?thesis
      by (simp add: pmm_alloc_page_def pmm_ok_def)
  qed
next
  assume a: "fst (pmm_alloc_page s) \<noteq> 0"
  have b: "fst (pmm_alloc_pages 1 s) \<noteq> 0" and wf: "pmm_wf s" and one: "0 < unat (1::u64)"
    using a ok by (simp_all add: pmm_alloc_page_def pmm_ok_def)
  obtain p where p: "unat (fst (pmm_alloc_pages 1 s)) = p * 4096" "free_run s p (unat (1::u64))"
      "used_frames (snd (pmm_alloc_pages 1 s)) = used_frames s \<union> {p..<p + unat (1::u64)}"
      "snd (pmm_alloc_pages 1 s) = for_up 0 1 (\<lambda>i. bitmap_set (of_nat p + i)) s"
    using alloc_pages_success [OF b wf one] by metis
  let ?t = "snd (pmm_alloc_pages 1 s)"
  have al: "allocatable s p" using p(2) by (simp add: free_run_def)
  have "total_pages ?t = total_pages s" "current_memmap ?t = current_memmap s"
    by (simp_all add: p(4))
  then have "allocatable ?t k \<longleftrightarrow> allocatable s k \<and> k \<noteq> p" for k
    using p(3) al by (auto simp: allocatable_def memmap_entries_def used_frames_def set_eq_iff)
  with p al show "\<exists>p. unat (fst (pmm_alloc_page s)) = p * 4096 \<and> 0 < p \<and> p \<notin> taken s
        \<and> taken (snd (pmm_alloc_page s)) = insert p (taken s)"
    by (auto simp: pmm_alloc_page_def taken_def allocatable_def)
qed

interpretation avail: frame_source pmm_alloc_page pmm_ok taken
proof unfold_locales
  fix s :: "'a pmm_scheme"
  assume ok: "pmm_ok s" and a: "fst (pmm_alloc_page s) = 0"
  with alloc_page_refused [OF a ok] alloc_page_taken(1) [OF ok a]
  show "pmm_ok (snd (pmm_alloc_page s)) \<and> taken (snd (pmm_alloc_page s)) = taken s" by simp
next
  fix s :: "'a pmm_scheme"
  assume ok: "pmm_ok s" and a: "fst (pmm_alloc_page s) \<noteq> 0"
  with alloc_page_frame [OF a ok] alloc_page_taken(2) [OF ok a]
  show "\<exists>p. unat (fst (pmm_alloc_page s)) = p * 4096 \<and> 0 < p \<and> p \<notin> taken s
    \<and> pmm_ok (snd (pmm_alloc_page s)) \<and> taken (snd (pmm_alloc_page s)) = insert p (taken s)" by blast
qed

end
