(* ===== verification/Word_Memory.thy ===== *)
theory Word_Memory
  imports LibC_Memory
begin

text \<open>
  Loads and stores of 64-bit objects in byte memory, little endian, as the
  processor performs them: \<open>load64\<close> and \<open>store64\<close> for the \<open>uint64_t\<close>,
  \<open>size_t\<close> and pointer fields that the heap keeps in its block headers and the
  paging code in its tables. Fields that do not overlap do not disturb each other,
  which is the fact every pointer update of those components rests on.
\<close>

section \<open>Loads and stores\<close>

definition load64 :: "bytes \<Rightarrow> u64 \<Rightarrow> u64" where
  "load64 m a = foldr (\<lambda>i w. push_bit 8 w OR ucast (m (a + of_nat i))) [0..<8] 0"

definition store64 :: "u64 \<Rightarrow> u64 \<Rightarrow> bytes \<Rightarrow> bytes" where
  "store64 a v m = (\<lambda>x. if x - a < 8 then ucast (drop_bit (8 * unat (x - a)) v) else m x)"

definition store8 :: "u64 \<Rightarrow> u8 \<Rightarrow> bytes \<Rightarrow> bytes" where
  "store8 a v m = m(a := v)"

lemma bit_load_bytes:
  fixes m :: bytes
  shows "bit (foldr (\<lambda>i w. push_bit 8 w OR ucast (m (a + of_nat i))) [j..<j + k] 0 :: u64) n
     \<longleftrightarrow> n < 64 \<and> n < 8 * k \<and> bit (m (a + of_nat (j + n div 8))) (n mod 8)"
proof (induction k arbitrary: j n)
  case (Suc k)
  have upt: "[j..<j + Suc k] = j # [Suc j..<Suc j + k]" by (simp add: upt_conv_Cons)
  show ?case
  proof (cases "n < 8")
    case True
    then show ?thesis unfolding upt by (simp add: bit_simps)
  next
    case False
    then have n: "8 \<le> n" by simp
    have small: "\<not> bit (m b) n" for b using n bit_imp_le_length [of "m b" n] by auto
    have "n div 8 = Suc ((n - 8) div 8)" "n mod 8 = (n - 8) mod 8"
      using n by (simp_all add: le_div_geq le_mod_geq)
    then show ?thesis
      unfolding upt using n small Suc.IH [of "Suc j" "n - 8"] by (auto simp: bit_simps)
  qed
qed simp

lemma bit_load64:
  "n < 64 \<Longrightarrow> bit (load64 m a) n = bit (m (a + of_nat (n div 8))) (n mod 8)"
  using bit_load_bytes [of m a 0 8 n] by (simp add: load64_def)

lemma load64_cong:
  "(\<And>i. i < 8 \<Longrightarrow> m (a + of_nat i) = m' (a + of_nat i)) \<Longrightarrow> load64 m a = load64 m' a"
  unfolding load64_def by (rule foldr_cong) auto

lemma load64_store64_same [simp]: "load64 (store64 a v m) a = v"
proof (rule bit_word_eqI)
  fix n assume "n < LENGTH(64)"
  then have n: "n < 64" by simp
  have k: "n div 8 < 8" using n by simp
  then have "unat (of_nat (n div 8) :: u64) = n div 8" by (intro unat_of_nat_u64) simp
  moreover have "(of_nat (n div 8) :: u64) < 8"
    using k calculation by (simp add: word_less_nat_alt)
  moreover have "8 * (n div 8) + n mod 8 = n" by simp
  ultimately show "bit (load64 (store64 a v m) a) n = bit v n"
    by (simp add: bit_load64 [OF n] store64_def bit_simps)
qed

text \<open>The bytes a store leaves alone, and the loads that therefore do not see it.\<close>

lemma store64_other: "\<not> x - a < 8 \<Longrightarrow> store64 a v m x = m x"
  by (simp add: store64_def)

definition apart8 :: "u64 \<Rightarrow> u64 \<Rightarrow> bool" where
  "apart8 a b \<longleftrightarrow> 8 \<le> b - a \<and> 8 \<le> a - b"

lemma apart8_offset:
  assumes "apart8 a b" and "i < 8"
  shows "\<not> b + of_nat i - a < 8"
proof
  assume less: "b + of_nat i - a < 8"
  have i: "unat (of_nat i :: u64) = i" using assms(2) by (intro unat_of_nat_u64) simp
  have ge: "8 \<le> unat (b - a)" "8 \<le> unat (a - b)"
    using assms(1) by (simp_all add: apart8_def word_le_nat_alt)
  have eq: "b + of_nat i - a = (b - a) + of_nat i" by simp
  show False
  proof (cases "unat (b - a) + i < 2 ^ 64")
    case True
    then have "unat ((b - a) + of_nat i) = unat (b - a) + i"
      using i by (simp add: unat_add_no_wrap)
    with less ge(1) show False by (simp add: eq word_less_nat_alt)
  next
    case False
    have "b - a \<noteq> 0" using ge(1) by auto
    then have "unat a \<noteq> unat b" by (auto simp flip: word_unat_eq_iff)
    then have "unat (a - b) + unat (b - a) = 2 ^ 64"
      using unat_u64_bound [of a] unat_u64_bound [of b] by (simp add: unat_sub_if')
    with False ge(2) assms(2) show False by linarith
  qed
qed

lemma load64_store64_other: "apart8 a b \<Longrightarrow> load64 (store64 a v m) b = load64 m b"
  by (rule load64_cong) (simp add: store64_other apart8_offset)

lemma load64_store8_other: "8 \<le> a - b \<Longrightarrow> load64 (store8 a v m) b = load64 m b"
proof (rule load64_cong)
  fix i :: nat assume b: "8 \<le> a - b" and i: "i < 8"
  have "unat (of_nat i :: u64) = i" using i by (intro unat_of_nat_u64) simp
  then have "b + of_nat i \<noteq> a" using b i by (auto simp: word_le_nat_alt)
  then show "store8 a v m (b + of_nat i) = m (b + of_nat i)" by (simp add: store8_def)
qed

end
