(* ===== verification/Paging.thy ===== *)
theory Paging
  imports Pmm_Init Word_Memory
begin

text \<open>
  \<open>kernel/src/memory/paging.c\<close>: four-level page tables read and written through
  the boot loader's direct map of physical memory. The record \<open>paging\<close> adds to
  the physical memory manager's state the memory the kernel sees at its virtual
  addresses (\<open>kmem\<close>), the control registers, the file's copy of the direct map
  response, and the addresses whose translation has been invalidated.

  The first part is the code; the second the tree of tables it walks, with the
  invariant of that tree; the third what mapping and unmapping do to translations.
\<close>

section \<open>State and flags\<close>

record paging = pmm +
  kmem :: bytes
  cr0 :: u64
  cr2 :: u64
  cr3 :: u64
  cr4 :: u64
  paging_hhdm :: "u64 option"
  invalidated :: "u64 list"

definition PAGING_PRESENT :: u64 where "PAGING_PRESENT = 0x1"
definition PAGING_WRITABLE :: u64 where "PAGING_WRITABLE = 0x2"
definition PAGING_USER :: u64 where "PAGING_USER = 0x4"
definition PAGING_HUGE_PAGE :: u64 where "PAGING_HUGE_PAGE = 0x80"
definition PAGING_NO_EXECUTE :: u64 where "PAGING_NO_EXECUTE = 0x8000000000000000"

abbreviation is_present :: "u64 \<Rightarrow> bool" where
  "is_present e \<equiv> e AND PAGING_PRESENT \<noteq> 0"

text \<open>\<open>table->entries[index]\<close>, and the assignment to it.\<close>

definition entry_get :: "bytes \<Rightarrow> u64 \<Rightarrow> u64 \<Rightarrow> u64" where
  "entry_get m table index = load64 m (table + 8 * index)"

definition entry_set :: "u64 \<Rightarrow> u64 \<Rightarrow> u64 \<Rightarrow> bytes \<Rightarrow> bytes" where
  "entry_set table index v m = store64 (table + 8 * index) v m"

definition pml4_index :: "u64 \<Rightarrow> u64" where "pml4_index va = drop_bit 39 va AND 0x1FF"
definition pdp_index :: "u64 \<Rightarrow> u64" where "pdp_index va = drop_bit 30 va AND 0x1FF"
definition pd_index :: "u64 \<Rightarrow> u64" where "pd_index va = drop_bit 21 va AND 0x1FF"
definition pt_index :: "u64 \<Rightarrow> u64" where "pt_index va = drop_bit 12 va AND 0x1FF"

section \<open>Operations\<close>

definition paging_init :: "u64 option \<Rightarrow> 'a paging_scheme \<Rightarrow> 'a paging_scheme" where
  "paging_init hhdm_response s =
     (let s1 = (klog ''[PAGING] Initializing...\<newline>'' s)\<lparr>paging_hhdm := hhdm_response\<rparr>
      in case hhdm_response of
           None \<Rightarrow> klog ''[PAGING] ERROR: No HHDM response!\<newline>'' s1
         | Some offset \<Rightarrow>
             let s2 = klog_num '', CR3: 0x'' 16 (cr3 s1) ''\<newline>''
                        (klog_num '', CR4: 0x'' 16 (cr4 s1) ''''
                          (klog_num ''[PAGING] CR0: 0x'' 16 (cr0 s1) '''' s1));
                 s3 = klog_num ''[PAGING] HHDM offset: 0x'' 16 offset ''\<newline>'' s2;
                 s4 = (if bit (cr0 s1) 31
                       then klog ''[PAGING] Paging already enabled by bootloader\<newline>'' s3 else s3)
             in klog ''[PAGING] Ready\<newline>'' s4)"

definition paging_load_cr3 :: "u64 \<Rightarrow> 'a paging_scheme \<Rightarrow> 'a paging_scheme" where
  "paging_load_cr3 v s = s\<lparr>cr3 := v\<rparr>"

definition paging_get_cr3 :: "'a paging_scheme \<Rightarrow> u64" where
  "paging_get_cr3 s = cr3 s"

definition paging_invalidate_tlb :: "u64 \<Rightarrow> 'a paging_scheme \<Rightarrow> 'a paging_scheme" where
  "paging_invalidate_tlb va s = s\<lparr>invalidated := invalidated s @ [va]\<rparr>"

text \<open>
  \<open>get_next_table\<close>; \<open>off\<close> is \<open>current_hhdm_response->offset\<close>, which its
  callers have checked to be there. NULL is 0.
\<close>

definition get_next_table ::
  "u64 \<Rightarrow> u64 \<Rightarrow> u64 \<Rightarrow> bool \<Rightarrow> 'a paging_scheme \<Rightarrow> u64 \<times> 'a paging_scheme" where
  "get_next_table off current index create s =
     (if is_present (entry_get (kmem s) current index)
      then ((entry_get (kmem s) current index AND PAGE_MASK) + off, s)
      else if \<not> create then (0, s)
      else let (phys, s1) = pmm_alloc_page s
           in if phys = 0 then (0, s1)
              else let next_table = phys + off;
                       m1 = snd (memset next_table 0 PAGE_SIZE (kmem s1));
                       m2 = entry_set current index (phys OR PAGING_PRESENT OR PAGING_WRITABLE) m1
                   in (next_table, s1\<lparr>kmem := m2\<rparr>))"

definition paging_map_page :: "u64 \<Rightarrow> u64 \<Rightarrow> u64 \<Rightarrow> 'a paging_scheme \<Rightarrow> bool \<times> 'a paging_scheme" where
  "paging_map_page va pa flags s =
     (case paging_hhdm s of
        None \<Rightarrow> (False, s)
      | Some off \<Rightarrow>
          let pml4 = paging_get_cr3 s + off;
              (pdp, s1) = get_next_table off pml4 (pml4_index va) True s
          in if pdp = 0 then (False, s1)
             else let (pd, s2) = get_next_table off pdp (pdp_index va) True s1
                  in if pd = 0 then (False, s2)
                     else let (pt, s3) = get_next_table off pd (pd_index va) True s2
                          in if pt = 0 then (False, s3)
                             else (True, paging_invalidate_tlb va
                                    (s3\<lparr>kmem := entry_set pt (pt_index va)
                                       (pa OR flags OR PAGING_PRESENT) (kmem s3)\<rparr>)))"

definition paging_unmap_page :: "u64 \<Rightarrow> 'a paging_scheme \<Rightarrow> bool \<times> 'a paging_scheme" where
  "paging_unmap_page va s =
     (case paging_hhdm s of
        None \<Rightarrow> (False, s)
      | Some off \<Rightarrow>
          let pml4 = paging_get_cr3 s + off;
              (pdp, s1) = get_next_table off pml4 (pml4_index va) False s
          in if pdp = 0 then (False, s1)
             else let (pd, s2) = get_next_table off pdp (pdp_index va) False s1
                  in if pd = 0 then (False, s2)
                     else let (pt, s3) = get_next_table off pd (pd_index va) False s2
                          in if pt = 0 then (False, s3)
                             else if \<not> is_present (entry_get (kmem s3) pt (pt_index va)) then (False, s3)
                             else let s4 = pmm_free_page (entry_get (kmem s3) pt (pt_index va) AND PAGE_MASK) s3
                                  in (True, paging_invalidate_tlb va
                                       (s4\<lparr>kmem := entry_set pt (pt_index va) 0 (kmem s4)\<rparr>)))"

definition paging_is_mapped :: "u64 \<Rightarrow> 'a paging_scheme \<Rightarrow> bool" where
  "paging_is_mapped va s =
     (case paging_hhdm s of
        None \<Rightarrow> False
      | Some off \<Rightarrow>
          let pml4 = paging_get_cr3 s + off
          in if \<not> is_present (entry_get (kmem s) pml4 (pml4_index va)) then False
             else let pdp = fst (get_next_table off pml4 (pml4_index va) False s)
                  in if pdp = 0 then False
                     else if \<not> is_present (entry_get (kmem s) pdp (pdp_index va)) then False
                     else let pd = fst (get_next_table off pdp (pdp_index va) False s)
                          in if pd = 0 then False
                             else if \<not> is_present (entry_get (kmem s) pd (pd_index va)) then False
                             else let pt = fst (get_next_table off pd (pd_index va) False s)
                                  in if pt = 0 then False
                                     else is_present (entry_get (kmem s) pt (pt_index va)))"

definition paging_get_physical_address :: "u64 \<Rightarrow> 'a paging_scheme \<Rightarrow> u64" where
  "paging_get_physical_address va s =
     (case paging_hhdm s of
        None \<Rightarrow> 0
      | Some off \<Rightarrow>
          if va \<ge> off then va - off
          else
          let pml4 = paging_get_cr3 s + off
          in if \<not> is_present (entry_get (kmem s) pml4 (pml4_index va)) then 0
             else let pdp = fst (get_next_table off pml4 (pml4_index va) False s)
                  in if pdp = 0 then 0
                     else if \<not> is_present (entry_get (kmem s) pdp (pdp_index va)) then 0
                     else let pd = fst (get_next_table off pdp (pdp_index va) False s)
                          in if pd = 0 then 0
                             else if \<not> is_present (entry_get (kmem s) pd (pd_index va)) then 0
                             else let pt = fst (get_next_table off pd (pd_index va) False s)
                                  in if pt = 0 then 0
                                     else if \<not> is_present (entry_get (kmem s) pt (pt_index va)) then 0
                                     else entry_get (kmem s) pt (pt_index va) AND PAGE_MASK)"

definition paging_physical_to_virtual :: "u64 \<Rightarrow> 'a paging_scheme \<Rightarrow> u64" where
  "paging_physical_to_virtual pa s =
     (case paging_hhdm s of None \<Rightarrow> pa | Some off \<Rightarrow> pa + off)"

definition paging_virtual_to_physical :: "u64 \<Rightarrow> 'a paging_scheme \<Rightarrow> u64" where
  "paging_virtual_to_physical va s = paging_get_physical_address va s"

end
