(* ===== verification/Paging_Tree.thy ===== *)
theory Paging_Tree
  imports Paging
begin

text \<open>
  The tree of page tables that \<open>paging.c\<close> walks, as a partial map from paths of
  indices to table pointers, with its invariant: every table is a page frame that
  the physical memory manager will not hand out, seen through the direct map, and
  no table is reached by two paths. Under it a write to one entry, or the addition of
  a zeroed table, changes exactly the translations it is meant to change.
\<close>

section \<open>Words and page addresses\<close>

lemma apart8_nat:
  "unat x + 8 \<le> unat y \<Longrightarrow> unat y + 8 \<le> 2 ^ 64 \<Longrightarrow> apart8 x y \<and> apart8 y x"
  unfolding apart8_def using unat_u64_bound [of x] unat_u64_bound [of y]
  by (auto simp: word_le_nat_alt unat_sub_if')

lemma and_mask_page: "unat (a::u64) mod 4096 = 0 \<Longrightarrow> a AND PAGE_MASK = a"
proof (rule bit_word_eqI)
  fix n assume m: "unat a mod 4096 = 0" and n: "n < LENGTH(64)"
  have "take_bit 12 a = 0"
    using m by (simp add: take_bit_eq_mod word_unat_eq_iff unat_mod)
  then have "\<not> bit a k" if "k < 12" for k
    using that by (metis bit_0_eq bit_take_bit_iff bot_apply bot_bool_def)
  moreover have "bit (0xFFF :: u64) k \<longleftrightarrow> k < 12" for k
    using bit_mask_iff [where 'a = u64, of 12 k] n by (auto simp: mask_eq_exp_minus_1)
  ultimately show "bit (a AND PAGE_MASK) n = bit a n"
    using n by (auto simp: PAGE_MASK_def bit_simps)
qed

lemma low_bits_page_mask [simp]:
  "PAGING_PRESENT AND PAGE_MASK = 0" "PAGING_WRITABLE AND PAGE_MASK = 0"
  "PAGING_USER AND PAGE_MASK = 0"
  by (simp_all add: PAGING_PRESENT_def PAGING_WRITABLE_def PAGING_USER_def PAGE_MASK_def)

text \<open>The flags an entry that points to a table may have besides present and writable.\<close>

definition extra_ok :: "u64 \<Rightarrow> bool" where
  "extra_ok x \<longleftrightarrow> x = 0 \<or> x = PAGING_USER"

lemma extra_ok_0 [simp]: "extra_ok 0"
  by (simp add: extra_ok_def)

lemma entry_mask:
  "extra_ok x \<Longrightarrow> unat phys mod 4096 = 0
    \<Longrightarrow> (phys OR PAGING_PRESENT OR PAGING_WRITABLE OR x) AND PAGE_MASK = phys"
  by (auto simp: extra_ok_def bit.conj_disj_distrib2 and_mask_page)

lemma is_present_bit: "is_present e \<longleftrightarrow> bit e 0"
  using and_exp_eq_0_iff_not_bit [of e 0] by (simp add: PAGING_PRESENT_def)

lemma bit_present [simp]: "bit PAGING_PRESENT 0"
  by (simp add: PAGING_PRESENT_def)

section \<open>The tree\<close>

text \<open>
  The table a path of indices leads to. The path is kept leaf first, so that
  descending one more level is a \<open>Cons\<close>.
\<close>

definition next_of :: "u64 \<Rightarrow> u64 \<Rightarrow> u64" where
  "next_of off e = (e AND PAGE_MASK) + off"

primrec tbl :: "bytes \<Rightarrow> u64 \<Rightarrow> u64 \<Rightarrow> u64 list \<Rightarrow> u64 option" where
  "tbl m off root [] = Some root"
| "tbl m off root (i # p) =
     (case tbl m off root p of
        None \<Rightarrow> None
      | Some t \<Rightarrow> (let e = entry_get m t i
                   in if is_present e then Some (next_of off e) else None))"

definition tree_path :: "u64 list \<Rightarrow> bool" where
  "tree_path p \<longleftrightarrow> length p \<le> 3 \<and> (\<forall>i \<in> set p. i < 512)"

definition pt_path :: "u64 \<Rightarrow> u64 list" where
  "pt_path va = [pd_index va, pdp_index va, pml4_index va]"

text \<open>The leaf entry the code finds for an address, when it is present.\<close>

definition leaf :: "bytes \<Rightarrow> u64 \<Rightarrow> u64 \<Rightarrow> u64 \<Rightarrow> u64 option" where
  "leaf m off root va =
     (case tbl m off root (pt_path va) of
        None \<Rightarrow> None
      | Some t \<Rightarrow> (let e = entry_get m t (pt_index va) in if is_present e then Some e else None))"

definition pt_root :: "u64 \<Rightarrow> 'a paging_scheme \<Rightarrow> u64" where
  "pt_root off s = cr3 s + off"

abbreviation table_of :: "u64 \<Rightarrow> 'a paging_scheme \<Rightarrow> u64 list \<Rightarrow> u64 option" where
  "table_of off s \<equiv> tbl (kmem s) off (pt_root off s)"

text \<open>
  The direct map covers the frames of the manager without wrapping around; the
  table \<open>a\<close> lies in frame \<open>f\<close>.
\<close>

definition window_ok :: "u64 \<Rightarrow> 'a paging_scheme \<Rightarrow> bool" where
  "window_ok off s \<longleftrightarrow> 0 < unat off \<and> unat off mod 4096 = 0
     \<and> unat (total_pages s) * 4096 + unat off \<le> 2 ^ 64"

definition in_frame :: "u64 \<Rightarrow> nat \<Rightarrow> u64 \<Rightarrow> bool" where
  "in_frame off f a \<longleftrightarrow> unat a = f * 4096 + unat off"

definition pt_tree :: "u64 \<Rightarrow> 'a paging_scheme \<Rightarrow> bool" where
  "pt_tree off s \<longleftrightarrow>
     (\<forall>p a. tree_path p \<and> table_of off s p = Some a \<longrightarrow> (\<exists>f \<in> taken s. in_frame off f a))
     \<and> (\<forall>p q a. tree_path p \<and> tree_path q \<and> table_of off s p = Some a \<and> table_of off s q = Some a
          \<longrightarrow> p = q)"

section \<open>Entries of tables in different frames\<close>

lemma frame_room:
  assumes "in_frame off f a" and "unat off mod 4096 = 0"
  shows "unat a + 4096 \<le> 2 ^ 64"
proof -
  have "unat a mod 4096 = 0" using assms by (simp add: in_frame_def)
  moreover have "unat a < 2 ^ 64" by (rule unat_u64_bound)
  ultimately have "unat a div 4096 < 2 ^ 52" "unat a = 4096 * (unat a div 4096)" by auto
  then have "4096 * (unat a div 4096) + 4096 \<le> 4096 * 2 ^ 52" by linarith
  with \<open>unat a = _\<close> show ?thesis by simp
qed

lemma slot_addr:
  assumes "in_frame off f a" and "unat off mod 4096 = 0" and "i < 512" and "k < 8"
  shows "unat (a + 8 * i + of_nat k) = unat a + 8 * unat i + k"
proof -
  have i: "unat i < 512" using assms(3) by (simp add: word_less_nat_alt)
  have "unat (8 * i) = 8 * unat i" using i by (simp add: unat_word_ariths)
  moreover have "unat (of_nat k :: u64) = k" using assms(4) by (intro unat_of_nat_u64) simp
  moreover note frame_room [OF assms(1,2)]
  ultimately have "unat (a + 8 * i) = unat a + 8 * unat i" "unat (of_nat k :: u64) = k"
    using i by (simp_all add: unat_add_no_wrap)
  then show ?thesis using frame_room [OF assms(1,2)] i assms(4) by (simp add: unat_add_no_wrap)
qed

lemma in_frame_eq: "in_frame off f a \<Longrightarrow> in_frame off g b \<Longrightarrow> a = b \<longleftrightarrow> f = g"
  by (auto simp: in_frame_def word_unat_eq_iff)

lemma slots_apart:
  assumes a: "in_frame off f a" and b: "in_frame off g b" and off: "unat off mod 4096 = 0"
    and ij: "i < 512" "j < 512" and ne: "a \<noteq> b \<or> i \<noteq> j"
  shows "apart8 (a + 8 * i) (b + 8 * j)"
proof -
  have x: "unat (a + 8 * i) = f * 4096 + unat off + 8 * unat i"
    using slot_addr [OF a off ij(1), of 0] a by (simp add: in_frame_def)
  have y: "unat (b + 8 * j) = g * 4096 + unat off + 8 * unat j"
    using slot_addr [OF b off ij(2), of 0] b by (simp add: in_frame_def)
  have room: "f * 4096 + unat off + 4096 \<le> 2 ^ 64" "g * 4096 + unat off + 4096 \<le> 2 ^ 64"
    using frame_room [OF a off] frame_room [OF b off] a b by (simp_all add: in_frame_def)
  have i: "unat i < 512" "unat j < 512" using ij by (simp_all add: word_less_nat_alt)
  have "f * 4096 + 8 * unat i + 8 \<le> g * 4096 + 8 * unat j
      \<or> g * 4096 + 8 * unat j + 8 \<le> f * 4096 + 8 * unat i"
  proof (cases "f = g")
    case True
    then have "unat i \<noteq> unat j" using ne in_frame_eq [OF a b] by (auto simp: word_unat_eq_iff)
    with True show ?thesis by linarith
  next
    case False
    with i show ?thesis by linarith
  qed
  then consider "unat (a + 8 * i) + 8 \<le> unat (b + 8 * j)" | "unat (b + 8 * j) + 8 \<le> unat (a + 8 * i)"
    unfolding x y by linarith
  then show ?thesis
  proof cases
    case 1
    then show ?thesis using apart8_nat [OF 1] y room(2) i(2) by simp
  next
    case 2
    then show ?thesis using apart8_nat [OF 2] x room(1) i(1) by simp
  qed
qed

lemma entry_get_set_same [simp]: "entry_get (entry_set t i v m) t i = v"
  by (simp add: entry_get_def entry_set_def)

lemma entry_get_set_other:
  "in_frame off f a \<Longrightarrow> in_frame off g b \<Longrightarrow> unat off mod 4096 = 0 \<Longrightarrow> i < 512 \<Longrightarrow> j < 512
     \<Longrightarrow> a \<noteq> b \<or> i \<noteq> j \<Longrightarrow> entry_get (entry_set a i v m) b j = entry_get m b j"
  by (simp add: entry_get_def entry_set_def load64_store64_other slots_apart)

lemma load64_0: "(\<And>k. k < 8 \<Longrightarrow> m (a + of_nat k) = 0) \<Longrightarrow> load64 m a = 0"
  by (rule bit_word_eqI) (simp add: bit_load64)

text \<open>A table cleared with \<open>memset(next, 0, PAGE_SIZE_4K)\<close>.\<close>

lemma entry_get_cleared:
  assumes a: "in_frame off f a" and b: "in_frame off g b" and off: "unat off mod 4096 = 0"
    and j: "j < 512"
  shows "entry_get (snd (memset a 0 PAGE_SIZE m)) b j = (if a = b then 0 else entry_get m b j)"
proof -
  have jn: "unat j < 512" using j by (simp add: word_less_nat_alt)
  have room: "unat a + 4096 \<le> 2 ^ 64" "unat b + 4096 \<le> 2 ^ 64"
    using frame_room [OF a off] frame_room [OF b off] .
  have byte: "b + 8 * j + of_nat k - a < PAGE_SIZE \<longleftrightarrow> a = b" if k: "k < 8" for k
  proof -
    have y: "unat (b + 8 * j + of_nat k) = unat b + 8 * unat j + k"
      by (rule slot_addr [OF b off j k])
    have "b + 8 * j + of_nat k - a < PAGE_SIZE \<longleftrightarrow> unat (b + 8 * j + of_nat k - a) < 4096"
      by (simp add: PAGE_SIZE_def word_less_nat_alt)
    also have "\<dots> \<longleftrightarrow> f = g"
    proof (cases "f < g \<or> g < f")
      case True
      then have "unat a + 4096 \<le> unat b \<or> unat b + 4096 \<le> unat a"
        using a b by (simp add: in_frame_def) linarith
      then have "\<not> unat (b + 8 * j + of_nat k - a) < 4096"
        using room jn k y by (auto simp: unat_sub_if')
      with True show ?thesis by auto
    next
      case False
      then have "a = b" "f = g" using in_frame_eq [OF a b] by simp_all
      have "a \<le> b + 8 * j + of_nat k" unfolding word_le_nat_alt y \<open>a = b\<close> by simp
      from unat_sub_no_wrap [OF this] have "unat (b + 8 * j + of_nat k - a) = 8 * unat j + k"
        unfolding y \<open>a = b\<close> by linarith
      then show ?thesis using jn k \<open>f = g\<close> by linarith
    qed
    finally show ?thesis using in_frame_eq [OF a b] by simp
  qed
  show ?thesis
  proof (cases "a = b")
    case True
    have "load64 (snd (memset a 0 PAGE_SIZE m)) (b + 8 * j) = 0"
    proof (rule load64_0)
      fix k :: nat assume "k < 8"
      then have "b + 8 * j + of_nat k - a < PAGE_SIZE" using byte True by blast
      then show "snd (memset a 0 PAGE_SIZE m) (b + 8 * j + of_nat k) = 0" by (simp only: memset_apply) simp
    qed
    with True show ?thesis by (simp add: entry_get_def)
  next
    case False
    have "load64 (snd (memset a 0 PAGE_SIZE m)) (b + 8 * j) = load64 m (b + 8 * j)"
    proof (rule load64_cong)
      fix k :: nat assume "k < 8"
      then have "\<not> b + 8 * j + of_nat k - a < PAGE_SIZE" using byte False by blast
      then show "snd (memset a 0 PAGE_SIZE m) (b + 8 * j + of_nat k) = m (b + 8 * j + of_nat k)"
        by (simp only: memset_apply if_False)
    qed
    with False show ?thesis by (simp add: entry_get_def)
  qed
qed

section \<open>Growing the tree and writing a leaf\<close>

lemma tree_path_Cons: "tree_path (i # p) \<longleftrightarrow> length p < 3 \<and> i < 512 \<and> tree_path p"
  by (auto simp: tree_path_def)

lemma tree_path_Nil [simp]: "tree_path []"
  by (simp add: tree_path_def)

lemma index_bound [simp]:
  "pml4_index va < 512" "pdp_index va < 512" "pd_index va < 512" "pt_index va < 512"
proof -
  have "x AND 0x1FF < 512" for x :: u64
  proof -
    have "x AND 0x1FF \<le> 0x1FF" by (rule word_and_le1)
    then show ?thesis by (rule le_less_trans) simp
  qed
  then show "pml4_index va < 512" "pdp_index va < 512" "pd_index va < 512" "pt_index va < 512"
    by (simp_all add: pml4_index_def pdp_index_def pd_index_def pt_index_def)
qed

lemma tree_path_pt [simp]: "tree_path (pt_path va)" "length (pt_path va) = 3"
  by (simp_all add: tree_path_def pt_path_def)

text \<open>Memories that agree on the entries the walk reads give the same tables.\<close>

lemma tbl_agree:
  assumes "\<And>q t j. tree_path (j # q) \<Longrightarrow> tbl m off root q = Some t \<Longrightarrow> entry_get m' t j = entry_get m t j"
  shows "tree_path p \<Longrightarrow> tbl m' off root p = tbl m off root p"
proof (induction p)
  case (Cons j q)
  then have IH: "tbl m' off root q = tbl m off root q" by (simp add: tree_path_Cons)
  show ?case
  proof (cases "tbl m off root q")
    case (Some t)
    then show ?thesis using IH assms [OF Cons.prems Some] by simp
  qed (simp add: IH)
qed simp

text \<open>One entry changes from not present to a zeroed table that was not in the tree.\<close>

lemma tbl_grow:
  assumes parent: "tbl m off root q0 = Some t0" and path: "tree_path (i0 # q0)"
    and absent: "\<not> is_present (entry_get m t0 i0)"
    and link: "is_present (entry_get m' t0 i0)" "next_of off (entry_get m' t0 i0) = new"
    and clear: "\<And>j. j < 512 \<Longrightarrow> entry_get m' new j = 0"
    and same: "\<And>q t j. tree_path (j # q) \<Longrightarrow> tbl m off root q = Some t \<Longrightarrow>
                 (j, q) \<noteq> (i0, q0) \<Longrightarrow> entry_get m' t j = entry_get m t j"
  shows "tree_path p \<Longrightarrow> tbl m' off root p = (if p = i0 # q0 then Some new else tbl m off root p)"
proof (induction p)
  case (Cons j q)
  then have q: "tree_path q" and j: "j < 512" by (simp_all add: tree_path_Cons)
  note IH = Cons.IH [OF q]
  have none: "tbl m off root (i0 # q0) = None" using parent absent by simp
  show ?case
  proof (cases "q = i0 # q0")
    case True
    then have "tbl m' off root (j # q) = None" using IH clear [OF j] by simp
    moreover have "tbl m off root (j # q) = None" using True none by simp
    ultimately show ?thesis using True by simp
  next
    case ne: False
    show ?thesis
    proof (cases "tbl m off root q")
      case None
      then have "q \<noteq> q0" using parent by auto
      with None ne IH show ?thesis by simp
    next
      case (Some t)
      show ?thesis
      proof (cases "(j, q) = (i0, q0)")
        case True
        then show ?thesis using IH ne Some parent link by simp
      next
        case False
        then show ?thesis using IH ne Some same [OF Cons.prems Some False] by auto
      qed
    qed
  qed
qed simp

lemma pt_tree_frame:
  "pt_tree off s \<Longrightarrow> tree_path p \<Longrightarrow> table_of off s p = Some a \<Longrightarrow> \<exists>f \<in> taken s. in_frame off f a"
  unfolding pt_tree_def by blast

lemma pt_tree_inj:
  "pt_tree off s \<Longrightarrow> tree_path p \<Longrightarrow> tree_path q \<Longrightarrow> table_of off s p = Some a
     \<Longrightarrow> table_of off s q = Some a \<Longrightarrow> p = q"
  unfolding pt_tree_def by blast

lemma in_frame_nonzero: "in_frame off f a \<Longrightarrow> 0 < unat off \<Longrightarrow> a \<noteq> 0"
  by (auto simp: in_frame_def)

text \<open>Entries of two tables of the tree are apart unless they are the same entry.\<close>

lemma tree_entry_other:
  assumes "pt_tree off s" and "window_ok off s"
    and "tree_path p" "table_of off s p = Some a" and "tree_path q" "table_of off s q = Some b"
    and "i < 512" "j < 512" and "(i, p) \<noteq> (j, q)"
  shows "entry_get (entry_set a i v (kmem s)) b j = entry_get (kmem s) b j"
proof -
  obtain f g where "in_frame off f a" "in_frame off g b"
    using pt_tree_frame [OF assms(1)] assms(3-6) by blast
  moreover have "a \<noteq> b \<or> i \<noteq> j" using pt_tree_inj [OF assms(1)] assms(3-6,9) by blast
  ultimately show ?thesis
    using assms(2,7,8) by (intro entry_get_set_other) (auto simp: window_ok_def)
qed

section \<open>What a step of the code keeps\<close>

text \<open>
  The bits of an entry that the processor takes as a frame address, and the trees on which the
  masks of the code (\<open>~0xFFF\<close>) agree with it: no huge-page bit and no bit above the frame field in
  an entry that points to a table.
\<close>

definition MMU_FRAME :: u64 where
  "MMU_FRAME = 0x000FFFFFFFFFF000"

abbreviation is_huge :: "u64 \<Rightarrow> bool" where
  "is_huge e \<equiv> e AND PAGING_HUGE_PAGE \<noteq> 0"

definition plain_entry :: "u64 \<Rightarrow> bool" where
  "plain_entry e \<longleftrightarrow> e AND MMU_FRAME = e AND PAGE_MASK \<and> \<not> is_huge e"

definition plain_tree :: "u64 \<Rightarrow> 'a paging_scheme \<Rightarrow> bool" where
  "plain_tree off s \<longleftrightarrow> cr3 s AND MMU_FRAME = cr3 s
     \<and> (\<forall>q t i. tree_path (i # q) \<and> table_of off s q = Some t \<and> is_present (entry_get (kmem s) t i)
          \<longrightarrow> plain_entry (entry_get (kmem s) t i))"

lemma page_mask_bit: "bit (a AND PAGE_MASK) n \<longleftrightarrow> bit a n \<and> 12 \<le> n"
proof -
  have "bit (0xFFF :: u64) n \<longleftrightarrow> n < 12"
    using bit_mask_iff [where 'a = "u64", of 12 n] by (auto simp: mask_eq_exp_minus_1)
  then show ?thesis by (auto simp: PAGE_MASK_def bit_simps dest: bit_imp_le_length)
qed

lemma mmu_frame_bit: "bit MMU_FRAME n \<longleftrightarrow> 12 \<le> n \<and> n < 52"
proof -
  have e: "MMU_FRAME = push_bit 12 (mask 40)" by (simp add: MMU_FRAME_def mask_eq_exp_minus_1)
  show ?thesis unfolding e by (auto simp: bit_simps)
qed

lemma new_table_entry_plain:
  assumes x: "extra_ok x" and "unat phys = f * 4096" and "f < 2 ^ 40"
  shows "plain_entry (phys OR PAGING_PRESENT OR PAGING_WRITABLE OR x)"
proof -
  have lt: "unat phys < 2 ^ 52" using assms by simp
  have "take_bit 52 phys = phys" by (simp add: take_bit_eq_mod word_unat_eq_iff unat_mod lt [simplified])
  then have hi: "n < 52" if "bit phys n" for n
    using that by (metis bit_take_bit_iff)
  have al: "phys AND PAGE_MASK = phys" by (rule and_mask_page) (simp add: assms)
  have lo: "\<not> bit phys 7"
  proof
    assume "bit phys 7"
    then have "bit (phys AND PAGE_MASK) 7" by (simp add: al)
    then show False by (simp add: page_mask_bit)
  qed
  define g where "g = PAGING_PRESENT OR PAGING_WRITABLE OR x"
  have "g = take_bit 3 g"
    using x by (auto simp: g_def extra_ok_def PAGING_PRESENT_def PAGING_WRITABLE_def PAGING_USER_def)
  then have flags: "n < 3" if "bit g n" for n
    using that by (metis bit_take_bit_iff)
  have b: "bit (phys OR PAGING_PRESENT OR PAGING_WRITABLE OR x) n \<longleftrightarrow> bit phys n \<or> bit g n" for n
    by (auto simp: g_def bit_or_iff)
  have huge: "bit PAGING_HUGE_PAGE n \<longleftrightarrow> n = 7" for n
  proof -
    have e: "PAGING_HUGE_PAGE = push_bit 7 1" by (simp add: PAGING_HUGE_PAGE_def)
    show ?thesis unfolding e bit_push_bit_iff bit_1_iff by auto
  qed
  have "(phys OR PAGING_PRESENT OR PAGING_WRITABLE OR x) AND PAGING_HUGE_PAGE = 0"
    by (intro bit_word_eqI) (auto simp: bit_and_iff b lo huge dest: flags)
  moreover have "(phys OR PAGING_PRESENT OR PAGING_WRITABLE OR x) AND MMU_FRAME
      = (phys OR PAGING_PRESENT OR PAGING_WRITABLE OR x) AND PAGE_MASK"
    by (intro bit_word_eqI) (auto simp: bit_and_iff [of _ MMU_FRAME] page_mask_bit mmu_frame_bit b dest: hi flags)
  ultimately show ?thesis by (simp add: plain_entry_def)
qed

text \<open>The frames the tables of the tree occupy.\<close>

definition table_frame :: "u64 \<Rightarrow> 'a paging_scheme \<Rightarrow> nat \<Rightarrow> bool" where
  "table_frame off s p \<longleftrightarrow> (\<exists>path a. tree_path path \<and> table_of off s path = Some a \<and> in_frame off p a)"

text \<open>
  The state after an operation on the tree: the invariants hold, no table has gone
  away, no translation has changed, no frame has been given back, and a frame that has become a
  table was not taken before.
\<close>

definition tree_step :: "u64 \<Rightarrow> 'a paging_scheme \<Rightarrow> 'a paging_scheme \<Rightarrow> bool" where
  "tree_step off s t \<longleftrightarrow> pmm_ok t \<and> pt_tree off t \<and> window_ok off t
     \<and> cr3 t = cr3 s \<and> paging_hhdm t = paging_hhdm s
     \<and> (\<forall>p a. tree_path p \<and> table_of off s p = Some a \<longrightarrow> table_of off t p = Some a)
     \<and> (\<forall>va. leaf (kmem t) off (pt_root off t) va = leaf (kmem s) off (pt_root off s) va)
     \<and> taken s \<subseteq> taken t \<and> used_frames s \<subseteq> used_frames t
     \<and> (\<forall>f. table_frame off t f \<longrightarrow> table_frame off s f \<or> f \<notin> taken s)
     \<and> total_pages t = total_pages s
     \<and> (unat (total_pages s) \<le> 2 ^ 40 \<and> plain_tree off s \<longrightarrow> plain_tree off t)"

definition paging_ok :: "u64 \<Rightarrow> 'a paging_scheme \<Rightarrow> bool" where
  "paging_ok off s \<longleftrightarrow> pmm_ok s \<and> pt_tree off s \<and> window_ok off s \<and> paging_hhdm s = Some off"

lemma tree_step_refl: "paging_ok off s \<Longrightarrow> tree_step off s s"
  by (simp add: tree_step_def paging_ok_def)

lemma tree_step_ok: "tree_step off s t \<Longrightarrow> paging_hhdm s = Some off \<Longrightarrow> paging_ok off t"
  by (simp add: tree_step_def paging_ok_def)

lemma tree_step_trans: "tree_step off s t \<Longrightarrow> tree_step off t u \<Longrightarrow> tree_step off s u"
  unfolding tree_step_def by auto

lemma tree_step_table:
  "tree_step off s t \<Longrightarrow> tree_path p \<Longrightarrow> table_of off s p = Some a \<Longrightarrow> table_of off t p = Some a"
  by (simp add: tree_step_def)

end
