(* ===== verification/Paging_Map.thy ===== *)
theory Paging_Map
  imports Paging_Tree
begin

text \<open>
  What \<open>get_next_table\<close>, \<open>paging_map_page\<close> and \<open>paging_unmap_page\<close> do
  to the tree of tables and to the translations of all addresses. The frames for
  new tables come from the frame source interface.
\<close>

section \<open>Frames from the physical memory manager\<close>

lemma alloc_page_frame_fields [frame_simps, simp]:
  "total_pages (snd (pmm_alloc_page s)) = total_pages s"
  "current_memmap (snd (pmm_alloc_page s)) = current_memmap s"
  "bitmap (snd (pmm_alloc_page s)) = bitmap s"
  "pmm.more (snd (pmm_alloc_page s)) = pmm.more s"
  by (simp_all add: pmm_alloc_page_def pmm_alloc_pages_def Let_def)

lemma free_page_frame_fields [frame_simps, simp]:
  "total_pages (pmm_free_page a s) = total_pages s"
  "current_memmap (pmm_free_page a s) = current_memmap s"
  "bitmap (pmm_free_page a s) = bitmap s"
  "pmm.more (pmm_free_page a s) = pmm.more s"
  by (simp_all add: pmm_free_page_def pmm_free_pages_def Let_def)

lemma pmm_more_fields:
  "pmm.more t = pmm.more s \<Longrightarrow> kmem t = kmem s \<and> cr0 t = cr0 s \<and> cr2 t = cr2 s \<and> cr3 t = cr3 s
     \<and> cr4 t = cr4 s \<and> paging_hhdm t = paging_hhdm s \<and> invalidated t = invalidated s
     \<and> paging.more t = paging.more s"
  by (cases s, cases t) simp

lemmas alloc_page_paging [simp] = pmm_more_fields [OF alloc_page_frame_fields(4)]
lemmas free_page_paging [simp] = pmm_more_fields [OF free_page_frame_fields(4)]

lemma paging_update_pmm [simp]:
  "taken (s\<lparr>kmem := m\<rparr>) = taken s" "taken (s\<lparr>invalidated := v\<rparr>) = taken s"
  "pmm_ok (s\<lparr>kmem := m\<rparr>) = pmm_ok s" "pmm_ok (s\<lparr>invalidated := v\<rparr>) = pmm_ok s"
  "used_frames (s\<lparr>kmem := m\<rparr>) = used_frames s" "used_frames (s\<lparr>invalidated := v\<rparr>) = used_frames s"
  "window_ok off (s\<lparr>kmem := m\<rparr>) = window_ok off s"
  "window_ok off (s\<lparr>invalidated := v\<rparr>) = window_ok off s"
  "pt_root off (s\<lparr>kmem := m\<rparr>) = pt_root off s" "pt_root off (s\<lparr>invalidated := v\<rparr>) = pt_root off s"
  by (simp_all add: taken_def allocatable_def memmap_entries_def page_bit_def pmm_ok_def pmm_wf_def
      used_frames_def window_ok_def pt_root_def)

lemma alloc_page_window [simp]: "window_ok off (snd (pmm_alloc_page s)) = window_ok off s"
  "pt_root off (snd (pmm_alloc_page s)) = pt_root off s"
  by (simp_all add: window_ok_def pt_root_def)

lemma free_page_window [simp]: "window_ok off (pmm_free_page a s) = window_ok off s"
  "pt_root off (pmm_free_page a s) = pt_root off s"
  by (simp_all add: window_ok_def pt_root_def)

text \<open>A fresh frame, as seen through the direct map.\<close>

lemma alloc_page_in_window:
  assumes ok: "pmm_ok s" and win: "window_ok off s" and a: "fst (pmm_alloc_page s) \<noteq> 0"
  obtains f where "unat (fst (pmm_alloc_page s)) = f * 4096"
    and "in_frame off f (fst (pmm_alloc_page s) + off)"
    and "f \<notin> taken s" and "taken (snd (pmm_alloc_page s)) = insert f (taken s)"
proof -
  obtain f where f: "unat (fst (pmm_alloc_page s)) = f * 4096" "f \<notin> taken s"
      "taken (snd (pmm_alloc_page s)) = insert f (taken s)"
    using avail.alloc_frame [OF ok a] by blast
  have "f < unat (total_pages s)" using f(2) by (simp add: taken_def allocatable_def)
  then have "f * 4096 + 4096 \<le> unat (total_pages s) * 4096" by linarith
  then have "f * 4096 + unat off < 2 ^ 64" using win unfolding window_ok_def by linarith
  then have "in_frame off f (fst (pmm_alloc_page s) + off)"
    using f(1) by (simp add: in_frame_def unat_add_no_wrap)
  with f show thesis by (intro that)
qed

section \<open>One level down\<close>

declare tbl.simps(2) [simp del]

text \<open>The memory after a table has been added below entry \<open>i\<close> of \<open>t\<close>.\<close>

definition add_table :: "u64 \<Rightarrow> u64 \<Rightarrow> u64 \<Rightarrow> u64 \<Rightarrow> u64 \<Rightarrow> bytes \<Rightarrow> bytes" where
  "add_table x t i phys new m = entry_set t i (phys OR PAGING_PRESENT OR PAGING_WRITABLE OR x)
     (snd (memset new 0 PAGE_SIZE m))"

lemma add_table_entries:
  assumes tree: "pt_tree off s" and win: "window_ok off s"
    and q: "tree_path q" "table_of off s q = Some t" and i: "i < 512"
    and f: "in_frame off f new" "f \<notin> taken s"
    and p: "tree_path p" "table_of off s p = Some a" "j < 512"
  shows "entry_get (add_table x t i phys new (kmem s)) a j
     = (if (j, p) = (i, q) then phys OR PAGING_PRESENT OR PAGING_WRITABLE OR x else entry_get (kmem s) a j)"
proof -
  have off: "unat off mod 4096 = 0" using win by (simp add: window_ok_def)
  obtain g where g: "in_frame off g t" "g \<in> taken s" using pt_tree_frame [OF tree q] by blast
  obtain h where h: "in_frame off h a" "h \<in> taken s" using pt_tree_frame [OF tree p(1,2)] by blast
  have "new \<noteq> a" using in_frame_eq [OF f(1) h(1)] f(2) h(2) by auto
  then have keep: "entry_get (snd (memset new 0 PAGE_SIZE (kmem s))) a j = entry_get (kmem s) a j"
    using entry_get_cleared [OF f(1) h(1) off p(3)] by simp
  show ?thesis
  proof (cases "(j, p) = (i, q)")
    case True
    with q p show ?thesis by (simp add: add_table_def)
  next
    case False
    then have "t \<noteq> a \<or> i \<noteq> j" using pt_tree_inj [OF tree q(1) p(1) q(2)] p(2) by blast
    with False keep show ?thesis
      using entry_get_set_other [OF g(1) h(1) off i p(3)] unfolding add_table_def by auto
  qed
qed

lemma add_table_clear:
  assumes tree: "pt_tree off s" and win: "window_ok off s"
    and q: "tree_path q" "table_of off s q = Some t" and i: "i < 512"
    and f: "in_frame off f new" "f \<notin> taken s" and j: "j < 512"
  shows "entry_get (add_table x t i phys new (kmem s)) new j = 0"
proof -
  have off: "unat off mod 4096 = 0" using win by (simp add: window_ok_def)
  obtain g where g: "in_frame off g t" "g \<in> taken s" using pt_tree_frame [OF tree q] by blast
  have "t \<noteq> new" using in_frame_eq [OF g(1) f(1)] f(2) g(2) by auto
  then show ?thesis
    using entry_get_set_other [OF g(1) f(1) off i j] entry_get_cleared [OF f(1) f(1) off j]
    by (simp add: add_table_def)
qed

lemma add_table_tbl:
  assumes x: "extra_ok x" and tree: "pt_tree off s" and win: "window_ok off s"
    and q: "tree_path (i # q)" "table_of off s q = Some t"
    and absent: "\<not> is_present (entry_get (kmem s) t i)"
    and f: "in_frame off f (phys + off)" "f \<notin> taken s" and phys: "unat phys mod 4096 = 0"
    and p: "tree_path p"
  shows "tbl (add_table x t i phys (phys + off) (kmem s)) off (pt_root off s) p
     = (if p = i # q then Some (phys + off) else table_of off s p)"
proof -
  have q': "tree_path q" and i: "i < 512" using q(1) by (simp_all add: tree_path_Cons)
  note at = add_table_entries [OF tree win q' q(2) i f]
  show ?thesis
  proof (rule tbl_grow [OF q(2) q(1) absent _ _ _ _ p])
    show "is_present (entry_get (add_table x t i phys (phys + off) (kmem s)) t i)"
      by (simp add: at [OF q' q(2) i] is_present_bit bit_or_iff)
    show "next_of off (entry_get (add_table x t i phys (phys + off) (kmem s)) t i) = phys + off"
      by (simp add: at [OF q' q(2) i] next_of_def entry_mask [OF x phys])
    show "entry_get (add_table x t i phys (phys + off) (kmem s)) (phys + off) j = 0" if "j < 512" for j
      by (rule add_table_clear [OF tree win q' q(2) i f that])
  next
    fix r a j
    assume "tree_path (j # r)" "table_of off s r = Some a" "(j, r) \<noteq> (i, q)"
    then show "entry_get (add_table x t i phys (phys + off) (kmem s)) a j = entry_get (kmem s) a j"
      using at [of r a j x phys] by (auto simp: tree_path_Cons)
  qed
qed

lemma pt_path_not_short: "tree_path (i # q) \<Longrightarrow> pt_path va \<noteq> q"
  using tree_path_pt(2) [of va] by (auto simp: tree_path_Cons)

lemma add_table_step:
  assumes x: "extra_ok x" and ok: "paging_ok off s" and a: "fst (pmm_alloc_page s) \<noteq> 0"
    and q: "tree_path (i # q)" "table_of off s q = Some t"
    and absent: "\<not> is_present (entry_get (kmem s) t i)"
  defines "phys \<equiv> fst (pmm_alloc_page s)"
  defines "s' \<equiv> (snd (pmm_alloc_page s))\<lparr>kmem := add_table x t i phys (phys + off) (kmem s)\<rparr>"
  shows "tree_step off s s'" and "table_of off s' (i # q) = Some (phys + off)" and "phys + off \<noteq> 0"
proof -
  have pok: "pmm_ok s" and tree: "pt_tree off s" and win: "window_ok off s"
    using ok by (simp_all add: paging_ok_def)
  obtain f where f: "unat phys = f * 4096" "in_frame off f (phys + off)" "f \<notin> taken s"
      "taken (snd (pmm_alloc_page s)) = insert f (taken s)"
    unfolding phys_def using alloc_page_in_window [OF pok win a] by blast
  have q': "tree_path q" "i < 512" using q(1) by (simp_all add: tree_path_Cons)
  have al: "unat phys mod 4096 = 0" by (simp add: f(1))
  note tb = add_table_tbl [OF x tree win q absent f(2,3) al]
  have tbl': "table_of off s' p = (if p = i # q then Some (phys + off) else table_of off s p)"
    if "tree_path p" for p using tb [OF that] by (simp add: s'_def)
  then show "table_of off s' (i # q) = Some (phys + off)" using tbl' [OF q(1)] by (simp only: if_True refl)
  show "phys + off \<noteq> 0" using in_frame_nonzero [OF f(2)] win by (simp add: window_ok_def)
  have none: "table_of off s (i # q) = None" using q(2) absent by (simp add: tbl.simps(2))
  have tk: "taken s' = insert f (taken s)" by (simp add: s'_def f(4))
  have fresh: "a \<noteq> phys + off" if "tree_path p" "table_of off s p = Some a" for p a
    using pt_tree_frame [OF tree that] f(2,3) in_frame_eq by blast
  have tree': "pt_tree off s'"
    unfolding pt_tree_def tk
  proof (intro conjI allI impI)
    fix p a assume "tree_path p \<and> table_of off s' p = Some a"
    then show "\<exists>g \<in> insert f (taken s). in_frame off g a"
      using tbl' [of p] pt_tree_frame [OF tree, of p a] f(2) by (auto split: if_splits)
  next
    fix p r a
    assume pr: "tree_path p \<and> tree_path r \<and> table_of off s' p = Some a \<and> table_of off s' r = Some a"
    have new_iff: "a = phys + off \<longleftrightarrow> x = i # q" if "tree_path x" "table_of off s' x = Some a" for x
      using tbl' [OF that(1)] that(2) fresh [OF that(1), of a] by (cases "x = i # q") simp_all
    show "p = r"
    proof (cases "a = phys + off")
      case True
      with new_iff pr show ?thesis by blast
    next
      case False
      with new_iff pr tbl' have "table_of off s p = Some a" "table_of off s r = Some a" by force+
      with pr pt_tree_inj [OF tree] show ?thesis by blast
    qed
  qed
  have leaf': "leaf (kmem s') off (pt_root off s') va = leaf (kmem s) off (pt_root off s) va" for va
  proof (cases "pt_path va = i # q")
    case True
    have "entry_get (kmem s') (phys + off) (pt_index va) = 0"
      using add_table_clear [OF tree win q'(1) q(2) q'(2) f(2,3) index_bound(4)] by (simp add: s'_def)
    moreover have "table_of off s' (pt_path va) = Some (phys + off)" using True tbl' [OF q(1)] by simp
    moreover have "table_of off s (pt_path va) = None" using True none by simp
    ultimately show ?thesis by (simp add: leaf_def)
  next
    case False
    then have same: "table_of off s' (pt_path va) = table_of off s (pt_path va)"
      using tbl' [of "pt_path va"] by simp
    show ?thesis
    proof (cases "table_of off s (pt_path va)")
      case (Some a)
      have "pt_path va \<noteq> q" by (rule pt_path_not_short [OF q(1)])
      then have "entry_get (kmem s') a (pt_index va) = entry_get (kmem s) a (pt_index va)"
        using add_table_entries [OF tree win q'(1) q(2) q'(2) f(2,3) tree_path_pt(1) Some index_bound(4), of x phys]
        by (simp add: s'_def)
      with same Some show ?thesis by (simp add: leaf_def)
    qed (simp add: leaf_def same)
  qed
  have "pmm_ok s'" using avail.alloc_ok [OF pok] by (simp add: s'_def)
  moreover have "window_ok off s'" using win by (simp add: s'_def)
  moreover have "cr3 s' = cr3 s" "paging_hhdm s' = paging_hhdm s" by (simp_all add: s'_def)
  moreover have "table_of off s' p = Some a" if "tree_path p" "table_of off s p = Some a" for p a
    using tbl' [OF that(1)] none that by auto
  moreover have "taken s \<subseteq> taken s'" by (auto simp: tk)
  moreover have "used_frames s \<subseteq> used_frames s'" using pf.alloc_owned [OF pok] by (simp add: s'_def)
  moreover have "table_frame off s g \<or> g \<notin> taken s" if g: "table_frame off s' g" for g
  proof -
    obtain p b where p: "tree_path p" "table_of off s' p = Some b" "in_frame off g b"
      using g unfolding table_frame_def by blast
    show ?thesis
    proof (cases "p = i # q")
      case True
      with p tbl' [OF p(1)] f(2) have "g = f" using in_frame_eq by fastforce
      with f(3) show ?thesis by simp
    next
      case False
      with p tbl' [OF p(1)] show ?thesis unfolding table_frame_def by auto
    qed
  qed
  moreover have "total_pages s' = total_pages s" by (simp add: s'_def)
  moreover have "plain_tree off s'" if low: "unat (total_pages s) \<le> 2 ^ 40" and pl: "plain_tree off s"
    unfolding plain_tree_def
  proof (intro conjI allI impI)
    show "cr3 s' AND MMU_FRAME = cr3 s'" using pl by (simp add: plain_tree_def s'_def)
  next
    fix p b j
    assume pb: "tree_path (j # p) \<and> table_of off s' p = Some b \<and> is_present (entry_get (kmem s') b j)"
    then have p: "tree_path p" "j < 512" by (simp_all add: tree_path_Cons)
    show "plain_entry (entry_get (kmem s') b j)"
    proof (cases "p = i # q")
      case True
      then have "b = phys + off" using pb tbl' [OF p(1)] by simp
      then have "entry_get (kmem s') b j = 0"
        using add_table_clear [OF tree win q'(1) q(2) q'(2) f(2,3) p(2)] by (simp add: s'_def)
      with pb show ?thesis by simp
    next
      case False
      then have b: "table_of off s p = Some b" using pb tbl' [OF p(1)] by simp
      have e: "entry_get (kmem s') b j = (if (j, p) = (i, q) then phys OR PAGING_PRESENT OR PAGING_WRITABLE OR x
          else entry_get (kmem s) b j)"
        using add_table_entries [OF tree win q'(1) q(2) q'(2) f(2,3) p(1) b p(2), of x phys] by (simp add: s'_def)
      have "f < unat (total_pages s)" using f(3) by (simp add: taken_def allocatable_def)
      with low have "plain_entry (phys OR PAGING_PRESENT OR PAGING_WRITABLE OR x)"
        by (intro new_table_entry_plain [OF x f(1)]) simp
      then show ?thesis using e pb pl b unfolding plain_tree_def by (metis (no_types, lifting))
    qed
  qed
  ultimately show "tree_step off s s'" using tree' leaf' unfolding tree_step_def by blast
qed

lemma alloc_page_step:
  assumes ok: "paging_ok off s" and a: "fst (pmm_alloc_page s) = 0"
  shows "tree_step off s (snd (pmm_alloc_page s))"
proof -
  have pok: "pmm_ok s" and "pt_tree off s" and "window_ok off s"
    using ok by (simp_all add: paging_ok_def)
  moreover have "pmm_ok (snd (pmm_alloc_page s))" "taken (snd (pmm_alloc_page s)) = taken s"
    using avail.alloc_refused [OF pok a] by simp_all
  moreover have "used_frames (snd (pmm_alloc_page s)) = used_frames s"
    using pf.alloc_refused [OF pok a] by simp
  moreover have "plain_tree off s \<Longrightarrow> plain_tree off (snd (pmm_alloc_page s))"
    unfolding plain_tree_def by simp blast
  ultimately show ?thesis by (simp add: tree_step_def pt_tree_def table_frame_def)
qed

text \<open>
  One level of a mapping: the table below an entry, created when it is missing, with the extra flags
  \<open>x\<close> in the new entry. \<open>get_next_table\<close> creates with none; \<open>vmm_map_page\<close> adds the user bit.
\<close>

definition sub_table :: "u64 \<Rightarrow> u64 \<Rightarrow> u64 \<Rightarrow> u64 \<Rightarrow> 'a paging_scheme \<Rightarrow> u64 \<times> 'a paging_scheme" where
  "sub_table x off t i s =
     (if is_present (entry_get (kmem s) t i) then (next_of off (entry_get (kmem s) t i), s)
      else let (phys, s1) = pmm_alloc_page s
           in if phys = 0 then (0, s1)
              else (phys + off, s1\<lparr>kmem := add_table x t i phys (phys + off) (kmem s1)\<rparr>))"

lemma get_next_table_sub: "get_next_table off t i True s = sub_table 0 off t i s"
  by (simp add: get_next_table_def sub_table_def next_of_def add_table_def Let_def split: prod.split)

lemma sub_table_step:
  assumes x: "extra_ok x" and ok: "paging_ok off s" and q: "tree_path (i # q)" "table_of off s q = Some t"
  shows "tree_step off s (snd (sub_table x off t i s))"
    and "fst (sub_table x off t i s) \<noteq> 0 \<Longrightarrow>
      table_of off (snd (sub_table x off t i s)) (i # q) = Some (fst (sub_table x off t i s))"
proof -
  let ?e = "entry_get (kmem s) t i"
  have "tree_step off s (snd (sub_table x off t i s))
    \<and> (fst (sub_table x off t i s) \<noteq> 0 \<longrightarrow>
      table_of off (snd (sub_table x off t i s)) (i # q) = Some (fst (sub_table x off t i s)))"
  proof (cases "is_present ?e")
    case True
    then show ?thesis using tree_step_refl [OF ok] q(2) by (simp add: sub_table_def tbl.simps(2) Let_def)
  next
    case False
    obtain phys s1 where al: "pmm_alloc_page s = (phys, s1)" by fastforce
    show ?thesis
    proof (cases "phys = 0")
      case True
      then show ?thesis using False alloc_page_step [OF ok] al by (simp add: sub_table_def)
    next
      case ne: False
      have s1: "kmem s1 = kmem s" using alloc_page_paging [of s] al by simp
      have "sub_table x off t i s
          = (phys + off, s1\<lparr>kmem := add_table x t i phys (phys + off) (kmem s)\<rparr>)"
        using False ne al s1 by (simp add: sub_table_def add_table_def Let_def)
      then show ?thesis using add_table_step [OF x ok _ q False] ne al by simp
    qed
  qed
  then show "tree_step off s (snd (sub_table x off t i s))"
    and "fst (sub_table x off t i s) \<noteq> 0 \<Longrightarrow>
      table_of off (snd (sub_table x off t i s)) (i # q) = Some (fst (sub_table x off t i s))"
    by simp_all
qed

lemma get_next_table_lookup:
  assumes ok: "paging_ok off s" and q: "tree_path (i # q)" "table_of off s q = Some t"
  shows "snd (get_next_table off t i False s) = s"
    and "fst (get_next_table off t i False s) = (case table_of off s (i # q) of None \<Rightarrow> 0 | Some a \<Rightarrow> a)"
  using q(2) by (simp_all add: get_next_table_def next_of_def Let_def tbl.simps(2))

section \<open>Writing a leaf entry\<close>

definition same_page :: "u64 \<Rightarrow> u64 \<Rightarrow> bool" where
  "same_page va va' \<longleftrightarrow> pt_path va = pt_path va' \<and> pt_index va = pt_index va'"

lemma same_page_refl [simp]: "same_page va va"
  by (simp add: same_page_def)

lemma set_leaf_tbl:
  fixes off :: u64 and s :: "'a paging_scheme"
  assumes tree: "pt_tree off s" and win: "window_ok off s"
    and pt: "table_of off s (pt_path va) = Some pt"
  shows "tree_path p \<Longrightarrow> tbl (entry_set pt (pt_index va) v (kmem s)) off (pt_root off s) p = table_of off s p"
proof (rule tbl_agree)
  fix q t j
  assume q: "tree_path (j # q)" and t: "table_of off s q = Some t"
  have ne: "(pt_index va, pt_path va) \<noteq> (j, q)" using pt_path_not_short [OF q] by auto
  have "tree_path q" "j < 512" using q by (simp_all add: tree_path_Cons)
  then show "entry_get (entry_set pt (pt_index va) v (kmem s)) t j = entry_get (kmem s) t j"
    by (intro tree_entry_other [OF tree win tree_path_pt(1) pt _ t index_bound(4) _ ne])
qed

lemma set_leaf_leaf:
  fixes off :: u64 and s :: "'a paging_scheme"
  assumes tree: "pt_tree off s" and win: "window_ok off s"
    and pt: "table_of off s (pt_path va) = Some pt"
  shows "leaf (entry_set pt (pt_index va) v (kmem s)) off (pt_root off s) va'
     = (if same_page va' va then (if is_present v then Some v else None)
        else leaf (kmem s) off (pt_root off s) va')"
proof (cases "table_of off s (pt_path va')")
  case None
  then have "\<not> same_page va' va" using pt by (auto simp: same_page_def)
  with None show ?thesis by (simp add: leaf_def set_leaf_tbl [OF tree win pt])
next
  case (Some t)
  have tb: "tbl (entry_set pt (pt_index va) v (kmem s)) off (pt_root off s) (pt_path va') = Some t"
    by (simp add: set_leaf_tbl [OF tree win pt] Some)
  show ?thesis
  proof (cases "same_page va' va")
    case True
    with Some pt have "t = pt" by (simp add: same_page_def)
    with True tb show ?thesis by (simp add: leaf_def same_page_def)
  next
    case False
    then have ne: "(pt_index va, pt_path va) \<noteq> (pt_index va', pt_path va')" by (auto simp: same_page_def)
    have "entry_get (entry_set pt (pt_index va) v (kmem s)) t (pt_index va') = entry_get (kmem s) t (pt_index va')"
      by (rule tree_entry_other [OF tree win tree_path_pt(1) pt tree_path_pt(1) Some index_bound(4,4) ne])
    with False Some tb show ?thesis by (simp add: leaf_def)
  qed
qed

lemma alloc_page_exhausted:
  assumes ok: "pmm_ok s" and a: "fst (pmm_alloc_page s) = 0"
  shows "taken s = UNIV"
proof -
  have "\<not> allocatable s k" for k
  proof (cases "unat (total_pages s) = 0")
    case False
    have "fst (pmm_alloc_pages 1 s) = 0" using a by (simp add: pmm_alloc_page_def)
    with alloc_pages_fail [of 1 s] ok False have "\<not> free_run s k (unat (1::u64))"
      by (simp add: pmm_ok_def)
    then show ?thesis by (auto simp: free_run_def less_Suc_eq_le dest!: le_antisym)
  qed (simp add: allocatable_def)
  then show ?thesis by (simp add: taken_def)
qed

lemma sub_table_exhausted:
  assumes x: "extra_ok x" and ok: "paging_ok off s" and q: "tree_path (i # q)" "table_of off s q = Some t"
    and z: "fst (sub_table x off t i s) = 0"
  shows "taken (snd (sub_table x off t i s)) = UNIV"
proof (cases "is_present (entry_get (kmem s) t i)")
  case True
  then have "table_of off s (i # q) = Some 0"
    using q(2) z by (simp add: sub_table_def tbl.simps(2))
  with ok pt_tree_frame [of off s "i # q" 0] q(1) have "\<exists>f. in_frame off f 0"
    by (auto simp: paging_ok_def)
  with ok show ?thesis by (auto simp: in_frame_def paging_ok_def window_ok_def)
next
  case False
  have pok: "pmm_ok s" using ok by (simp add: paging_ok_def)
  have a: "fst (pmm_alloc_page s) = 0"
  proof (rule ccontr)
    assume ne: "fst (pmm_alloc_page s) \<noteq> 0"
    from add_table_step(3) [OF x ok ne q False] z False ne show False
      by (simp add: sub_table_def Let_def split: prod.splits)
  qed
  then have "snd (sub_table x off t i s) = snd (pmm_alloc_page s)"
    using False by (cases "pmm_alloc_page s") (simp add: sub_table_def)
  moreover have "taken (snd (pmm_alloc_page s)) = taken s"
    using avail.alloc_refused [OF pok a] by simp
  ultimately show ?thesis using alloc_page_exhausted [OF pok a] by simp
qed

text \<open>A call takes at most one frame, and none when it fails.\<close>

lemma sub_table_taken:
  assumes x: "extra_ok x" and ok: "paging_ok off s"
  obtains A where "finite A" "card A \<le> (if fst (sub_table x off t i s) = 0 then 0 else 1)"
    and "taken (snd (sub_table x off t i s)) = taken s \<union> A"
proof (cases "is_present (entry_get (kmem s) t i)")
  case True
  then show thesis using that [of "{}"] by (simp add: sub_table_def)
next
  case False
  have pok: "pmm_ok s" and win: "window_ok off s" using ok by (simp_all add: paging_ok_def)
  obtain phys s1 where al: "pmm_alloc_page s = (phys, s1)" by fastforce
  show thesis
  proof (cases "phys = 0")
    case True
    then show thesis using that [of "{}"] False avail.alloc_refused [OF pok] al
      by (simp add: sub_table_def)
  next
    case ne: False
    obtain f where f: "in_frame off f (phys + off)" "taken s1 = insert f (taken s)"
      using alloc_page_in_window [OF pok win] ne al by auto
    have "phys + off \<noteq> 0" using in_frame_nonzero [OF f(1)] win by (simp add: window_ok_def)
    then show thesis using that [of "{f}"] False ne al f(2)
      by (simp add: sub_table_def Let_def)
  qed
qed

section \<open>Mapping a page\<close>

text \<open>The three levels in a row: the state reached, and the page table when there is one.\<close>

lemma table_root [simp]: "table_of off s [] = Some (pt_root off s)"
  by simp

definition map_walk :: "u64 \<Rightarrow> u64 \<Rightarrow> u64 \<Rightarrow> u64 \<Rightarrow> 'a paging_scheme \<Rightarrow> bool \<times> 'a paging_scheme" where
  "map_walk x off va e s =
     (let (pdp, s1) = sub_table x off (pt_root off s) (pml4_index va) s
      in if pdp = 0 then (False, s1)
         else let (pd, s2) = sub_table x off pdp (pdp_index va) s1
              in if pd = 0 then (False, s2)
                 else let (pt, s3) = sub_table x off pd (pd_index va) s2
                      in if pt = 0 then (False, s3)
                         else (True, s3\<lparr>kmem := entry_set pt (pt_index va) e (kmem s3)\<rparr>))"

lemma walk_levels:
  assumes x: "extra_ok x" and ok: "paging_ok off s"
  obtains (full) t where "map_walk x off va e s = (False, t)" "tree_step off s t"
      "\<exists>A. finite A \<and> card A \<le> 2 \<and> taken s \<union> A = UNIV \<and> taken t = UNIV"
  | (mapped) pt t where "map_walk x off va e s = (True, t\<lparr>kmem := entry_set pt (pt_index va) e (kmem t)\<rparr>)"
      "tree_step off s t" "table_of off t (pt_path va) = Some pt"
      "\<exists>A. finite A \<and> card A \<le> 3 \<and> taken t = taken s \<union> A"
proof -
  have hh: "paging_hhdm s = Some off" using ok by (simp add: paging_ok_def)
  have path: "tree_path [pml4_index va]" "tree_path [pdp_index va, pml4_index va]"
      "tree_path (pt_path va)"
    by (simp_all add: tree_path_def pt_path_def)
  obtain pdp s1 where g1: "sub_table x off (pt_root off s) (pml4_index va) s = (pdp, s1)" by fastforce
  note c1 = sub_table_step [OF x ok path(1) table_root, unfolded g1, simplified]
    and e1 = sub_table_exhausted [OF x ok path(1) table_root, unfolded g1, simplified]
  have ok1: "paging_ok off s1" using tree_step_ok [OF c1(1) hh] .
  obtain A1 where A1: "finite A1" "card A1 \<le> (if pdp = 0 then 0 else 1)" "taken s1 = taken s \<union> A1"
    using sub_table_taken [OF x ok, of "pt_root off s" "pml4_index va"] g1 by auto
  show thesis
  proof (cases "pdp = 0")
    case True
    then have "\<exists>A. finite A \<and> card A \<le> 2 \<and> taken s \<union> A = UNIV \<and> taken s1 = UNIV"
      using e1 A1 by (intro exI [of _ A1]) simp
    with True show thesis using full [of s1] c1(1) g1
      by (simp add: map_walk_def)
  next
    case p1: False
    obtain pd s2 where g2: "sub_table x off pdp (pdp_index va) s1 = (pd, s2)" by fastforce
    note c2 = sub_table_step [OF x ok1 path(2) c1(2) [OF p1], unfolded g2, simplified]
      and e2 = sub_table_exhausted [OF x ok1 path(2) c1(2) [OF p1], unfolded g2, simplified]
    obtain A2 where A2: "finite A2" "card A2 \<le> (if pd = 0 then 0 else 1)" "taken s2 = taken s1 \<union> A2"
      using sub_table_taken [OF x ok1, of pdp "pdp_index va"] g2 by auto
    have s2: "tree_step off s s2" using tree_step_trans [OF c1(1) c2(1)] .
    have ok2: "paging_ok off s2" using tree_step_ok [OF s2 hh] .
    show thesis
    proof (cases "pd = 0")
      case True
      then have "\<exists>A. finite A \<and> card A \<le> 2 \<and> taken s \<union> A = UNIV \<and> taken s2 = UNIV"
        using e2 A1 A2 p1 by (intro exI [of _ "A1"]) simp
      with True show thesis using full [of s2] s2 g1 g2 p1
        by (simp add: map_walk_def)
    next
      case p2: False
      obtain pt s3 where g3: "sub_table x off pd (pd_index va) s2 = (pt, s3)" by fastforce
      note c3 = sub_table_step [OF x ok2 path(3) [unfolded pt_path_def] c2(2) [OF p2], unfolded g3, simplified]
        and e3 = sub_table_exhausted [OF x ok2 path(3) [unfolded pt_path_def] c2(2) [OF p2], unfolded g3, simplified]
      have s3: "tree_step off s s3" using tree_step_trans [OF s2 c3(1)] .
      show thesis
      proof (cases "pt = 0")
        case True
        then have "taken s3 = taken s \<union> (A1 \<union> A2)"
          using sub_table_taken [OF x ok2, of pd "pd_index va"] g3 A1 A2 by auto
        moreover have "card (A1 \<union> A2) \<le> 2" using card_Un_le [of A1 A2] A1 A2 p1 p2 by simp
        ultimately have "\<exists>A. finite A \<and> card A \<le> 2 \<and> taken s \<union> A = UNIV \<and> taken s3 = UNIV"
          using e3 A1 A2 True by (intro exI [of _ "A1 \<union> A2"]) simp
        with True show thesis using full [of s3] s3 g1 g2 g3 p1 p2
          by (simp add: map_walk_def)
      next
        case p3: False
        obtain A3 where A3: "finite A3" "card A3 \<le> 1" "taken s3 = taken s2 \<union> A3"
          using sub_table_taken [OF x ok2, of pd "pd_index va"] g3 p3 by auto
        have "card (A1 \<union> A2 \<union> A3) \<le> 3"
          using card_Un_le [of A1 A2] card_Un_le [of "A1 \<union> A2" A3] A1 A2 A3 p1 p2 by simp
        then have "\<exists>A. finite A \<and> card A \<le> 3 \<and> taken s3 = taken s \<union> A"
          using A1 A2 A3 by (intro exI [of _ "A1 \<union> A2 \<union> A3"]) (simp add: Un_assoc)
        with p3 show thesis using mapped [of pt s3] c3(2) s3 g1 g2 g3 p1 p2
          by (simp add: map_walk_def pt_path_def)
      qed
    qed
  qed
qed

text \<open>\<open>paging_map_page\<close> is this walk without extra flags, and the invalidation of the page.\<close>

lemma paging_map_page_walk:
  assumes "paging_hhdm s = Some off"
  shows "paging_map_page va pa flags s
    = (case map_walk 0 off va (pa OR flags OR PAGING_PRESENT) s of
         (r, t) \<Rightarrow> (r, if r then paging_invalidate_tlb va t else t))"
  using assms by (simp add: paging_map_page_def map_walk_def pt_root_def paging_get_cr3_def get_next_table_sub
      split: prod.split)

lemma map_levels:
  assumes ok: "paging_ok off s"
  obtains (full) t where "paging_map_page va pa flags s = (False, t)" "tree_step off s t"
      "\<exists>A. finite A \<and> card A \<le> 2 \<and> taken s \<union> A = UNIV \<and> taken t = UNIV"
  | (mapped) pt t where "paging_map_page va pa flags s = (True, paging_invalidate_tlb va
        (t\<lparr>kmem := entry_set pt (pt_index va) (pa OR flags OR PAGING_PRESENT) (kmem t)\<rparr>))"
      "tree_step off s t" "table_of off t (pt_path va) = Some pt"
      "\<exists>A. finite A \<and> card A \<le> 3 \<and> taken t = taken s \<union> A"
proof -
  have hh: "paging_hhdm s = Some off" using ok by (simp add: paging_ok_def)
  note w = paging_map_page_walk [OF hh, of va pa flags]
  show thesis
  proof (rule walk_levels [OF extra_ok_0 ok, of va "pa OR flags OR PAGING_PRESENT"], goal_cases)
    case (1 t)
    show thesis by (rule full [of t]) (use 1 w in simp_all)
  next
    case (2 t pt)
    show thesis by (rule mapped [of t pt]) (use 2 w in simp_all)
  qed
qed

lemma paging_invalidate_simps [simp]:
  "kmem (paging_invalidate_tlb va s) = kmem s" "cr3 (paging_invalidate_tlb va s) = cr3 s"
  "paging_hhdm (paging_invalidate_tlb va s) = paging_hhdm s"
  "invalidated (paging_invalidate_tlb va s) = invalidated s @ [va]"
  "taken (paging_invalidate_tlb va s) = taken s" "pmm_ok (paging_invalidate_tlb va s) = pmm_ok s"
  "used_frames (paging_invalidate_tlb va s) = used_frames s"
  "window_ok off (paging_invalidate_tlb va s) = window_ok off s"
  "pt_root off (paging_invalidate_tlb va s) = pt_root off s"
  "paging_ok off (paging_invalidate_tlb va s) = paging_ok off s"
  "pt_tree off (paging_invalidate_tlb va s) = pt_tree off s"
  by (simp_all add: paging_invalidate_tlb_def paging_ok_def pt_tree_def)

abbreviation translation :: "u64 \<Rightarrow> 'a paging_scheme \<Rightarrow> u64 \<Rightarrow> u64 option" where
  "translation off s \<equiv> leaf (kmem s) off (pt_root off s)"

text \<open>The state after the assignment to the leaf entry.\<close>

lemma set_leaf_ok:
  fixes v :: u64
  assumes "pmm_ok s" and tree: "pt_tree off s" and win: "window_ok off s"
    and pt: "table_of off s (pt_path va) = Some pt"
  defines "t \<equiv> s\<lparr>kmem := entry_set pt (pt_index va) v (kmem s)\<rparr>"
  shows "pmm_ok t \<and> pt_tree off t \<and> window_ok off t" and "paging_hhdm t = paging_hhdm s"
    and "translation off t va' = (if same_page va' va then (if is_present v then Some v else None)
           else translation off s va')"
proof -
  show "paging_hhdm t = paging_hhdm s" by (simp add: t_def)
  have tb: "table_of off t p = table_of off s p" if "tree_path p" for p
    using set_leaf_tbl [OF tree win pt that] by (simp add: t_def)
  have "taken t = taken s" by (simp add: t_def)
  then have "pt_tree off t"
    using tree unfolding pt_tree_def by (simp add: tb cong: conj_cong)
  then show "pmm_ok t \<and> pt_tree off t \<and> window_ok off t" using assms(1) win by (simp add: t_def)
  show "translation off t va' = (if same_page va' va then (if is_present v then Some v else None)
           else translation off s va')"
    using set_leaf_leaf [OF tree win pt] by (simp add: t_def)
qed

lemma is_present_or3 [simp]: "is_present (a OR b OR PAGING_PRESENT)"
  by (simp add: is_present_bit bit_or_iff)

text \<open>What a mapping does to the tree, for any extra flags and any present leaf entry.\<close>

lemma map_walk_effect:
  assumes x: "extra_ok x" and ok: "paging_ok off s" and e: "is_present e" and r: "map_walk x off va e s = (r, t)"
  shows "paging_ok off t"
    and "translation off t va' = (if r \<and> same_page va' va then Some e else translation off s va')"
    and "\<not> r \<Longrightarrow> taken t = UNIV" and "taken s \<subseteq> taken t" and "used_frames s \<subseteq> used_frames t"
proof -
  have hh: "paging_hhdm s = Some off" using ok by (simp add: paging_ok_def)
  have "paging_ok off t \<and> (\<not> r \<longrightarrow> taken t = UNIV) \<and> taken s \<subseteq> taken t \<and> used_frames s \<subseteq> used_frames t
    \<and> translation off t va' = (if r \<and> same_page va' va then Some e else translation off s va')"
  proof (rule walk_levels [OF x ok, of va e])
    fix u assume full: "map_walk x off va e s = (False, u)" "tree_step off s u"
      "\<exists>A. finite A \<and> card A \<le> 2 \<and> taken s \<union> A = UNIV \<and> taken u = UNIV"
    then show ?thesis using r tree_step_ok [OF full(2) hh] by (auto simp: tree_step_def)
  next
    fix pt u assume mapped: "map_walk x off va e s = (True, u\<lparr>kmem := entry_set pt (pt_index va) e (kmem u)\<rparr>)"
      "tree_step off s u" "table_of off u (pt_path va) = Some pt"
    have u: "pmm_ok u" "pt_tree off u" "window_ok off u" "paging_hhdm u = Some off"
      "taken s \<subseteq> taken u" "used_frames s \<subseteq> used_frames u"
      using mapped(2) hh by (simp_all add: tree_step_def)
    have same: "translation off u va' = translation off s va'" using mapped(2) by (simp add: tree_step_def)
    from r mapped(1) have res: "r" "t = u\<lparr>kmem := entry_set pt (pt_index va) e (kmem u)\<rparr>" by simp_all
    with u e show ?thesis
      using set_leaf_ok [OF u(1-3) mapped(3), of e] same by (simp add: paging_ok_def)
  qed
  then show "paging_ok off t" "\<not> r \<Longrightarrow> taken t = UNIV" "taken s \<subseteq> taken t" "used_frames s \<subseteq> used_frames t"
    "translation off t va' = (if r \<and> same_page va' va then Some e else translation off s va')" by blast+
qed

lemma map_page_effect:
  assumes ok: "paging_ok off s" and r: "paging_map_page va pa flags s = (r, t)"
  shows "paging_ok off t"
    and "translation off t va' = (if r \<and> same_page va' va then Some (pa OR flags OR PAGING_PRESENT)
           else translation off s va')"
    and "\<not> r \<Longrightarrow> taken t = UNIV" and "taken s \<subseteq> taken t" and "used_frames s \<subseteq> used_frames t"
proof -
  have hh: "paging_hhdm s = Some off" using ok by (simp add: paging_ok_def)
  obtain u where u: "map_walk 0 off va (pa OR flags OR PAGING_PRESENT) s = (r, u)"
      "t = (if r then paging_invalidate_tlb va u else u)"
    using r paging_map_page_walk [OF hh, of va pa flags] by (auto split: prod.splits)
  note e = map_walk_effect [OF extra_ok_0 ok is_present_or3 u(1)]
  show "paging_ok off t" "\<not> r \<Longrightarrow> taken t = UNIV" "taken s \<subseteq> taken t" "used_frames s \<subseteq> used_frames t"
    "translation off t va' = (if r \<and> same_page va' va then Some (pa OR flags OR PAGING_PRESENT)
           else translation off s va')"
    using e by (auto simp: u(2))
qed

lemma table_nonzero: "paging_ok off s \<Longrightarrow> tree_path p \<Longrightarrow> table_of off s p = Some a \<Longrightarrow> a \<noteq> 0"
  using pt_tree_frame [of off s p a] in_frame_nonzero [of off _ a]
  by (auto simp: paging_ok_def window_ok_def)

lemma entry_table:
  assumes "table_of off s q = Some t"
  shows "is_present (entry_get (kmem s) t i) \<longleftrightarrow> table_of off s (i # q) \<noteq> None"
  using assms by (simp add: tbl.simps(2) Let_def)

lemma walk_paths:
  "tree_path [pml4_index va]" "tree_path [pdp_index va, pml4_index va]"
  "tree_path [pd_index va, pdp_index va, pml4_index va]"
  by (simp_all add: tree_path_def)

text \<open>
  The three lookups of \<open>paging_is_mapped\<close> and \<open>paging_get_physical_address\<close>:
  each level either is absent or leads to the next table of the tree.
\<close>

lemma walk_level:
  assumes ok: "paging_ok off s" and q: "tree_path (i # q)" "table_of off s q = Some t"
  obtains (absent) "\<not> is_present (entry_get (kmem s) t i)" "table_of off s (i # q) = None"
  | (below) a where "is_present (entry_get (kmem s) t i)" "table_of off s (i # q) = Some a" "a \<noteq> 0"
      "get_next_table off t i False s = (a, s)"
proof (cases "table_of off s (i # q)")
  case None
  then show thesis using absent entry_table [OF q(2), of i] by simp
next
  case (Some a)
  then show thesis
    using below [of a] entry_table [OF q(2), of i] table_nonzero [OF ok q(1) Some] get_next_table_lookup [OF ok q]
    by (simp add: prod_eq_iff)
qed

lemma leaf_absent:
  "table_of off s [pml4_index va] = None \<Longrightarrow> translation off s va = None"
  "table_of off s [pdp_index va, pml4_index va] = None \<Longrightarrow> translation off s va = None"
  "table_of off s (pt_path va) = None \<Longrightarrow> translation off s va = None"
  by (simp_all add: leaf_def pt_path_def tbl.simps(2) [where p = "[b, c]" for b c]
      tbl.simps(2) [where p = "[b]" for b])

lemma walk_cases:
  assumes ok: "paging_ok off s"
  obtains (absent) "translation off s va = None" "\<not> paging_is_mapped va s"
      "\<not> off \<le> va \<Longrightarrow> paging_get_physical_address va s = 0" "paging_unmap_page va s = (False, s)"
  | (found) pt where "table_of off s (pt_path va) = Some pt"
      "translation off s va = Some (entry_get (kmem s) pt (pt_index va))" "paging_is_mapped va s"
      "\<not> off \<le> va \<Longrightarrow> paging_get_physical_address va s = entry_get (kmem s) pt (pt_index va) AND PAGE_MASK"
      "paging_unmap_page va s = (let s4 = pmm_free_page (entry_get (kmem s) pt (pt_index va) AND PAGE_MASK) s
         in (True, paging_invalidate_tlb va (s4\<lparr>kmem := entry_set pt (pt_index va) 0 (kmem s4)\<rparr>)))"
proof -
  have hh: "paging_hhdm s = Some off" using ok by (simp add: paging_ok_def)
  have cr: "paging_get_cr3 s + off = pt_root off s" by (simp add: pt_root_def paging_get_cr3_def)
  note defs = paging_is_mapped_def paging_get_physical_address_def paging_unmap_page_def hh cr Let_def
  have no: thesis if "get_next_table off (pt_root off s) (pml4_index va) False s = (0, s)"
      "\<not> is_present (entry_get (kmem s) (pt_root off s) (pml4_index va))" "translation off s va = None"
    using that by (intro absent) (simp_all add: defs)
  show thesis
  proof (rule walk_level [OF ok walk_paths(1) [of va] table_root])
    assume "\<not> is_present (entry_get (kmem s) (pt_root off s) (pml4_index va))"
      "table_of off s [pml4_index va] = None"
    then show thesis by (intro no) (simp_all add: get_next_table_def leaf_absent)
  next
    fix a assume l1: "is_present (entry_get (kmem s) (pt_root off s) (pml4_index va))"
      "table_of off s [pml4_index va] = Some a" "a \<noteq> 0"
      "get_next_table off (pt_root off s) (pml4_index va) False s = (a, s)"
    show thesis
    proof (rule walk_level [OF ok walk_paths(2) l1(2)])
      assume "\<not> is_present (entry_get (kmem s) a (pdp_index va))"
        "table_of off s [pdp_index va, pml4_index va] = None"
      then show thesis using l1
        by (intro absent) (simp_all add: defs leaf_absent, simp_all add: get_next_table_def)
    next
      fix b assume l2: "is_present (entry_get (kmem s) a (pdp_index va))"
        "table_of off s [pdp_index va, pml4_index va] = Some b" "b \<noteq> 0"
        "get_next_table off a (pdp_index va) False s = (b, s)"
      show thesis
      proof (rule walk_level [OF ok walk_paths(3) l2(2)])
        assume "\<not> is_present (entry_get (kmem s) b (pd_index va))"
          "table_of off s [pd_index va, pdp_index va, pml4_index va] = None"
        then show thesis using l1 l2
          by (intro absent) (simp_all add: defs leaf_absent pt_path_def, simp_all add: get_next_table_def)
      next
        fix c assume l3: "is_present (entry_get (kmem s) b (pd_index va))"
          "table_of off s [pd_index va, pdp_index va, pml4_index va] = Some c" "c \<noteq> 0"
          "get_next_table off b (pd_index va) False s = (c, s)"
        show thesis
        proof (cases "is_present (entry_get (kmem s) c (pt_index va))")
          case True
          then show thesis using l1 l2 l3
            by (intro found [of c]) (simp_all add: defs leaf_def pt_path_def)
        next
          case False
          then show thesis using l1 l2 l3
            by (intro absent) (simp_all add: defs leaf_def pt_path_def)
        qed
      qed
    qed
  qed
qed

text \<open>Three frames to spare are enough for any page.\<close>

lemma map_page_succeeds:
  assumes ok: "paging_ok off s" and free: "F \<inter> taken s = {}" "3 \<le> card F"
  shows "fst (paging_map_page va pa flags s)"
proof (rule map_levels [OF ok, of va pa flags])
  fix u assume "\<exists>A. finite A \<and> card A \<le> 2 \<and> taken s \<union> A = UNIV \<and> taken u = UNIV"
  then obtain A where A: "finite A" "card A \<le> 2" "taken s \<union> A = UNIV" by blast
  then have "F \<subseteq> A" using free(1) by blast
  then have "card F \<le> card A" by (rule card_mono [OF A(1)])
  with A free show ?thesis by simp
qed simp

text \<open>Mapping a page takes at most three frames, for the tables it has to create.\<close>

lemma map_page_taken:
  assumes ok: "paging_ok off s" and m: "paging_map_page va pa flags s = (True, t)"
  obtains A where "finite A" and "card A \<le> 3" and "taken t = taken s \<union> A"
proof (rule map_levels [OF ok, of va pa flags])
  fix u assume "paging_map_page va pa flags s = (False, u)"
  with m show thesis by simp
next
  fix pt u
  assume u: "paging_map_page va pa flags s = (True, paging_invalidate_tlb va
      (u\<lparr>kmem := entry_set pt (pt_index va) (pa OR flags OR PAGING_PRESENT) (kmem u)\<rparr>))"
    and A: "\<exists>A. finite A \<and> card A \<le> 3 \<and> taken u = taken s \<union> A"
  from m u have "t = paging_invalidate_tlb va
      (u\<lparr>kmem := entry_set pt (pt_index va) (pa OR flags OR PAGING_PRESENT) (kmem u)\<rparr>)" by simp
  then have "taken t = taken u" by simp
  with A show thesis using that by blast
qed

text \<open>No frame that was taken before becomes a table.\<close>

lemma map_page_frames:
  assumes ok: "paging_ok off s" and m: "paging_map_page va pa flags s = (r, t)"
    and t: "table_frame off t f"
  shows "table_frame off s f \<or> f \<notin> taken s"
proof -
  have hh: "paging_hhdm s = Some off" using ok by (simp add: paging_ok_def)
  obtain u where u: "tree_step off s u"
    "\<And>p. tree_path p \<Longrightarrow> table_of off t p = table_of off u p"
  proof (rule map_levels [OF ok, of va pa flags])
    fix u assume "paging_map_page va pa flags s = (False, u)" "tree_step off s u"
    with m show thesis using that [of u] by simp
  next
    fix pt u
    assume mapped: "paging_map_page va pa flags s = (True, paging_invalidate_tlb va
        (u\<lparr>kmem := entry_set pt (pt_index va) (pa OR flags OR PAGING_PRESENT) (kmem u)\<rparr>))"
      and u: "tree_step off s u" and pt: "table_of off u (pt_path va) = Some pt"
    have ok': "pt_tree off u" "window_ok off u" using u by (simp_all add: tree_step_def)
    show thesis
      using that [of u] m mapped u set_leaf_tbl [OF ok' pt, of _ "pa OR flags OR PAGING_PRESENT"] by auto
  qed
  have "table_frame off u f" using t unfolding table_frame_def using u(2) by auto
  with u(1) show ?thesis by (simp add: tree_step_def)
qed

text \<open>The entries that point to tables stay plain: a leaf is never one of them.\<close>

lemma map_page_plain:
  assumes ok: "paging_ok off s" and m: "paging_map_page va pa flags s = (r, t)"
    and low: "unat (total_pages s) \<le> 2 ^ 40" and pl: "plain_tree off s"
  shows "plain_tree off t"
proof (rule map_levels [OF ok, of va pa flags])
  fix u assume "paging_map_page va pa flags s = (False, u)" "tree_step off s u"
  with m low pl show ?thesis by (simp add: tree_step_def)
next
  fix pt u
  assume mapped: "paging_map_page va pa flags s = (True, paging_invalidate_tlb va
      (u\<lparr>kmem := entry_set pt (pt_index va) (pa OR flags OR PAGING_PRESENT) (kmem u)\<rparr>))"
    and u: "tree_step off s u" and pt: "table_of off u (pt_path va) = Some pt"
  have ok': "pt_tree off u" "window_ok off u" and plu: "plain_tree off u"
    using u low pl by (simp_all add: tree_step_def)
  note same = set_leaf_tbl [OF ok' pt, of _ "pa OR flags OR PAGING_PRESENT"]
  have t: "kmem t = entry_set pt (pt_index va) (pa OR flags OR PAGING_PRESENT) (kmem u)" "cr3 t = cr3 u"
    using m mapped by auto
  have root: "pt_root off t = pt_root off u" by (simp add: pt_root_def t)
  show ?thesis
    unfolding plain_tree_def
  proof (intro conjI allI impI)
    show "cr3 t AND MMU_FRAME = cr3 t" using plu by (simp add: plain_tree_def t)
  next
    fix q b i
    assume a: "tree_path (i # q) \<and> table_of off t q = Some b \<and> is_present (entry_get (kmem t) b i)"
    then have q: "tree_path q" "i < 512" by (simp_all add: tree_path_Cons)
    have b: "table_of off u q = Some b" using a same [OF q(1)] by (simp add: t root)
    have "(pt_index va, pt_path va) \<noteq> (i, q)" using pt_path_not_short [of i q va] a by blast
    then have "entry_get (kmem t) b i = entry_get (kmem u) b i"
      using tree_entry_other [OF ok' tree_path_pt(1) pt q(1) b index_bound(4) q(2)] by (simp add: t)
    with plu a b show "plain_entry (entry_get (kmem t) b i)" unfolding plain_tree_def by metis
  qed
qed

end
