(* ===== verification/Paging_Mmu.thy ===== *)
theory Paging_Mmu
  imports Paging_Map
begin

text \<open>
  Unmapping, and the comparison of the code's view of the tables with the
  processor's. \<open>mmu_translate\<close> is the four-level translation of the x86-64
  architecture, large pages and the reserved upper bits of an entry included; the
  code agrees with it on tables that use neither, and these are the two places where
  it does not: a no-execute entry and an address above the direct map's start.
\<close>

section \<open>Unmapping a page\<close>

lemma free_page_taken:
  assumes ok: "pmm_ok s" and a: "unat a = p * 4096" and p: "p \<in> used_frames s"
    and k: "k \<in> taken s" "k \<noteq> p"
  shows "k \<in> taken (pmm_free_page a s)"
proof -
  have "used_frames (pmm_free_page a s) = used_frames s - {p}"
    using pf.free_frame [OF ok a p] by simp
  then have "page_bit (pmm_free_page a s) k = page_bit s k" if "k < unat (total_pages s)"
    using that k(2) by (auto simp: used_frames_def set_eq_iff)
  then have "allocatable (pmm_free_page a s) k = allocatable s k"
    by (intro allocatable_cong) simp_all
  with k(1) show ?thesis by (simp add: taken_def)
qed

lemma pt_tree_free_page:
  assumes ok: "pmm_ok s" and tree: "pt_tree off s"
    and a: "unat a = p * 4096" and p: "p \<in> used_frames s" "\<not> table_frame off s p"
  shows "pt_tree off (pmm_free_page a s)"
  unfolding pt_tree_def
proof (intro conjI allI impI)
  fix path t assume t: "tree_path path \<and> table_of off (pmm_free_page a s) path = Some t"
  then have "tree_path path" "table_of off s path = Some t" by simp_all
  with pt_tree_frame [OF tree this] obtain f where f: "f \<in> taken s" "in_frame off f t" by blast
  then have "f \<noteq> p" using p(2) \<open>tree_path path\<close> \<open>table_of off s path = Some t\<close>
    unfolding table_frame_def by blast
  with f free_page_taken [OF ok a p(1)] show "\<exists>f \<in> taken (pmm_free_page a s). in_frame off f t" by blast
next
  fix q r t
  assume "tree_path q \<and> tree_path r \<and> table_of off (pmm_free_page a s) q = Some t
    \<and> table_of off (pmm_free_page a s) r = Some t"
  then show "q = r" using pt_tree_inj [OF tree, of q r t] by simp
qed

lemma unmap_absent:
  assumes "paging_ok off s" and "translation off s va = None"
  shows "paging_unmap_page va s = (False, s)"
  by (rule walk_cases [OF assms(1), of va]) (use assms(2) in simp_all)

lemma unmap_effect:
  assumes ok: "paging_ok off s" and e: "translation off s va = Some e"
    and p: "unat (e AND PAGE_MASK) = p * 4096" "p \<in> used_frames s" "\<not> table_frame off s p"
  obtains t where "paging_unmap_page va s = (True, t)" and "paging_ok off t"
    and "\<And>va'. translation off t va' = (if same_page va' va then None else translation off s va')"
    and "used_frames t = used_frames s - {p}" and "invalidated t = invalidated s @ [va]"
proof (rule walk_cases [OF ok, of va])
  fix pt
  assume pt: "table_of off s (pt_path va) = Some pt"
    and le: "translation off s va = Some (entry_get (kmem s) pt (pt_index va))"
    and un: "paging_unmap_page va s = (let s4 = pmm_free_page (entry_get (kmem s) pt (pt_index va) AND PAGE_MASK) s
         in (True, paging_invalidate_tlb va (s4\<lparr>kmem := entry_set pt (pt_index va) 0 (kmem s4)\<rparr>)))"
  let ?u = "pmm_free_page (e AND PAGE_MASK) s"
  let ?t = "paging_invalidate_tlb va (?u\<lparr>kmem := entry_set pt (pt_index va) 0 (kmem ?u)\<rparr>)"
  have pok: "pmm_ok s" and tree: "pt_tree off s" and win: "window_ok off s" and hh: "paging_hhdm s = Some off"
    using ok by (simp_all add: paging_ok_def)
  have run: "paging_unmap_page va s = (True, ?t)" using un le e by (simp add: Let_def)
  have u: "pmm_ok ?u" "used_frames ?u = used_frames s - {p}"
    using pf.free_frame [OF pok p(1,2)] by simp_all
  have "pt_tree off ?u" by (rule pt_tree_free_page [OF pok tree p])
  note set = set_leaf_ok [OF u(1) this, of va pt 0]
  have win': "window_ok off ?u" and pt': "table_of off ?u (pt_path va) = Some pt" using win pt by simp_all
  have "paging_ok off ?t" using set(1,2) [OF win' pt'] hh by (simp add: paging_ok_def)
  moreover have "translation off ?t va' = (if same_page va' va then None else translation off s va')" for va'
    using set(3) [OF win' pt', of va'] by (simp add: is_present_bit)
  ultimately show thesis using run u(2) by (intro that [of ?t]) simp_all
qed (use e in simp)

section \<open>The processor's translation\<close>

definition mmu_entry :: "bytes \<Rightarrow> u64 \<Rightarrow> u64 \<Rightarrow> u64 \<Rightarrow> u64" where
  "mmu_entry m off base index = load64 m ((base AND MMU_FRAME) + off + 8 * index)"

definition mmu_translate :: "bytes \<Rightarrow> u64 \<Rightarrow> u64 \<Rightarrow> u64 \<Rightarrow> u64 option" where
  "mmu_translate m off c va =
     (let e4 = mmu_entry m off c (pml4_index va)
      in if \<not> is_present e4 then None
         else let e3 = mmu_entry m off e4 (pdp_index va)
              in if \<not> is_present e3 then None
                 else if is_huge e3 then Some ((e3 AND 0x000FFFFFC0000000) OR (va AND 0x3FFFFFFF))
                 else let e2 = mmu_entry m off e3 (pd_index va)
                      in if \<not> is_present e2 then None
                         else if is_huge e2 then Some ((e2 AND 0x000FFFFFFFE00000) OR (va AND 0x1FFFFF))
                         else let e1 = mmu_entry m off e2 (pt_index va)
                              in if \<not> is_present e1 then None
                                 else Some ((e1 AND MMU_FRAME) OR (va AND 0xFFF)))"

text \<open>Table entries as the code writes them: no large page and no bit above the frame.\<close>

lemma mmu_entry_plain:
  assumes "plain_tree off s" and "tree_path (i # q)" and "table_of off s q = Some t"
    and "is_present (entry_get (kmem s) t i)"
  shows "mmu_entry (kmem s) off (entry_get (kmem s) t i) j
      = entry_get (kmem s) (next_of off (entry_get (kmem s) t i)) j"
    and "\<not> is_huge (entry_get (kmem s) t i)"
proof -
  have "plain_entry (entry_get (kmem s) t i)" using assms unfolding plain_tree_def by blast
  then show "mmu_entry (kmem s) off (entry_get (kmem s) t i) j
      = entry_get (kmem s) (next_of off (entry_get (kmem s) t i)) j"
    "\<not> is_huge (entry_get (kmem s) t i)"
    by (simp_all add: plain_entry_def mmu_entry_def entry_get_def next_of_def)
qed

lemma mmu_agrees:
  assumes plain: "plain_tree off s"
  shows "mmu_translate (kmem s) off (cr3 s) va
    = map_option (\<lambda>e. (e AND MMU_FRAME) OR (va AND 0xFFF)) (translation off s va)"
proof -
  let ?m = "kmem s"
  define e4 where "e4 = entry_get ?m (pt_root off s) (pml4_index va)"
  define e3 where "e3 = entry_get ?m (next_of off e4) (pdp_index va)"
  define e2 where "e2 = entry_get ?m (next_of off e3) (pd_index va)"
  define e1 where "e1 = entry_get ?m (next_of off e2) (pt_index va)"
  have m4: "mmu_entry ?m off (cr3 s) (pml4_index va) = e4"
    using plain by (simp add: plain_tree_def mmu_entry_def e4_def entry_get_def pt_root_def)
  have leaf: "translation off s va = (if is_present e4 \<and> is_present e3 \<and> is_present e2 \<and> is_present e1
      then Some e1 else None)"
    by (simp add: leaf_def pt_path_def tbl.simps(2) Let_def e4_def e3_def e2_def e1_def)
  show ?thesis
  proof (cases "is_present e4")
    case p4: True
    then have t4: "table_of off s [pml4_index va] = Some (next_of off e4)"
      by (simp add: tbl.simps(2) Let_def e4_def)
    have m3: "mmu_entry ?m off e4 (pdp_index va) = e3"
      using mmu_entry_plain(1) [OF plain walk_paths(1) table_root] p4 by (simp add: e4_def e3_def)
    show ?thesis
    proof (cases "is_present e3")
      case p3: True
      then have t3: "table_of off s [pdp_index va, pml4_index va] = Some (next_of off e3)"
        using t4 by (simp add: tbl.simps(2) [where p = "[x]" for x] Let_def e3_def)
      have m2: "mmu_entry ?m off e3 (pd_index va) = e2" "\<not> is_huge e3"
        using mmu_entry_plain [OF plain walk_paths(2) t4] p3 by (simp_all add: e3_def e2_def)
      show ?thesis
      proof (cases "is_present e2")
        case p2: True
        have "mmu_entry ?m off e2 (pt_index va) = e1" "\<not> is_huge e2"
          using mmu_entry_plain [OF plain walk_paths(3) t3] p2 by (simp_all add: e2_def e1_def)
        then show ?thesis using p4 p3 p2 m4 m3 m2 leaf by (simp add: mmu_translate_def Let_def)
      next
        case False
        then show ?thesis using p4 p3 m4 m3 m2 leaf by (simp add: mmu_translate_def Let_def)
      qed
    next
      case False
      then show ?thesis using p4 m4 m3 leaf by (simp add: mmu_translate_def Let_def)
    qed
  next
    case False
    then show ?thesis using m4 leaf by (simp add: mmu_translate_def Let_def)
  qed
qed

section \<open>The code's physical address\<close>

lemma get_physical_leaf:
  assumes ok: "paging_ok off s" and va: "va < off"
  shows "paging_get_physical_address va s
    = (case translation off s va of None \<Rightarrow> 0 | Some e \<Rightarrow> e AND PAGE_MASK)"
  by (rule walk_cases [OF ok, of va]) (use va in \<open>simp_all add: leD\<close>)

text \<open>Above the direct map's start the tables are not consulted at all.\<close>

lemma get_physical_direct:
  "paging_hhdm s = Some off \<Longrightarrow> off \<le> va \<Longrightarrow> paging_get_physical_address va s = va - off"
  by (simp add: paging_get_physical_address_def)

lemma nx_in_physical:
  assumes ok: "paging_ok off s" and va: "va < off" and e: "translation off s va = Some e" and nx: "bit e 63"
  shows "bit (paging_get_physical_address va s) 63" and "\<not> bit (e AND MMU_FRAME) 63"
  using get_physical_leaf [OF ok va] e nx
  by (simp_all add: bit_and_iff MMU_FRAME_def PAGE_MASK_def)

end
