(* ===== verification/Heap.thy ===== *)
theory Heap
  imports Paging_Mmu
begin

text \<open>
  \<open>kernel/src/memory/heap.c\<close>: the kernel heap, a doubly linked list of blocks
  laid out one after the other from \<open>HEAP_START\<close> on, each a header of 32 bytes
  (\<open>size\<close> at offset 0, \<open>used\<close> at 8, \<open>next\<close> at 16, \<open>prev\<close> at 24, as the
  x86-64 ABI lays \<open>struct heap_block\<close> out) followed by its payload. Headers and
  payloads are bytes of the one memory \<open>kmem\<close>, so a header written over a payload
  is visible as such. The record \<open>heap\<close> has the fields of \<open>kernel_heap\<close>.

  The loops that follow \<open>next\<close> pointers need not end on an arbitrary memory;
  they are partial functions, and not returning is \<open>None\<close>.
\<close>

section \<open>State\<close>

record heap = paging +
  heap_start :: u64
  heap_end :: u64
  heap_total :: u64
  heap_used :: u64
  block_count :: u64
  first_block :: u64

definition HEAP_START :: u64 where "HEAP_START = 0xFFFFFFFF90000000"
definition HEAP_INITIAL_SIZE :: u64 where "HEAP_INITIAL_SIZE = 0x100000"
definition HEAP_MAX_SIZE :: u64 where "HEAP_MAX_SIZE = 0x4000000"
definition HEAP_ALIGNMENT :: u64 where "HEAP_ALIGNMENT = 8"

definition HEADER :: u64 where "HEADER = 32"

section \<open>Block headers\<close>

definition blk_size :: "bytes \<Rightarrow> u64 \<Rightarrow> u64" where "blk_size m b = load64 m b"
definition blk_used :: "bytes \<Rightarrow> u64 \<Rightarrow> bool" where "blk_used m b \<longleftrightarrow> m (b + 8) \<noteq> 0"
definition blk_next :: "bytes \<Rightarrow> u64 \<Rightarrow> u64" where "blk_next m b = load64 m (b + 16)"
definition blk_prev :: "bytes \<Rightarrow> u64 \<Rightarrow> u64" where "blk_prev m b = load64 m (b + 24)"

definition set_size :: "u64 \<Rightarrow> u64 \<Rightarrow> bytes \<Rightarrow> bytes" where "set_size b v m = store64 b v m"
definition set_used :: "u64 \<Rightarrow> bool \<Rightarrow> bytes \<Rightarrow> bytes" where
  "set_used b u m = store8 (b + 8) (if u then 1 else 0) m"
definition set_next :: "u64 \<Rightarrow> u64 \<Rightarrow> bytes \<Rightarrow> bytes" where "set_next b v m = store64 (b + 16) v m"
definition set_prev :: "u64 \<Rightarrow> u64 \<Rightarrow> bytes \<Rightarrow> bytes" where "set_prev b v m = store64 (b + 24) v m"

section \<open>Initialisation\<close>

text \<open>The mapping loop; \<open>False\<close> is the early return after an error.\<close>

function heap_map_loop :: "u64 \<Rightarrow> u64 \<Rightarrow> 'a heap_scheme \<Rightarrow> bool \<times> 'a heap_scheme" where
  "heap_map_loop i n s =
     (if i < n then
        let (physical_page, s1) = pmm_alloc_page s
        in if physical_page = 0
           then (False, klog ''[HEAP] ERROR: Failed to allocate physical pages!\<newline>'' s1)
           else let (mapped, s2) = paging_map_page (HEAP_START + i * PAGE_SIZE) physical_page
                                     (PAGING_PRESENT OR PAGING_WRITABLE) s1
                in if \<not> mapped
                   then (False, pmm_free_page physical_page
                                  (klog ''[HEAP] ERROR: Failed to map heap page!\<newline>'' s2))
                   else heap_map_loop (i + 1) n s2
      else (True, s))"
  by pat_completeness auto
termination
  by (relation "measure (\<lambda>(i, n, s). unat n - unat i)")
    (auto simp: unat_Suc_of_less word_less_nat_alt)

declare heap_map_loop.simps [simp del]

definition heap_init :: "'a heap_scheme \<Rightarrow> 'a heap_scheme" where
  "heap_init s =
     (let s1 = klog ''[HEAP] Initializing...\<newline>'' s;
          (ready, s2) = heap_map_loop 0 (HEAP_INITIAL_SIZE div PAGE_SIZE) s1
      in if \<not> ready then s2
         else let s3 = s2\<lparr>heap_start := HEAP_START, heap_end := HEAP_START + HEAP_INITIAL_SIZE,
                          heap_total := HEAP_INITIAL_SIZE, heap_used := 0, block_count := 1\<rparr>;
                  b = HEAP_START;
                  m = set_prev b 0 (set_next b 0 (set_used b False
                        (set_size b (HEAP_INITIAL_SIZE - HEADER) (kmem s3))));
                  s4 = s3\<lparr>kmem := m, first_block := b\<rparr>
              in klog_num '''' 10 (HEAP_INITIAL_SIZE div 1024) '' KB)\<newline>''
                   (klog_num ''[HEAP] Ready at 0x'' 16 HEAP_START '' ('' s4))"

section \<open>Allocation\<close>

partial_function (option) find_free_loop_blk :: "bytes \<Rightarrow> u64 \<Rightarrow> u64 \<Rightarrow> u64 \<Rightarrow> u64 option" where
  "find_free_loop_blk m sz current best =
     (if current = 0 then Some best
      else find_free_loop_blk m sz (blk_next m current)
             (if \<not> blk_used m current \<and> blk_size m current \<ge> sz
                 \<and> (best = 0 \<or> blk_size m current < blk_size m best)
              then current else best))"

definition find_free_block :: "u64 \<Rightarrow> 'a heap_scheme \<Rightarrow> u64 option" where
  "find_free_block sz s = find_free_loop_blk (kmem s) sz (first_block s) 0"

text \<open>\<open>size = (size + 7) & ~7\<close>, and no payload smaller than a header.\<close>

definition request_size :: "u64 \<Rightarrow> u64" where
  "request_size sz =
     (let sz' = (sz + HEAP_ALIGNMENT - 1) AND NOT (HEAP_ALIGNMENT - 1)
      in if sz' < HEADER then HEADER else sz')"

text \<open>The split: the header of the rest is written into the block's own payload.\<close>

definition split_block :: "u64 \<Rightarrow> u64 \<Rightarrow> 'a heap_scheme \<Rightarrow> 'a heap_scheme" where
  "split_block block sz s =
     (let new_block = block + HEADER + sz;
          m1 = set_prev new_block block
                 (set_next new_block (blk_next (kmem s) block)
                   (set_used new_block False
                     (set_size new_block (blk_size (kmem s) block - sz - HEADER) (kmem s))));
          m2 = (if blk_next m1 block \<noteq> 0 then set_prev (blk_next m1 block) new_block m1 else m1);
          m3 = set_size block sz (set_next block new_block m2)
      in s\<lparr>kmem := m3, block_count := block_count s + 1\<rparr>)"

definition kmalloc :: "u64 \<Rightarrow> 'a heap_scheme \<Rightarrow> (u64 \<times> 'a heap_scheme) option" where
  "kmalloc sz0 s =
     (if sz0 = 0 then Some (0, s)
      else let sz = request_size sz0
           in case find_free_block sz s of
                None \<Rightarrow> None
              | Some block \<Rightarrow>
                  if block = 0
                  then Some (0, klog_num ''[HEAP] No free block found for size '' 10 sz ''\<newline>'' s)
                  else let s1 = (if blk_size (kmem s) block \<ge> sz + HEADER + HEAP_ALIGNMENT
                                 then split_block block sz s else s);
                           s2 = s1\<lparr>kmem := set_used block True (kmem s1)\<rparr>;
                           s3 = s2\<lparr>heap_used := heap_used s2 + blk_size (kmem s2) block\<rparr>;
                           s4 = klog_num '''' 10 (heap_used s3) '' bytes\<newline>''
                                  (klog_num ''[HEAP] Allocated '' 10 sz '' bytes, total used: '' s3)
                       in Some (block + HEADER, s4))"

section \<open>Release\<close>

definition merge_prev :: "u64 \<Rightarrow> 'a heap_scheme \<Rightarrow> u64 \<times> 'a heap_scheme" where
  "merge_prev block s =
     (let p = blk_prev (kmem s) block
      in if p \<noteq> 0 \<and> \<not> blk_used (kmem s) p
         then let m1 = set_size p (blk_size (kmem s) p + (blk_size (kmem s) block + HEADER)) (kmem s);
                  m2 = set_next p (blk_next m1 block) m1;
                  m3 = (if blk_next m2 block \<noteq> 0 then set_prev (blk_next m2 block) p m2 else m2)
              in (p, s\<lparr>kmem := m3, block_count := block_count s - 1\<rparr>)
         else (block, s))"

definition merge_next :: "u64 \<Rightarrow> 'a heap_scheme \<Rightarrow> 'a heap_scheme" where
  "merge_next block s =
     (let n = blk_next (kmem s) block
      in if n \<noteq> 0 \<and> \<not> blk_used (kmem s) n
         then let m1 = set_size block (blk_size (kmem s) block + (blk_size (kmem s) n + HEADER)) (kmem s);
                  m2 = set_next block (blk_next m1 (blk_next m1 block)) m1;
                  m3 = (if blk_next m2 block \<noteq> 0 then set_prev (blk_next m2 block) block m2 else m2)
              in s\<lparr>kmem := m3, block_count := block_count s - 1\<rparr>
         else s)"

definition kfree :: "u64 \<Rightarrow> 'a heap_scheme \<Rightarrow> 'a heap_scheme" where
  "kfree ptr s =
     (if ptr = 0 then s
      else let block = ptr - HEADER
           in if \<not> blk_used (kmem s) block
              then klog_num ''[HEAP] Double free detected at 0x'' 16 ptr ''\<newline>'' s
              else let s1 = s\<lparr>kmem := set_used block False (kmem s)\<rparr>;
                       s2 = s1\<lparr>heap_used := heap_used s1 - blk_size (kmem s1) block\<rparr>;
                       s3 = klog_num '''' 10 (heap_used s2) '' bytes\<newline>''
                              (klog_num ''[HEAP] Freed '' 10 (blk_size (kmem s2) block)
                                 '' bytes, total used: '' s2);
                       (block', s4) = merge_prev block s3
                   in merge_next block' s4)"

definition kcalloc :: "u64 \<Rightarrow> u64 \<Rightarrow> 'a heap_scheme \<Rightarrow> (u64 \<times> 'a heap_scheme) option" where
  "kcalloc num sz s =
     (let tot = num * sz
      in case kmalloc tot s of
           None \<Rightarrow> None
         | Some (ptr, s1) \<Rightarrow>
             Some (ptr, if ptr \<noteq> 0 then s1\<lparr>kmem := snd (memset ptr 0 tot (kmem s1))\<rparr> else s1))"

definition krealloc :: "u64 \<Rightarrow> u64 \<Rightarrow> 'a heap_scheme \<Rightarrow> (u64 \<times> 'a heap_scheme) option" where
  "krealloc ptr sz s =
     (if ptr = 0 then kmalloc sz s
      else if sz = 0 then Some (0, kfree ptr s)
      else let block = ptr - HEADER
           in if sz \<le> blk_size (kmem s) block then Some (ptr, s)
              else case kmalloc sz s of
                     None \<Rightarrow> None
                   | Some (new_ptr, s1) \<Rightarrow>
                       Some (new_ptr,
                         if new_ptr \<noteq> 0
                         then kfree ptr (s1\<lparr>kmem := snd (memcpy new_ptr ptr (blk_size (kmem s1) block) (kmem s1))\<rparr>)
                         else s1))"

section \<open>Queries\<close>

definition heap_get_total_size :: "'a heap_scheme \<Rightarrow> u64" where
  "heap_get_total_size s = heap_total s"

definition heap_get_used_size :: "'a heap_scheme \<Rightarrow> u64" where
  "heap_get_used_size s = heap_used s"

definition heap_get_free_size :: "'a heap_scheme \<Rightarrow> u64" where
  "heap_get_free_size s = heap_total s - heap_used s"

text \<open>The loop of \<open>heap_dump_blocks\<close>, with its counter and the two totals.\<close>

partial_function (option) dump_blocks_loop ::
  "u64 \<Rightarrow> u64 \<Rightarrow> u64 \<Rightarrow> u64 \<Rightarrow> 'a heap_scheme \<Rightarrow> (u64 \<times> u64 \<times> 'a heap_scheme) option" where
  "dump_blocks_loop current i total_used total_free s =
     (if current = 0 then Some (total_used, total_free, s)
      else let sz = blk_size (kmem s) current;
               s1 = klog ''\<newline>'' (klog (if blk_used (kmem s) current then ''yes'' else ''no'')
                      (klog_num '' Size='' 10 sz '' Used=''
                        (klog_num '': Addr=0x'' 16 current ''''
                          (klog_num ''  '' 10 i '''' s))))
           in dump_blocks_loop (blk_next (kmem s) current) (i + 1)
                (if blk_used (kmem s) current then total_used + sz else total_used)
                (if blk_used (kmem s) current then total_free else total_free + sz) s1)"

definition heap_dump_blocks :: "'a heap_scheme \<Rightarrow> 'a heap_scheme option" where
  "heap_dump_blocks s =
     (case dump_blocks_loop (first_block s) 0 0 0 (klog ''[HEAP] Block dump:\<newline>'' s) of
        None \<Rightarrow> None
      | Some (total_used, total_free, s1) \<Rightarrow>
          Some (klog_num '''' 10 (block_count s1) '' blocks total\<newline>''
                 (klog_num '''' 10 total_free '' bytes free, ''
                   (klog_num ''[HEAP] Summary: '' 10 total_used '' bytes used, '' s1))))"

end
