(* ===== verification/Heap_Layout.thy ===== *)
theory Heap_Layout
  imports Heap
begin

text \<open>
  The heap seen as a list of blocks, each a payload size and whether it is in use,
  laid out from \<open>HEAP_START\<close> on: which byte memories hold such a list
  (\<open>linked\<close>), what the writes of a header field change, and the search for a
  free block as a search of the list.
\<close>

section \<open>Addresses as natural numbers\<close>

definition addr :: "nat \<Rightarrow> u64" where
  "addr a = of_nat a"

lemma unat_addr: "a < 2 ^ 64 \<Longrightarrow> unat (addr a) = a"
  by (simp add: addr_def unat_of_nat_u64)

lemma addr_offset: "addr a + of_nat k = addr (a + k)"
  by (simp add: addr_def)

lemma addr_plus_header: "addr a + HEADER = addr (a + 32)"
  by (simp add: addr_def HEADER_def)

lemma addr_minus_header: "addr (a + 32) - HEADER = addr a"
  by (simp add: addr_def HEADER_def)

lemma addr_nonzero: "0 < a \<Longrightarrow> a < 2 ^ 64 \<Longrightarrow> addr a \<noteq> 0"
  using unat_addr [of a] by auto

lemma addr_eq_iff: "a < 2 ^ 64 \<Longrightarrow> b < 2 ^ 64 \<Longrightarrow> addr a = addr b \<longleftrightarrow> a = b"
  by (metis unat_addr)

section \<open>Writes of header fields\<close>

lemma store64_outside:
  assumes "x < 2 ^ 64" and "b + n \<le> 2 ^ 64" and "x < b \<or> b + n \<le> x" and "k + 8 \<le> n"
  shows "store64 (addr b + of_nat k) v m (addr x) = m (addr x)"
proof -
  have b: "unat (addr (b + k)) = b + k" "unat (addr x) = x"
    using assms by (auto intro!: unat_addr)
  have "\<not> unat (addr x - addr (b + k)) < 8"
    using assms b by (auto simp: unat_sub_if')
  then show ?thesis
    unfolding addr_offset by (intro store64_other) (simp add: word_less_nat_alt)
qed

lemma set_outside:
  assumes "x < 2 ^ 64" and "b + 32 \<le> 2 ^ 64" and "x < b \<or> b + 32 \<le> x"
  shows "set_size (addr b) v m (addr x) = m (addr x)"
    and "set_used (addr b) u m (addr x) = m (addr x)"
    and "set_next (addr b) v m (addr x) = m (addr x)"
    and "set_prev (addr b) v m (addr x) = m (addr x)"
proof -
  show "set_size (addr b) v m (addr x) = m (addr x)"
    using store64_outside [OF assms, of 0] by (simp add: set_size_def)
  show "set_next (addr b) v m (addr x) = m (addr x)"
    using store64_outside [OF assms, of 16] by (simp add: set_next_def)
  show "set_prev (addr b) v m (addr x) = m (addr x)"
    using store64_outside [OF assms, of 24] by (simp add: set_prev_def)
  have "addr b + 8 = addr (b + 8)" using addr_offset [of b 8] by simp
  moreover have "addr x \<noteq> addr (b + 8)" using assms by (auto simp: addr_eq_iff)
  ultimately show "set_used (addr b) u m (addr x) = m (addr x)"
    by (simp add: set_used_def store8_def)
qed

text \<open>The fields of the header written to.\<close>

lemma apart8_const: "apart8 (b + i) (b + j) \<longleftrightarrow> 8 \<le> j - i \<and> 8 \<le> i - j"
  by (simp add: apart8_def)

lemma apart8_const0: "apart8 b (b + j) \<longleftrightarrow> 8 \<le> j \<and> 8 \<le> - j" "apart8 (b + i) b \<longleftrightarrow> 8 \<le> - i \<and> 8 \<le> i"
  by (simp_all add: apart8_def)

lemma store64_used: "\<not> 8 - i < 8 \<Longrightarrow> store64 (b + i) v m (b + 8) = m (b + 8)"
  by (rule store64_other) simp

lemma header_same [simp]:
  "blk_size (set_size b v m) b = v"
  "blk_used (set_size b v m) b = blk_used m b"
  "blk_next (set_size b v m) b = blk_next m b"
  "blk_prev (set_size b v m) b = blk_prev m b"
  "blk_size (set_used b u m) b = blk_size m b"
  "blk_used (set_used b u m) b = u"
  "blk_next (set_used b u m) b = blk_next m b"
  "blk_prev (set_used b u m) b = blk_prev m b"
  "blk_size (set_next b v m) b = blk_size m b"
  "blk_used (set_next b v m) b = blk_used m b"
  "blk_next (set_next b v m) b = v"
  "blk_prev (set_next b v m) b = blk_prev m b"
  "blk_size (set_prev b v m) b = blk_size m b"
  "blk_used (set_prev b v m) b = blk_used m b"
  "blk_next (set_prev b v m) b = blk_next m b"
  "blk_prev (set_prev b v m) b = v"
  using store64_used [of 0]
  by (simp_all add: blk_size_def blk_used_def blk_next_def blk_prev_def set_size_def set_used_def
      set_next_def set_prev_def load64_store64_other apart8_const apart8_const0 store64_used
      load64_store8_other) (simp_all add: store8_def)

text \<open>A header only depends on its own 32 bytes.\<close>

lemma header_cong:
  assumes "\<And>i. i < 32 \<Longrightarrow> m' (addr (a + i)) = m (addr (a + i))"
  shows "blk_size m' (addr a) = blk_size m (addr a)" "blk_used m' (addr a) = blk_used m (addr a)"
    "blk_next m' (addr a) = blk_next m (addr a)" "blk_prev m' (addr a) = blk_prev m (addr a)"
proof -
  have ld: "load64 m' (addr a + of_nat k) = load64 m (addr a + of_nat k)" if "k \<le> 24" for k
  proof (rule load64_cong)
    fix i :: nat assume "i < 8"
    then show "m' (addr a + of_nat k + of_nat i) = m (addr a + of_nat k + of_nat i)"
      using assms [of "k + i"] that by (simp add: addr_offset add.assoc)
  qed
  show "blk_size m' (addr a) = blk_size m (addr a)" using ld [of 0] by (simp add: blk_size_def)
  show "blk_next m' (addr a) = blk_next m (addr a)" using ld [of 16] by (simp add: blk_next_def)
  show "blk_prev m' (addr a) = blk_prev m (addr a)" using ld [of 24] by (simp add: blk_prev_def)
  have "addr a + 8 = addr (a + 8)" using addr_offset [of a 8] by simp
  then show "blk_used m' (addr a) = blk_used m (addr a)" using assms [of 8] by (simp add: blk_used_def)
qed

lemma header_other:
  assumes "a + 32 \<le> 2 ^ 64" and "b + 32 \<le> 2 ^ 64" and "a + 32 \<le> b \<or> b + 32 \<le> a"
    and m': "m' \<in> {set_size (addr b) v m, set_used (addr b) u m, set_next (addr b) v m, set_prev (addr b) v m}"
  shows "blk_size m' (addr a) = blk_size m (addr a)" "blk_used m' (addr a) = blk_used m (addr a)"
    "blk_next m' (addr a) = blk_next m (addr a)" "blk_prev m' (addr a) = blk_prev m (addr a)"
proof -
  have "m' (addr (a + i)) = m (addr (a + i))" if "i < 32" for i
  proof -
    have "a + i < 2 ^ 64" "a + i < b \<or> b + 32 \<le> a + i" using assms(1,3) that by auto
    then show ?thesis using m' set_outside [OF _ assms(2)] by auto
  qed
  then show "blk_size m' (addr a) = blk_size m (addr a)" "blk_used m' (addr a) = blk_used m (addr a)"
    "blk_next m' (addr a) = blk_next m (addr a)" "blk_prev m' (addr a) = blk_prev m (addr a)"
    using header_cong [of m' a m] by blast+
qed

section \<open>Lists of blocks\<close>

type_synonym layout = "(nat \<times> bool) list"

definition span :: "layout \<Rightarrow> nat" where
  "span bs = (\<Sum>b \<leftarrow> bs. 32 + fst b)"

lemma span_simps [simp]: "span [] = 0" "span (b # bs) = 32 + fst b + span bs"
  "span (bs @ cs) = span bs + span cs"
  by (simp_all add: span_def)

primrec linked :: "bytes \<Rightarrow> u64 \<Rightarrow> nat \<Rightarrow> layout \<Rightarrow> u64 \<Rightarrow> bool" where
  "linked m p a [] q = True"
| "linked m p a (b # bs) q =
     (blk_size m (addr a) = of_nat (fst b) \<and> blk_used m (addr a) = snd b \<and> blk_prev m (addr a) = p
      \<and> blk_next m (addr a) = (if bs = [] then q else addr (a + 32 + fst b))
      \<and> linked m (addr a) (a + 32 + fst b) bs q)"

text \<open>The address of the last block of a segment, the pointer before it when there is none.\<close>

primrec last_addr :: "u64 \<Rightarrow> nat \<Rightarrow> layout \<Rightarrow> u64" where
  "last_addr p a [] = p"
| "last_addr p a (b # bs) = last_addr (addr a) (a + 32 + fst b) bs"

lemma last_addr_snoc [simp]: "last_addr p a (bs @ [b]) = addr (a + span bs)"
  by (induction bs arbitrary: p a) (simp_all add: add.assoc)

lemma linked_append:
  "linked m p a (xs @ ys) q \<longleftrightarrow> linked m p a xs (if ys = [] then q else addr (a + span xs))
     \<and> linked m (last_addr p a xs) (a + span xs) ys q"
  by (induction xs arbitrary: p a) (auto simp: add.assoc)

lemma linked_cong:
  assumes "\<And>x. a \<le> x \<Longrightarrow> x < a + span bs \<Longrightarrow> m' (addr x) = m (addr x)"
  shows "linked m' p a bs q = linked m p a bs q"
  using assms
proof (induction bs arbitrary: p a)
  case (Cons b bs)
  have "linked m' (addr a) (a + 32 + fst b) bs q = linked m (addr a) (a + 32 + fst b) bs q"
    by (rule Cons.IH) (use Cons.prems in simp)
  moreover have "m' (addr (a + i)) = m (addr (a + i))" if "i < 32" for i
    using Cons.prems that by simp
  note header_cong [of m' a m, OF this]
  ultimately show ?case by simp
qed simp

text \<open>Only the first header of a segment knows what precedes it.\<close>

lemma linked_set_prev:
  assumes l: "linked m p a ys q" and m': "\<And>x. a + 32 \<le> x \<Longrightarrow> x < a + span ys \<Longrightarrow> m' (addr x) = m (addr x)"
    and hd: "ys \<noteq> [] \<Longrightarrow> blk_size m' (addr a) = blk_size m (addr a)
      \<and> blk_used m' (addr a) = blk_used m (addr a) \<and> blk_next m' (addr a) = blk_next m (addr a)
      \<and> blk_prev m' (addr a) = p'"
  shows "linked m' p' a ys q"
proof (cases ys)
  case (Cons b bs)
  have "linked m' (addr a) (a + 32 + fst b) bs q = linked m (addr a) (a + 32 + fst b) bs q"
    by (rule linked_cong) (use m' Cons in simp)
  then show ?thesis using l hd Cons by simp
qed simp

end
