(* ===== verification/Heap_Search.thy ===== *)
theory Heap_Search
  imports Heap_Layout
begin

text \<open>
  The invariant of the heap and the search of \<open>find_free_block\<close>: it ends, and
  returns the first of the smallest free blocks that are large enough.
\<close>

section \<open>The invariant\<close>

definition HEAP_BASE :: nat where
  "HEAP_BASE = 0xFFFFFFFF90000000"

definition HEAP_BYTES :: nat where
  "HEAP_BYTES = 0x100000"

lemma addr_HEAP_BASE: "HEAP_START = addr HEAP_BASE"
  by (simp add: addr_def HEAP_START_def HEAP_BASE_def)

lemma heap_bounds: "0 < HEAP_BASE" "HEAP_BASE + HEAP_BYTES < 2 ^ 64" "HEAP_BYTES < 2 ^ 32"
  by (simp_all add: HEAP_BASE_def HEAP_BYTES_def)

definition block_addr :: "layout \<Rightarrow> nat \<Rightarrow> nat" where
  "block_addr bs i = HEAP_BASE + span (take i bs)"

definition used_bytes :: "layout \<Rightarrow> nat" where
  "used_bytes bs = (\<Sum>b \<leftarrow> filter snd bs. fst b)"

lemma used_bytes_simps [simp]: "used_bytes [] = 0"
  "used_bytes (b # bs) = (if snd b then fst b else 0) + used_bytes bs"
  "used_bytes (bs @ cs) = used_bytes bs + used_bytes cs"
  by (simp_all add: used_bytes_def)

text \<open>No two free blocks next to each other.\<close>

fun coalesced :: "layout \<Rightarrow> bool" where
  "coalesced (b # c # bs) = ((snd b \<or> snd c) \<and> coalesced (c # bs))"
| "coalesced _ = True"

lemma coalesced_Cons: "coalesced (b # bs) \<longleftrightarrow> coalesced bs \<and> (bs = [] \<or> snd b \<or> snd (hd bs))"
  by (cases bs) auto

lemma coalesced_append:
  "coalesced (xs @ ys) \<longleftrightarrow> coalesced xs \<and> coalesced ys
     \<and> (xs \<noteq> [] \<and> ys \<noteq> [] \<longrightarrow> snd (last xs) \<or> snd (hd ys))"
  by (induction xs) (auto simp: coalesced_Cons hd_append)

definition sized :: "layout \<Rightarrow> bool" where
  "sized bs \<longleftrightarrow> (\<forall>b \<in> set bs. fst b mod 8 = 0 \<and> 8 \<le> fst b)"

lemma sized_simps [simp]: "sized []"
  "sized (b # bs) \<longleftrightarrow> fst b mod 8 = 0 \<and> 8 \<le> fst b \<and> sized bs"
  "sized (bs @ cs) \<longleftrightarrow> sized bs \<and> sized cs"
  by (auto simp: sized_def)

definition heap_inv :: "layout \<Rightarrow> 'a heap_scheme \<Rightarrow> bool" where
  "heap_inv bs s \<longleftrightarrow> first_block s = HEAP_START \<and> heap_total s = HEAP_INITIAL_SIZE
     \<and> linked (kmem s) 0 HEAP_BASE bs 0 \<and> span bs = HEAP_BYTES
     \<and> sized bs \<and> coalesced bs
     \<and> heap_used s = of_nat (used_bytes bs) \<and> block_count s = of_nat (length bs)"

lemma heap_inv_nonempty: "heap_inv bs s \<Longrightarrow> bs \<noteq> []"
  by (auto simp: heap_inv_def HEAP_BYTES_def)

lemma used_bytes_le_span: "used_bytes bs \<le> span bs"
  by (induction bs) auto

lemma span_take_le: "i < length bs \<Longrightarrow> span (take i bs) + 32 + fst (bs ! i) \<le> span bs"
proof -
  assume "i < length bs"
  then have "span bs = span (take i bs) + span (bs ! i # drop (Suc i) bs)"
    using id_take_nth_drop [of i bs] by (metis span_simps(3))
  then show ?thesis by simp
qed

lemma linked_nth:
  assumes "linked m p a bs q" and "i < length bs"
  shows "blk_size m (addr (a + span (take i bs))) = of_nat (fst (bs ! i))"
    and "blk_used m (addr (a + span (take i bs))) = snd (bs ! i)"
proof -
  have "linked m p a (take i bs @ bs ! i # drop (Suc i) bs) q"
    using assms by (simp flip: id_take_nth_drop)
  then show "blk_size m (addr (a + span (take i bs))) = of_nat (fst (bs ! i))"
    and "blk_used m (addr (a + span (take i bs))) = snd (bs ! i)"
    by (simp_all add: linked_append)
qed

section \<open>The search\<close>

definition fits :: "nat \<Rightarrow> nat \<times> bool \<Rightarrow> bool" where
  "fits n b \<longleftrightarrow> \<not> snd b \<and> n \<le> fst b"

definition best_fit :: "nat \<Rightarrow> layout \<Rightarrow> nat \<Rightarrow> bool" where
  "best_fit n bs i \<longleftrightarrow> i < length bs \<and> fits n (bs ! i)
     \<and> (\<forall>j < length bs. fits n (bs ! j) \<longrightarrow>
          fst (bs ! i) \<le> fst (bs ! j) \<and> (j < i \<longrightarrow> fst (bs ! i) < fst (bs ! j)))"

definition search_result :: "nat \<Rightarrow> nat \<Rightarrow> layout \<Rightarrow> u64 \<Rightarrow> bool" where
  "search_result n a bs r \<longleftrightarrow>
     r = 0 \<and> (\<forall>b \<in> set bs. \<not> fits n b)
     \<or> (\<exists>i. best_fit n bs i \<and> r = addr (a + span (take i bs)))"

lemma best_fit_keep:
  assumes "best_fit n xs i" and "fits n b \<Longrightarrow> fst (xs ! i) \<le> fst b"
  shows "best_fit n (xs @ [b]) i"
  using assms by (auto simp: best_fit_def nth_append less_Suc_eq)

lemma best_fit_new:
  assumes "fits n b" and "\<And>c. c \<in> set xs \<Longrightarrow> fits n c \<Longrightarrow> fst b < fst c"
  shows "best_fit n (xs @ [b]) (length xs)"
proof -
  have "fst b < fst (xs ! j)" if "j < length xs" "fits n (xs ! j)" for j
    using assms(2) that by simp
  then show ?thesis
    using assms(1) by (simp add: best_fit_def nth_append less_Suc_eq less_imp_le)
qed

lemma best_fit_least: "best_fit n xs i \<Longrightarrow> c \<in> set xs \<Longrightarrow> fits n c \<Longrightarrow> fst (xs ! i) \<le> fst c"
  by (auto simp: best_fit_def in_set_conv_nth)

lemma best_fit_unique: "best_fit n bs i \<Longrightarrow> best_fit n bs j \<Longrightarrow> i = j"
  unfolding best_fit_def by (metis linorder_neqE_nat not_le)

lemma search_step:
  fixes sz :: u64
  assumes l: "linked m p a (xs @ b # ys) 0" and bound: "a + span (xs @ b # ys) \<le> 2 ^ 64" and a: "0 < a"
    and best: "search_result (unat sz) a xs best"
  defines "cur \<equiv> addr (a + span xs)"
  shows "search_result (unat sz) a (xs @ [b])
     (if \<not> blk_used m cur \<and> sz \<le> blk_size m cur \<and> (best = 0 \<or> blk_size m cur < blk_size m best)
      then cur else best)"
proof -
  have cur: "blk_size m cur = of_nat (fst b)" "blk_used m cur = snd b"
    using l by (simp_all add: linked_append cur_def)
  have small: "fst c < 2 ^ 64" if "c \<in> set (xs @ b # ys)" for c
  proof -
    obtain i where "i < length (xs @ b # ys)" "c = (xs @ b # ys) ! i"
      using \<open>c \<in> _\<close> by (metis in_set_conv_nth)
    then have "32 + fst c \<le> span (xs @ b # ys)"
      using span_take_le [of i "xs @ b # ys"] by simp
    then show ?thesis using bound a by linarith
  qed
  have fit: "\<not> blk_used m cur \<and> sz \<le> blk_size m cur \<longleftrightarrow> fits (unat sz) b"
    using small [of b] cur by (simp add: fits_def word_le_nat_alt unat_of_nat_u64)
  show ?thesis
  proof (cases "\<exists>i. best_fit (unat sz) xs i \<and> best = addr (a + span (take i xs))")
    case True
    then obtain i where i: "best_fit (unat sz) xs i" "best = addr (a + span (take i xs))" by blast
    then have il: "i < length xs" by (simp add: best_fit_def)
    have "a + span (take i xs) < 2 ^ 64" using span_take_le [OF il] bound by simp
    then have nz: "best \<noteq> 0" using i(2) a by (auto simp: addr_nonzero)
    have "blk_size m best = of_nat (fst (xs ! i))"
      using linked_nth(1) [OF l, of i] il i(2) by (simp add: nth_append)
    then have lt: "blk_size m cur < blk_size m best \<longleftrightarrow> fst b < fst (xs ! i)"
      using small [of b] small [of "xs ! i"] il cur
      by (simp add: word_less_nat_alt unat_of_nat_u64)
    show ?thesis
    proof (cases "fits (unat sz) b \<and> fst b < fst (xs ! i)")
      case True
      then have "best_fit (unat sz) (xs @ [b]) (length xs)"
        using best_fit_least [OF i(1)] by (intro best_fit_new) fastforce+
      with True fit lt show ?thesis by (auto simp: search_result_def cur_def)
    next
      case False
      then have "best_fit (unat sz) (xs @ [b]) i" using i(1) by (intro best_fit_keep) auto
      moreover have "take i (xs @ [b]) = take i xs" using il by simp
      ultimately have "search_result (unat sz) a (xs @ [b]) best"
        using i(2) unfolding search_result_def by metis
      with False fit lt nz show ?thesis by auto
    qed
  next
    case False
    then have none: "best = 0" "\<forall>c \<in> set xs. \<not> fits (unat sz) c"
      using best by (auto simp: search_result_def)
    show ?thesis
    proof (cases "fits (unat sz) b")
      case True
      then have "best_fit (unat sz) (xs @ [b]) (length xs)" using none by (intro best_fit_new) auto
      with True fit none show ?thesis by (auto simp: search_result_def cur_def)
    next
      case False
      with fit none show ?thesis by (auto simp: search_result_def)
    qed
  qed
qed

lemma find_loop_result:
  assumes "linked m p a (xs @ ys) 0" and "a + span (xs @ ys) \<le> 2 ^ 64" and "0 < a"
    and "search_result (unat sz) a xs best"
  shows "\<exists>r. find_free_loop_blk m sz (if ys = [] then 0 else addr (a + span xs)) best = Some r
    \<and> search_result (unat sz) a (xs @ ys) r"
  using assms
proof (induction ys arbitrary: xs best)
  case Nil
  then show ?case by (simp add: find_free_loop_blk.simps)
next
  case (Cons b ys)
  let ?cur = "addr (a + span xs)"
  let ?best = "if \<not> blk_used m ?cur \<and> sz \<le> blk_size m ?cur \<and> (best = 0 \<or> blk_size m ?cur < blk_size m best)
      then ?cur else best"
  have nz: "?cur \<noteq> 0" using Cons.prems(2,3) by (intro addr_nonzero) simp_all
  have nxt: "blk_next m ?cur = (if ys = [] then 0 else addr (a + span (xs @ [b])))"
    using Cons.prems(1) by (simp add: linked_append add.assoc)
  have "search_result (unat sz) a (xs @ [b]) ?best"
    by (rule search_step [OF Cons.prems])
  then obtain r where "find_free_loop_blk m sz (if ys = [] then 0 else addr (a + span (xs @ [b]))) ?best = Some r"
      "search_result (unat sz) a (xs @ b # ys) r"
    using Cons.IH [of "xs @ [b]" ?best] Cons.prems(1-3) by auto
  moreover have "find_free_loop_blk m sz ?cur best = find_free_loop_blk m sz (blk_next m ?cur) ?best"
    using nz by (subst find_free_loop_blk.simps) simp
  ultimately show ?case using nxt by simp
qed

lemma find_free_block_result:
  assumes "heap_inv bs s"
  obtains r where "find_free_block sz s = Some r" and "search_result (unat sz) HEAP_BASE bs r"
proof -
  have "linked (kmem s) 0 HEAP_BASE ([] @ bs) 0" "HEAP_BASE + span ([] @ bs) \<le> 2 ^ 64"
    using assms heap_bounds by (simp_all add: heap_inv_def)
  from find_loop_result [OF this heap_bounds(1), of sz 0]
  show thesis using that heap_inv_nonempty [OF assms] assms
    by (auto simp: find_free_block_def search_result_def heap_inv_def addr_HEAP_BASE)
qed

end
