(* ===== verification/Heap_Alloc.thy ===== *)
theory Heap_Alloc
  imports Heap_Search
begin

text \<open>
  \<open>kmalloc\<close> on the list of blocks: the best fitting free block is marked used,
  and split when the rest can hold a block of its own. The bytes of every other
  block in use stay as they are.
\<close>

section \<open>The requested size\<close>

lemma and_not_7: "w AND NOT 7 = (w div 8) * (8 :: u64)"
proof -
  have "w AND NOT (mask 3) = push_bit 3 (drop_bit 3 w)"
    by (rule bit_word_eqI) (auto simp: bit_simps)
  then show ?thesis
    by (simp add: mask_eq_exp_minus_1 push_bit_eq_mult drop_bit_eq_div)
qed

lemma unat_round8: "unat (w AND NOT (7::u64)) = unat w div 8 * 8"
proof -
  have "unat w div 8 * 8 < 2 ^ 64" using unat_u64_bound [of w] by (meson div_times_less_eq_dividend le_less_trans)
  then show ?thesis unfolding and_not_7 by (simp add: unat_word_ariths unat_div)
qed

definition request_nat :: "nat \<Rightarrow> nat" where
  "request_nat n = max 32 ((n + 7) div 8 * 8)"

lemma request_size_nat:
  assumes "unat sz + 7 < 2 ^ 64"
  shows "unat (request_size sz) = request_nat (unat sz)"
proof -
  have eq: "sz + HEAP_ALIGNMENT - 1 = sz + 7" "HEAP_ALIGNMENT - 1 = 7" by (simp_all add: HEAP_ALIGNMENT_def)
  have "unat (sz + 7) = unat sz + 7" using unat_add_no_wrap [of sz 7] assms by simp
  then have r: "unat ((sz + 7) AND NOT 7) = (unat sz + 7) div 8 * 8" by (simp only: unat_round8)
  show ?thesis
    unfolding request_size_def Let_def eq HEADER_def request_nat_def
    by (simp only: if_distrib [of unat] word_less_nat_alt r) (simp add: max_def)
qed

lemma request_nat_ge: "n \<le> request_nat n" "32 \<le> request_nat n" "request_nat n mod 8 = 0"
proof -
  show "n \<le> request_nat n" unfolding request_nat_def by linarith
  show "32 \<le> request_nat n" by (simp add: request_nat_def)
  show "request_nat n mod 8 = 0" by (auto simp: request_nat_def max_def)
qed

text \<open>A request within seven bytes of the word size wraps around to the minimum.\<close>

lemma request_size_wraps:
  assumes "2 ^ 64 \<le> unat sz + 7"
  shows "request_size sz = 32"
proof -
  have eq: "sz + HEAP_ALIGNMENT - 1 = sz + 7" "HEAP_ALIGNMENT - 1 = 7" by (simp_all add: HEAP_ALIGNMENT_def)
  have "unat (sz + 7) = (unat sz + 7) mod 2 ^ 64" by (simp add: unat_word_ariths)
  also have "\<dots> = unat sz + 7 - 2 ^ 64" using assms unat_u64_bound [of sz] by (simp add: mod_if)
  finally have "unat (sz + 7) < 7" using unat_u64_bound [of sz] assms by linarith
  then have "unat ((sz + 7) AND NOT 7) = 0" by (simp only: unat_round8) simp
  then have "(sz + 7) AND NOT 7 = 0" by (simp only: unat_eq_zero)
  then show ?thesis unfolding request_size_def Let_def eq by (simp add: HEADER_def)
qed

section \<open>Splitting a block\<close>

lemma header_simps:
  assumes "a + 32 \<le> 2 ^ 64" and "b + 32 \<le> 2 ^ 64" and "a + 32 \<le> b \<or> b + 32 \<le> a"
  shows "blk_size (set_size (addr b) v m) (addr a) = blk_size m (addr a)"
    "blk_used (set_size (addr b) v m) (addr a) = blk_used m (addr a)"
    "blk_next (set_size (addr b) v m) (addr a) = blk_next m (addr a)"
    "blk_prev (set_size (addr b) v m) (addr a) = blk_prev m (addr a)"
    "blk_size (set_used (addr b) u m) (addr a) = blk_size m (addr a)"
    "blk_used (set_used (addr b) u m) (addr a) = blk_used m (addr a)"
    "blk_next (set_used (addr b) u m) (addr a) = blk_next m (addr a)"
    "blk_prev (set_used (addr b) u m) (addr a) = blk_prev m (addr a)"
    "blk_size (set_next (addr b) v m) (addr a) = blk_size m (addr a)"
    "blk_used (set_next (addr b) v m) (addr a) = blk_used m (addr a)"
    "blk_next (set_next (addr b) v m) (addr a) = blk_next m (addr a)"
    "blk_prev (set_next (addr b) v m) (addr a) = blk_prev m (addr a)"
    "blk_size (set_prev (addr b) v m) (addr a) = blk_size m (addr a)"
    "blk_used (set_prev (addr b) v m) (addr a) = blk_used m (addr a)"
    "blk_next (set_prev (addr b) v m) (addr a) = blk_next m (addr a)"
    "blk_prev (set_prev (addr b) v m) (addr a) = blk_prev m (addr a)"
  by (rule header_other [OF assms, of _ v m u]; simp)+

text \<open>Memories that agree outside a range of addresses.\<close>

definition same_outside :: "nat \<Rightarrow> nat \<Rightarrow> bytes \<Rightarrow> bytes \<Rightarrow> bool" where
  "same_outside lo hi m m' \<longleftrightarrow> (\<forall>x < 2 ^ 64. x < lo \<or> hi \<le> x \<longrightarrow> m' (addr x) = m (addr x))"

lemma same_outsideD: "same_outside lo hi m m' \<Longrightarrow> x < 2 ^ 64 \<Longrightarrow> x < lo \<or> hi \<le> x \<Longrightarrow> m' (addr x) = m (addr x)"
  unfolding same_outside_def by blast

lemma same_outside_refl [simp]: "same_outside lo hi m m"
  by (simp add: same_outside_def)

lemma same_outside_set:
  assumes "same_outside lo hi m m'" and "lo \<le> b" and "b + 32 \<le> hi" and "b + 32 \<le> 2 ^ 64"
  shows "same_outside lo hi m (set_size (addr b) v m')" "same_outside lo hi m (set_used (addr b) u m')"
    "same_outside lo hi m (set_next (addr b) v m')" "same_outside lo hi m (set_prev (addr b) v m')"
  using assms set_outside [OF _ assms(4)] unfolding same_outside_def by auto

definition split_memory :: "nat \<Rightarrow> nat \<Rightarrow> nat \<Rightarrow> layout \<Rightarrow> bytes \<Rightarrow> bytes" where
  "split_memory b n z ys m =
     (let c = addr (b + 32 + n);
          m1 = set_prev c (addr b) (set_next c (if ys = [] then 0 else addr (b + 32 + z))
                 (set_used c False (set_size c (of_nat (z - n - 32)) m)));
          m2 = (if ys \<noteq> [] then set_prev (addr (b + 32 + z)) c m1 else m1)
      in set_size (addr b) (of_nat n) (set_next (addr b) c m2))"

lemma split_block_memory:
  assumes l: "blk_size (kmem s) (addr b) = of_nat z" "blk_next (kmem s) (addr b) = (if ys = [] then 0 else addr (b + 32 + z))"
    and n: "n + 40 \<le> z" and bound: "b + 32 + z + 32 \<le> 2 ^ 64"
  shows "split_block (addr b) (of_nat n) s
    = s\<lparr>kmem := split_memory b n z ys (kmem s), block_count := block_count s + 1\<rparr>"
proof -
  have c: "addr b + HEADER + of_nat n = addr (b + 32 + n)" by (simp add: addr_plus_header addr_offset)
  have r: "(of_nat z - of_nat n - HEADER :: u64) = of_nat (z - n - 32)"
    using n by (simp add: HEADER_def)
  have d: "addr (b + 32 + z) \<noteq> 0" using bound by (intro addr_nonzero) simp_all
  show ?thesis
    using d n bound unfolding split_block_def Let_def c l r split_memory_def
    by (simp add: header_simps l)
qed

lemma split_memory_same_outside:
  assumes "n + 40 \<le> z" and "b + 32 + z + 32 \<le> 2 ^ 64"
  shows "same_outside b (b + 32 + z + 32) m (split_memory b n z ys m)"
  unfolding split_memory_def Let_def
  by (cases "ys = []") (use assms in \<open>simp_all add: same_outside_set\<close>)

lemma split_memory_linked:
  assumes l: "linked m p a (xs @ (z, False) # ys) 0" and n: "n + 40 \<le> z"
    and bound: "a + span (xs @ (z, False) # ys) + 32 \<le> 2 ^ 64"
  defines "b \<equiv> a + span xs"
  defines "m' \<equiv> set_used (addr b) True (split_memory b n z ys m)"
  shows "linked m' p a (xs @ (n, True) # (z - n - 32, False) # ys) 0"
    and "same_outside b (b + 32 + z + 32) m m'"
proof -
  let ?c = "b + 32 + n" and ?d = "b + 32 + z"
  have bd: "b + 32 + z + span ys + 32 \<le> 2 ^ 64" using bound by (simp add: b_def)
  show out: "same_outside b (b + 32 + z + 32) m m'"
    unfolding m'_def using split_memory_same_outside [of n z b m ys] n bd
    by (intro same_outside_set) simp_all
  note outD = same_outsideD [OF out]
  have lx: "linked m p a xs (addr b)" and lb: "blk_prev m (addr b) = last_addr p a xs"
    and ly: "linked m (addr b) ?d ys 0"
    using l by (simp_all add: linked_append b_def)
  have "linked m' p a xs (addr b) = linked m p a xs (addr b)"
  proof (rule linked_cong)
    fix x assume "x < a + span xs"
    then show "m' (addr x) = m (addr x)" using bd by (intro outD) (simp_all add: b_def)
  qed
  with lx have lx': "linked m' p a xs (addr b)" by simp
  have hb: "blk_size m' (addr b) = of_nat n" "blk_used m' (addr b)" "blk_next m' (addr b) = addr ?c"
      "blk_prev m' (addr b) = last_addr p a xs"
    using n bd lb by (simp_all add: m'_def split_memory_def Let_def header_simps)
  have hc: "blk_size m' (addr ?c) = of_nat (z - n - 32)" "\<not> blk_used m' (addr ?c)"
      "blk_next m' (addr ?c) = (if ys = [] then 0 else addr ?d)" "blk_prev m' (addr ?c) = addr b"
    using n bd by (simp_all add: m'_def split_memory_def Let_def header_simps)
  have ly': "linked m' (addr ?c) ?d ys 0"
  proof (rule linked_set_prev [OF ly])
    fix x assume "?d + 32 \<le> x" "x < ?d + span ys"
    then show "m' (addr x) = m (addr x)" using bd by (intro outD) simp_all
  next
    assume "ys \<noteq> []"
    then show "blk_size m' (addr ?d) = blk_size m (addr ?d) \<and> blk_used m' (addr ?d) = blk_used m (addr ?d)
        \<and> blk_next m' (addr ?d) = blk_next m (addr ?d) \<and> blk_prev m' (addr ?d) = addr ?c"
      using n bd by (simp add: m'_def split_memory_def Let_def header_simps)
  qed
  have cd: "?c + 32 + (z - n - 32) = ?d" using n by simp
  show "linked m' p a (xs @ (n, True) # (z - n - 32, False) # ys) 0"
    using lx' hb hc ly' cd by (simp add: linked_append b_def ac_simps)
qed

lemma mark_used_linked:
  assumes l: "linked m p a (xs @ (z, u) # ys) 0"
    and bound: "a + span (xs @ (z, u) # ys) \<le> 2 ^ 64"
  defines "b \<equiv> a + span xs"
  shows "linked (set_used (addr b) v m) p a (xs @ (z, v) # ys) 0"
    and "same_outside b (b + 32) m (set_used (addr b) v m)"
proof -
  have bd: "b + 32 + z + span ys \<le> 2 ^ 64" using bound by (simp add: b_def)
  show out: "same_outside b (b + 32) m (set_used (addr b) v m)"
    using bd by (intro same_outside_set) simp_all
  note outD = same_outsideD [OF out]
  have "linked (set_used (addr b) v m) p a xs q = linked m p a xs q" for q
    using bd by (intro linked_cong outD) (simp_all add: b_def)
  moreover have "linked (set_used (addr b) v m) q (b + 32 + z) ys 0 = linked m q (b + 32 + z) ys 0" for q
    using bd by (intro linked_cong outD) simp_all
  ultimately show "linked (set_used (addr b) v m) p a (xs @ (z, v) # ys) 0"
    using l by (simp add: linked_append b_def)
qed

section \<open>Allocation on the list\<close>

definition take_block :: "nat \<Rightarrow> nat \<Rightarrow> layout \<Rightarrow> layout" where
  "take_block n z ys = (if n + 40 \<le> z then (n, True) # (z - n - 32, False) # ys else (z, True) # ys)"

lemma span_take_block [simp]: "span (take_block n z ys) = 32 + z + span ys"
  by (simp add: take_block_def)

lemma heap_inv_klog [simp]:
  "heap_inv bs (klog a s) = heap_inv bs s" "heap_inv bs (klog_num a k v b s) = heap_inv bs s"
  by (simp_all add: heap_inv_def klog_def klog_num_def)

lemma heap_klog_fields [simp]:
  "kmem (klog a s) = kmem s" "kmem (klog_num a k v b s) = kmem s"
  "heap_used (klog a s) = heap_used s" "heap_used (klog_num a k v b s) = heap_used s"
  "block_count (klog a s) = block_count s" "block_count (klog_num a k v b s) = block_count s"
  by (simp_all add: klog_def klog_num_def)

lemma heap_inv_split:
  assumes "heap_inv (xs @ (z, u) # ys) s"
  shows "blk_size (kmem s) (addr (HEAP_BASE + span xs)) = of_nat z"
    and "blk_used (kmem s) (addr (HEAP_BASE + span xs)) = u"
    and "blk_next (kmem s) (addr (HEAP_BASE + span xs))
      = (if ys = [] then 0 else addr (HEAP_BASE + span xs + 32 + z))"
    and "span xs + 32 + z + span ys = HEAP_BYTES"
    and "HEAP_BASE + span (xs @ (z, u) # ys) + 32 \<le> 2 ^ 64"
    and "linked (kmem s) 0 HEAP_BASE (xs @ (z, u) # ys) 0"
  using assms by (simp_all add: heap_inv_def linked_append HEAP_BASE_def HEAP_BYTES_def)

lemma kmalloc_takes:
  assumes inv: "heap_inv (xs @ (z, False) # ys) s" and sz: "sz0 \<noteq> 0"
    and n: "n = unat (request_size sz0)" "n \<le> z" "n mod 8 = 0" "8 \<le> n"
    and found: "find_free_block (request_size sz0) s = Some (addr b)"
    and b: "b = HEAP_BASE + span xs"
  obtains s' where "kmalloc sz0 s = Some (addr (b + 32), s')"
    and "heap_inv (xs @ take_block n z ys) s'"
    and "same_outside b (b + 32 + z + 32) (kmem s) (kmem s')"
proof -
  note hd = heap_inv_split [OF inv, folded b]
  have b64: "b < 2 ^ 64" "0 < b" using hd(5) b heap_bounds by simp_all
  have nz: "addr b \<noteq> 0" using b64 by (intro addr_nonzero)
  have zb: "z < 2 ^ 32" using hd(4) heap_bounds by simp
  have req: "request_size sz0 = of_nat n" by (simp add: n(1))
  have "unat (request_size sz0 + HEADER + HEAP_ALIGNMENT) = n + 40"
    using n zb by (simp add: HEADER_def HEAP_ALIGNMENT_def unat_word_ariths)
  then have big: "request_size sz0 + HEADER + HEAP_ALIGNMENT \<le> blk_size (kmem s) (addr b) \<longleftrightarrow> n + 40 \<le> z"
    using zb by (simp add: word_le_nat_alt hd(1) unat_of_nat_u64)
  define s1 where "s1 = (if n + 40 \<le> z then split_block (addr b) (of_nat n) s else s)"
  let ?m = "set_used (addr b) True (kmem s1)"
  let ?s3 = "s1\<lparr>kmem := ?m, heap_used := heap_used s1 + blk_size ?m (addr b)\<rparr>"
  have keep: "first_block s1 = first_block s" "heap_total s1 = heap_total s" "heap_used s1 = heap_used s"
    by (simp_all add: s1_def split_block_def Let_def)
  have cnt: "block_count s = of_nat (length xs + 1 + length ys)" using inv by (simp add: heap_inv_def)
  have bd: "b + 32 + z + 32 \<le> 2 ^ 64" using hd(5) b by simp
  have mem: "linked ?m 0 HEAP_BASE (xs @ take_block n z ys) 0
      \<and> same_outside b (b + 32 + z + 32) (kmem s) ?m
      \<and> blk_size ?m (addr b) = of_nat (if n + 40 \<le> z then n else z)
      \<and> block_count s1 = of_nat (length (xs @ take_block n z ys))"
  proof (cases "n + 40 \<le> z")
    case True
    note sp = split_block_memory [OF hd(1,3) True bd]
    note sm = split_memory_linked [OF hd(6) True hd(5), folded b]
    show ?thesis
      using True sp sm cnt by (simp add: s1_def take_block_def split_memory_def Let_def)
  next
    case False
    have "HEAP_BASE + span (xs @ (z, False) # ys) \<le> 2 ^ 64" using hd(5) by simp
    note mu = mark_used_linked [OF hd(6) this, of True, folded b]
    have "same_outside b (b + 32 + z + 32) (kmem s) (set_used (addr b) True (kmem s))"
      using mu(2) unfolding same_outside_def by simp
    then show ?thesis
      using False mu(1) cnt hd(1) by (simp add: s1_def take_block_def)
  qed
  have "heap_inv (xs @ take_block n z ys) ?s3"
    using inv mem keep n
    by (auto simp: heap_inv_def take_block_def coalesced_append coalesced_Cons mod_eq_0_iff_dvd dvd_diff_nat)
  moreover let ?s4 = "klog_num '''' 10 (heap_used ?s3) '' bytes\<newline>''
        (klog_num ''[HEAP] Allocated '' 10 (request_size sz0) '' bytes, total used: '' ?s3)"
  have "kmalloc sz0 s = Some (addr (b + 32), ?s4)"
    using sz nz found big by (simp add: kmalloc_def Let_def addr_plus_header req s1_def)
  ultimately show thesis using mem by (intro that [of ?s4]) simp_all
qed

text \<open>The outcome of a request on every heap that satisfies the invariant.\<close>

lemma request_size_small:
  assumes "unat sz + 7 < 2 ^ 64"
  shows "unat (request_size sz) mod 8 = 0" "8 \<le> unat (request_size sz)"
  using request_nat_ge [of "unat sz"] by (simp_all add: request_size_nat [OF assms])

lemma kmalloc_none:
  assumes inv: "heap_inv bs s" and sz: "sz0 \<noteq> 0" "unat sz0 + 7 < 2 ^ 64"
    and none: "\<forall>b \<in> set bs. \<not> fits (request_nat (unat sz0)) b"
  shows "kmalloc sz0 s
    = Some (0, klog_num ''[HEAP] No free block found for size '' 10 (request_size sz0) ''\<newline>'' s)"
proof -
  obtain r where r: "find_free_block (request_size sz0) s = Some r"
      "search_result (unat (request_size sz0)) HEAP_BASE bs r"
    by (rule find_free_block_result [OF inv])
  then have "r = 0"
    using none request_size_nat [OF sz(2)] by (auto simp: search_result_def best_fit_def)
  with r sz show ?thesis by (simp add: kmalloc_def)
qed

lemma kmalloc_best:
  assumes inv: "heap_inv bs s" and sz: "sz0 \<noteq> 0" "unat sz0 + 7 < 2 ^ 64"
    and best: "best_fit (request_nat (unat sz0)) bs i"
  obtains s' where "kmalloc sz0 s = Some (addr (block_addr bs i + 32), s')"
    and "heap_inv (take i bs @ take_block (request_nat (unat sz0)) (fst (bs ! i)) (drop (Suc i) bs)) s'"
    and "same_outside (block_addr bs i) (block_addr bs i + 32 + fst (bs ! i) + 32) (kmem s) (kmem s')"
proof -
  let ?n = "request_nat (unat sz0)"
  note n = request_size_nat [OF sz(2)]
  have i: "i < length bs" "\<not> snd (bs ! i)" "?n \<le> fst (bs ! i)" using best by (simp_all add: best_fit_def fits_def)
  then have bs: "bs = take i bs @ (fst (bs ! i), False) # drop (Suc i) bs"
    using id_take_nth_drop [of i bs] by (simp add: prod_eq_iff) (metis prod.collapse)
  obtain r where r: "find_free_block (request_size sz0) s = Some r"
      "search_result (unat (request_size sz0)) HEAP_BASE bs r"
    by (rule find_free_block_result [OF inv])
  have "bs ! i \<in> set bs" "fits ?n (bs ! i)" using best by (simp_all add: best_fit_def)
  then obtain j where "best_fit ?n bs j" "r = addr (HEAP_BASE + span (take j bs))"
    using r(2) n by (auto simp: search_result_def)
  then have "find_free_block (request_size sz0) s = Some (addr (block_addr bs i))"
    using best_fit_unique [OF best] r(1) by (simp add: block_addr_def)
  moreover have "heap_inv (take i bs @ (fst (bs ! i), False) # drop (Suc i) bs) s"
    using inv bs by simp
  moreover note request_size_small [OF sz(2)]
  ultimately obtain s' where "kmalloc sz0 s = Some (addr (block_addr bs i + 32), s')"
    "heap_inv (take i bs @ take_block ?n (fst (bs ! i)) (drop (Suc i) bs)) s'"
    "same_outside (block_addr bs i) (block_addr bs i + 32 + fst (bs ! i) + 32) (kmem s) (kmem s')"
    using kmalloc_takes [of "take i bs" "fst (bs ! i)" "drop (Suc i) bs" s sz0 ?n "block_addr bs i"] sz(1) n i(3)
    by (metis block_addr_def)
  then show thesis by (rule that)
qed

lemma best_fit_exists: "\<exists>b \<in> set bs. fits n b \<Longrightarrow> \<exists>i. best_fit n bs i"
proof (induction bs rule: rev_induct)
  case (snoc c bs)
  show ?case
  proof (cases "\<exists>i. best_fit n bs i")
    case True
    then obtain i where i: "best_fit n bs i" by blast
    show ?thesis
    proof (cases "fits n c \<and> fst c < fst (bs ! i)")
      case True
      then have "best_fit n (bs @ [c]) (length bs)"
        using best_fit_least [OF i] by (intro best_fit_new) fastforce+
      then show ?thesis ..
    next
      case False
      then have "best_fit n (bs @ [c]) i" using i by (intro best_fit_keep) auto
      then show ?thesis ..
    qed
  next
    case False
    with snoc.IH have none: "\<forall>d \<in> set bs. \<not> fits n d" by blast
    with snoc.prems have c: "fits n c" by auto
    with none have "best_fit n (bs @ [c]) (length bs)" by (intro best_fit_new) auto
    then show ?thesis ..
  qed
qed simp

text \<open>A request too close to the word size is served as one of 32 bytes.\<close>

lemma kmalloc_wraps:
  assumes "2 ^ 64 \<le> unat sz + 7"
  shows "kmalloc sz s = kmalloc 32 s"
proof -
  have "request_size 32 = 32"
    by (simp add: request_size_def HEAP_ALIGNMENT_def HEADER_def)
  moreover have "sz \<noteq> 0" using assms by auto
  ultimately show ?thesis
    using request_size_wraps [OF assms] by (simp add: kmalloc_def)
qed

end
