(* ===== verification/Heap_Free.thy ===== *)
theory Heap_Free
  imports Heap_Alloc
begin

text \<open>
  \<open>kfree\<close> on the list of blocks: the block is marked free and joined with the
  free neighbours it has, the previous one first, so that no two free blocks are
  adjacent again; the bytes of every other block in use stay as they are.
\<close>

section \<open>Joining two blocks\<close>

definition join_memory :: "nat \<Rightarrow> nat \<Rightarrow> nat \<Rightarrow> layout \<Rightarrow> bytes \<Rightarrow> bytes" where
  "join_memory b x y ys m =
     (let d = b + 32 + x + 32 + y;
          m2 = set_next (addr b) (if ys = [] then 0 else addr d) (set_size (addr b) (of_nat (x + 32 + y)) m)
      in if ys \<noteq> [] then set_prev (addr d) (addr b) m2 else m2)"

lemma join_linked:
  assumes l: "linked m p a (xs @ (x, u) # (y, v) # ys) 0"
    and bound: "a + span (xs @ (x, u) # (y, v) # ys) + 32 \<le> 2 ^ 64"
  defines "b \<equiv> a + span xs"
  defines "m' \<equiv> join_memory b x y ys m"
  shows "linked m' p a (xs @ (x + 32 + y, u) # ys) 0"
    and "same_outside b (b + 32 + x + 32 + y + 32) m m'"
proof -
  let ?d = "b + 32 + x + 32 + y"
  have bd: "?d + span ys + 32 \<le> 2 ^ 64" using bound by (simp add: b_def)
  show out: "same_outside b (b + 32 + x + 32 + y + 32) m m'"
    unfolding m'_def join_memory_def Let_def
    by (cases "ys = []") (use bd in \<open>simp_all add: same_outside_set\<close>)
  note outD = same_outsideD [OF out]
  have lx: "linked m p a xs (addr b)" and lb: "blk_prev m (addr b) = last_addr p a xs" "blk_used m (addr b) = u"
    and ly: "linked m (addr (b + 32 + x)) ?d ys 0"
    using l by (simp_all add: linked_append b_def)
  have "linked m' p a xs (addr b) = linked m p a xs (addr b)"
    using bd by (intro linked_cong outD) (simp_all add: b_def)
  with lx have lx': "linked m' p a xs (addr b)" by simp
  have hb: "blk_size m' (addr b) = of_nat (x + 32 + y)" "blk_used m' (addr b) = u"
      "blk_next m' (addr b) = (if ys = [] then 0 else addr ?d)" "blk_prev m' (addr b) = last_addr p a xs"
    using bd lb by (simp_all add: m'_def join_memory_def Let_def header_simps)
  have ly': "linked m' (addr b) ?d ys 0"
  proof (rule linked_set_prev [OF ly])
    fix z assume "?d + 32 \<le> z" "z < ?d + span ys"
    then show "m' (addr z) = m (addr z)" using bd by (intro outD) simp_all
  next
    assume "ys \<noteq> []"
    then show "blk_size m' (addr ?d) = blk_size m (addr ?d) \<and> blk_used m' (addr ?d) = blk_used m (addr ?d)
        \<and> blk_next m' (addr ?d) = blk_next m (addr ?d) \<and> blk_prev m' (addr ?d) = addr b"
      using bd by (simp add: m'_def join_memory_def Let_def header_simps)
  qed
  show "linked m' p a (xs @ (x + 32 + y, u) # ys) 0"
    using lx' hb ly' by (simp add: linked_append b_def ac_simps)
qed

text \<open>Everything of the invariant but the absence of adjacent free blocks.\<close>

definition heap_core :: "layout \<Rightarrow> 'a heap_scheme \<Rightarrow> bool" where
  "heap_core bs s \<longleftrightarrow> first_block s = HEAP_START \<and> heap_total s = HEAP_INITIAL_SIZE
     \<and> linked (kmem s) 0 HEAP_BASE bs 0 \<and> span bs = HEAP_BYTES
     \<and> sized bs \<and> heap_used s = of_nat (used_bytes bs) \<and> block_count s = of_nat (length bs)"

lemma heap_inv_core: "heap_inv bs s \<longleftrightarrow> heap_core bs s \<and> coalesced bs"
  by (auto simp: heap_inv_def heap_core_def)

lemma heap_core_klog [simp]:
  "heap_core bs (klog a s) = heap_core bs s" "heap_core bs (klog_num a k v b s) = heap_core bs s"
  by (simp_all add: heap_core_def klog_def klog_num_def)

lemma heap_core_bound: "heap_core bs s \<Longrightarrow> HEAP_BASE + span bs + 32 \<le> 2 ^ 64"
  by (simp add: heap_core_def HEAP_BASE_def HEAP_BYTES_def)

lemma heap_core_at:
  assumes "heap_core (xs @ (z, u) # ys) s"
  defines "b \<equiv> HEAP_BASE + span xs"
  shows "blk_size (kmem s) (addr b) = of_nat z" and "blk_used (kmem s) (addr b) = u"
    and "blk_next (kmem s) (addr b) = (if ys = [] then 0 else addr (b + 32 + z))"
    and "blk_prev (kmem s) (addr b) = last_addr 0 HEAP_BASE xs"
    and "b + 32 + z + span ys + 32 \<le> 2 ^ 64" and "addr b \<noteq> 0"
    and "linked (kmem s) 0 HEAP_BASE (xs @ (z, u) # ys) 0"
proof -
  show *: "b + 32 + z + span ys + 32 \<le> 2 ^ 64" using heap_core_bound [OF assms(1)] by (simp add: b_def)
  show "addr b \<noteq> 0" using * by (intro addr_nonzero) (simp_all add: b_def HEAP_BASE_def)
qed (use assms(1) in \<open>simp_all add: heap_core_def linked_append b_def\<close>)

lemma heap_core_joined:
  assumes core: "heap_core (xs @ (x, u) # (y, False) # ys) s" and u: "\<not> u"
    and s': "s' = s\<lparr>kmem := join_memory (HEAP_BASE + span xs) x y ys (kmem s), block_count := block_count s - 1\<rparr>"
  shows "heap_core (xs @ (x + 32 + y, False) # ys) s'"
    and "same_outside (HEAP_BASE + span xs) (HEAP_BASE + span xs + 32 + x + 32 + y + 32) (kmem s) (kmem s')"
proof -
  note jl = join_linked [OF heap_core_at(7) [OF core] heap_core_bound [OF core]]
  show "same_outside (HEAP_BASE + span xs) (HEAP_BASE + span xs + 32 + x + 32 + y + 32) (kmem s) (kmem s')"
    using jl(2) by (simp add: s')
  have "(x + 32 + y) mod 8 = 0" using core by (auto simp: heap_core_def mod_eq_0_iff_dvd)
  then show "heap_core (xs @ (x + 32 + y, False) # ys) s'"
    using jl(1) core u by (auto simp: heap_core_def s')
qed

section \<open>The two merges\<close>

lemma merge_next_free:
  assumes core: "heap_core (xs @ (z, False) # (y, False) # ys) s"
  defines "b \<equiv> HEAP_BASE + span xs"
  shows "merge_next (addr b) s
    = s\<lparr>kmem := join_memory b z y ys (kmem s), block_count := block_count s - 1\<rparr>"
proof -
  note hb = heap_core_at [OF core, folded b_def]
  have eq: "xs @ (z, False) # (y, False) # ys = (xs @ [(z, False)]) @ (y, False) # ys" by simp
  have c: "HEAP_BASE + span (xs @ [(z, False)]) = b + 32 + z" by (simp add: b_def)
  note hc = heap_core_at [OF core [unfolded eq], unfolded c]
  define c where "c = addr (b + 32 + z)"
  define nx where "nx = (if ys = [] then 0 else addr (b + 32 + z + 32 + y))"
  define S :: u64 where "S = of_nat (z + 32 + y)"
  have nc: "blk_next (kmem s) (addr b) = c" "c \<noteq> 0" using hb(3) hc(6) by (simp_all add: c_def)
  have cs: "blk_size (kmem s) c = of_nat y" "\<not> blk_used (kmem s) c" using hc(1,2) by (simp_all add: c_def)
  have k1: "blk_next (set_size (addr b) v (kmem s)) c = nx" for v
    using header_simps(3) [of "b + 32 + z" b] hc(3,5) by (simp add: c_def nx_def)
  have "ys \<noteq> [] \<Longrightarrow> addr (b + 32 + z + 32 + y) \<noteq> 0" using hc(5) by (intro addr_nonzero) simp_all
  then have jm: "join_memory b z y ys (kmem s) = (if nx \<noteq> 0
      then set_prev nx (addr b) (set_next (addr b) nx (set_size (addr b) S (kmem s)))
      else set_next (addr b) nx (set_size (addr b) S (kmem s)))"
    by (simp only: join_memory_def Let_def nx_def S_def) simp
  have size: "of_nat z + (of_nat y + HEADER) = S" by (simp add: HEADER_def S_def)
  show ?thesis
    unfolding merge_next_def Let_def jm nc by (simp add: nc cs hb(1) k1 size)
qed

lemma merge_next_keep:
  assumes core: "heap_core (xs @ (z, u) # ys) s" and y: "ys = [] \<or> snd (hd ys)"
  shows "merge_next (addr (HEAP_BASE + span xs)) s = s"
proof (cases ys)
  case Nil
  then show ?thesis using heap_core_at(3) [OF core] by (simp add: merge_next_def)
next
  case (Cons c cs)
  then obtain v where "c = (v, True)" using y by (cases c) simp
  with core Cons have "heap_core ((xs @ [(z, u)]) @ (v, True) # cs) s" by simp
  from heap_core_at(2) [OF this] heap_core_at(3) [OF core] show ?thesis
    using Cons by (simp add: merge_next_def add.assoc)
qed

lemma merge_prev_free:
  assumes core: "heap_core (xs @ (x, False) # (z, False) # ys) s"
  defines "p \<equiv> HEAP_BASE + span xs"
  shows "merge_prev (addr (p + 32 + x)) s
    = (addr p, s\<lparr>kmem := join_memory p x z ys (kmem s), block_count := block_count s - 1\<rparr>)"
proof -
  note hp = heap_core_at [OF core, folded p_def]
  have eq: "xs @ (x, False) # (z, False) # ys = (xs @ [(x, False)]) @ (z, False) # ys" by simp
  have b: "HEAP_BASE + span (xs @ [(x, False)]) = p + 32 + x" by (simp add: p_def)
  note hb = heap_core_at [OF core [unfolded eq], unfolded b]
  define c where "c = addr (p + 32 + x)"
  define nx where "nx = (if ys = [] then 0 else addr (p + 32 + x + 32 + z))"
  define S :: u64 where "S = of_nat (x + 32 + z)"
  have pc: "blk_prev (kmem s) c = addr p" "blk_size (kmem s) c = of_nat z"
    using hb(1,4) by (simp_all add: c_def p_def)
  have k1: "blk_next (set_next (addr p) w (set_size (addr p) v (kmem s))) c = nx"
    "blk_next (set_size (addr p) v (kmem s)) c = nx" for v w
    using header_simps(3,11) [of "p + 32 + x" p] hb(3,5) by (simp_all add: c_def nx_def)
  have "ys \<noteq> [] \<Longrightarrow> addr (p + 32 + x + 32 + z) \<noteq> 0" using hb(5) by (intro addr_nonzero) simp_all
  then have jm: "join_memory p x z ys (kmem s) = (if nx \<noteq> 0
      then set_prev nx (addr p) (set_next (addr p) nx (set_size (addr p) S (kmem s)))
      else set_next (addr p) nx (set_size (addr p) S (kmem s)))"
    by (simp only: join_memory_def Let_def nx_def S_def) simp
  have size: "of_nat x + (of_nat z + HEADER) = S" by (simp add: HEADER_def S_def)
  show ?thesis
    unfolding merge_prev_def Let_def jm c_def [symmetric] by (simp add: pc hp(1,2,6) k1 size)
qed

lemma merge_prev_keep:
  assumes core: "heap_core (xs @ (z, u) # ys) s" and x: "xs = [] \<or> snd (last xs)"
  shows "merge_prev (addr (HEAP_BASE + span xs)) s = (addr (HEAP_BASE + span xs), s)"
proof (cases xs rule: rev_cases)
  case Nil
  then show ?thesis using heap_core_at(4) [OF core] by (simp add: merge_prev_def)
next
  case (snoc ws c)
  then obtain v where "c = (v, True)" using x by (cases c) simp
  with core snoc have "heap_core (ws @ (v, True) # (z, u) # ys) s" by simp
  from heap_core_at(2) [OF this] heap_core_at(4) [OF core] show ?thesis
    using snoc by (simp add: merge_prev_def)
qed

section \<open>The payloads in use\<close>

primrec live_from :: "nat \<Rightarrow> layout \<Rightarrow> (nat \<times> nat) set" where
  "live_from a [] = {}"
| "live_from a (b # bs) = (if snd b then {(a + 32, fst b)} else {}) \<union> live_from (a + 32 + fst b) bs"

definition live :: "layout \<Rightarrow> (nat \<times> nat) set" where
  "live bs = live_from HEAP_BASE bs"

definition payload_kept :: "(nat \<times> nat) set \<Rightarrow> bytes \<Rightarrow> bytes \<Rightarrow> bool" where
  "payload_kept L m m' \<longleftrightarrow> (\<forall>(p, k) \<in> L. \<forall>x. p \<le> x \<and> x < p + k \<longrightarrow> m' (addr x) = m (addr x))"

lemma live_from_append: "live_from a (xs @ ys) = live_from a xs \<union> live_from (a + span xs) ys"
  by (induction xs arbitrary: a) (auto simp: add.assoc)

lemma live_from_bounds: "(p, k) \<in> live_from a bs \<Longrightarrow> a + 32 \<le> p \<and> p + k \<le> a + span bs"
  by (induction bs arbitrary: a) (force split: if_splits)+

lemma live_from_disjoint:
  "(p, k) \<in> live_from a bs \<Longrightarrow> (q, l) \<in> live_from a bs \<Longrightarrow> (p, k) \<noteq> (q, l)
     \<Longrightarrow> p + k + 32 \<le> q \<or> q + l + 32 \<le> p"
proof (induction bs arbitrary: a)
  case (Cons b bs)
  have later: "a + 32 + fst b + 32 \<le> r" if "(r, n) \<in> live_from (a + 32 + fst b) bs" for r n
    using live_from_bounds [OF that] by simp
  from Cons.prems consider "(p, k) \<in> live_from (a + 32 + fst b) bs" "(q, l) \<in> live_from (a + 32 + fst b) bs"
    | "p = a + 32" "k = fst b" "(q, l) \<in> live_from (a + 32 + fst b) bs"
    | "q = a + 32" "l = fst b" "(p, k) \<in> live_from (a + 32 + fst b) bs"
    by (auto split: if_splits)
  then show ?case
  proof cases
    case 1
    then show ?thesis using Cons.IH Cons.prems(3) by blast
  next
    case 2
    then show ?thesis using later [OF 2(3)] by simp
  next
    case 3
    then show ?thesis using later [OF 3(3)] by simp
  qed
qed simp

lemma live_from_sizes: "sized bs \<Longrightarrow> a mod 8 = 0 \<Longrightarrow> (p, k) \<in> live_from a bs \<Longrightarrow> p mod 8 = 0 \<and> 8 \<le> k"
proof (induction bs arbitrary: a)
  case (Cons b bs)
  have "(a + 32 + fst b) mod 8 = 0"
    using Cons.prems(1,2) unfolding mod_eq_0_iff_dvd sized_simps by (intro dvd_add) simp_all
  then have "(p, k) \<in> live_from (a + 32 + fst b) bs \<Longrightarrow> ?case"
    using Cons.IH Cons.prems(1) by simp
  moreover have "(a + 32) mod 8 = 0" using Cons.prems(2) unfolding mod_eq_0_iff_dvd by (intro dvd_add) simp_all
  ultimately show ?case using Cons.prems(1,3) by (auto split: if_splits)
qed simp

lemma payload_kept_outside:
  assumes out: "same_outside lo hi m m'"
    and L: "\<And>p k. (p, k) \<in> L \<Longrightarrow> p + k \<le> 2 ^ 64 \<and> (p + k \<le> lo \<or> hi \<le> p)"
  shows "payload_kept L m m'"
  unfolding payload_kept_def
proof (intro ballI, clarify)
  fix p k x assume "(p, k) \<in> L" "p \<le> x" "x < p + k"
  then show "m' (addr x) = m (addr x)"
    using L [of p k] by (intro same_outsideD [OF out]) auto
qed

text \<open>A new payload, disjoint from the old ones, whose bytes are kept.\<close>

lemma live_take_block:
  "live (xs @ take_block n z ys)
     = insert (HEAP_BASE + span xs + 32, if n + 40 \<le> z then n else z) (live (xs @ (z, False) # ys))"
proof (cases "n + 40 \<le> z")
  case True
  then have "HEAP_BASE + span xs + 32 + n + 32 + (z - n - 32) = HEAP_BASE + span xs + 32 + z" by simp
  with True show ?thesis by (simp add: live_def live_from_append take_block_def ac_simps del: diff_diff_left)
qed (simp add: live_def live_from_append take_block_def)

lemma take_block_kept:
  assumes bound: "HEAP_BASE + span (xs @ (z, False) # ys) + 32 \<le> 2 ^ 64"
    and out: "same_outside (HEAP_BASE + span xs) (HEAP_BASE + span xs + 32 + z + 32) m m'"
  shows "payload_kept (live (xs @ (z, False) # ys)) m m'"
proof (rule payload_kept_outside [OF out])
  fix p k assume "(p, k) \<in> live (xs @ (z, False) # ys)"
  then have "(p, k) \<in> live_from HEAP_BASE xs \<or> (p, k) \<in> live_from (HEAP_BASE + span xs + 32 + z) ys"
    by (simp add: live_def live_from_append add.assoc)
  then show "p + k \<le> 2 ^ 64 \<and> (p + k \<le> HEAP_BASE + span xs \<or> HEAP_BASE + span xs + 32 + z + 32 \<le> p)"
    using live_from_bounds [of p k HEAP_BASE xs] live_from_bounds [of p k "HEAP_BASE + span xs + 32 + z" ys]
      bound by auto
qed

section \<open>Release on the list\<close>

definition join_right :: "nat \<Rightarrow> layout \<Rightarrow> layout" where
  "join_right z ys = (case ys of (y, False) # ys' \<Rightarrow> (z + 32 + y, False) # ys' | _ \<Rightarrow> (z, False) # ys)"

definition give_block :: "layout \<Rightarrow> nat \<Rightarrow> layout \<Rightarrow> layout" where
  "give_block xs z ys =
     (if xs \<noteq> [] \<and> \<not> snd (last xs) then butlast xs @ join_right (fst (last xs) + 32 + z) ys
      else xs @ join_right z ys)"

lemma join_right_simps [simp]:
  "join_right z [] = [(z, False)]"
  "join_right z ((y, True) # ys) = (z, False) # (y, True) # ys"
  "join_right z ((y, False) # ys) = (z + 32 + y, False) # ys"
  by (simp_all add: join_right_def)

text \<open>What the second merge does, and how far its writes reach.\<close>

lemma merge_next_effect:
  assumes core: "heap_core (xs @ (z, False) # ys) s" and co: "coalesced xs" "coalesced ys"
    and last: "xs = [] \<or> snd (last xs)"
  defines "b \<equiv> HEAP_BASE + span xs"
  shows "heap_inv (xs @ join_right z ys) (merge_next (addr b) s)"
    and "payload_kept (live (xs @ join_right z ys)) (kmem s) (kmem (merge_next (addr b) s))"
proof -
  have "heap_inv (xs @ join_right z ys) (merge_next (addr b) s)
    \<and> payload_kept (live (xs @ join_right z ys)) (kmem s) (kmem (merge_next (addr b) s))"
  proof (cases "ys = [] \<or> snd (hd ys)")
    case True
    then have jr: "join_right z ys = (z, False) # ys"
      by (cases ys) (auto simp: join_right_def split: prod.splits bool.splits)
    have "coalesced (xs @ (z, False) # ys)"
      using True co last by (auto simp: coalesced_append coalesced_Cons)
    with merge_next_keep [OF core True] core jr show ?thesis
      by (auto simp: heap_inv_core b_def payload_kept_def)
  next
    case False
    then obtain y ys' where ys: "ys = (y, False) # ys'" by (cases ys) auto
    let ?s' = "merge_next (addr b) s"
    note eq = merge_next_free [OF core [unfolded ys]]
    note jn = heap_core_joined [OF core [unfolded ys] _ eq, simplified]
    have "coalesced (xs @ (z + 32 + y, False) # ys')"
      using co last ys by (auto simp: coalesced_append coalesced_Cons)
    moreover have "payload_kept (live (xs @ (z + 32 + y, False) # ys')) (kmem s) (kmem ?s')"
    proof (rule take_block_kept)
      show "HEAP_BASE + span (xs @ (z + 32 + y, False) # ys') + 32 \<le> 2 ^ 64"
        using heap_core_bound [OF core] ys by simp
      show "same_outside (HEAP_BASE + span xs) (HEAP_BASE + span xs + 32 + (z + 32 + y) + 32) (kmem s) (kmem ?s')"
        using jn(2) by (simp add: b_def ac_simps)
    qed
    ultimately show ?thesis using jn(1) ys by (simp add: heap_inv_core b_def)
  qed
  then show "heap_inv (xs @ join_right z ys) (merge_next (addr b) s)"
    and "payload_kept (live (xs @ join_right z ys)) (kmem s) (kmem (merge_next (addr b) s))" by simp_all
qed

lemma last_free_split:
  assumes "xs \<noteq> []" and "\<not> snd (last xs)"
  shows "xs = butlast xs @ [(fst (last xs), False)]"
  using append_butlast_last_id [OF assms(1)] assms(2) by (metis prod.collapse)

lemma live_join_right: "live (xs @ join_right z ys) = live (xs @ (z, False) # ys)"
  by (auto simp: live_def live_from_append join_right_def ac_simps split: list.splits prod.splits bool.splits)

lemma payload_kept_trans: "payload_kept L m m' \<Longrightarrow> payload_kept L m' m'' \<Longrightarrow> payload_kept L m m''"
  unfolding payload_kept_def by fastforce

lemma same_outside_weaken:
  "same_outside lo hi m m' \<Longrightarrow> lo' \<le> lo \<Longrightarrow> hi \<le> hi' \<Longrightarrow> same_outside lo' hi' m m'"
  unfolding same_outside_def by auto

lemma kfree_effect:
  assumes inv: "heap_inv (xs @ (z, True) # ys) s"
  defines "b \<equiv> HEAP_BASE + span xs"
  shows "heap_inv (give_block xs z ys) (kfree (addr (b + 32)) s)"
    and "payload_kept (live (give_block xs z ys)) (kmem s) (kmem (kfree (addr (b + 32)) s))"
proof -
  have core: "heap_core (xs @ (z, True) # ys) s" and co: "coalesced xs" "coalesced ys"
    using inv by (simp_all add: heap_inv_core coalesced_append coalesced_Cons)
  note hb = heap_core_at [OF core, folded b_def]
  have nz: "addr (b + 32) \<noteq> 0" using hb(5) by (intro addr_nonzero) simp_all
  let ?m = "set_used (addr b) False (kmem s)"
  let ?s2 = "s\<lparr>kmem := ?m, heap_used := heap_used s - of_nat z\<rparr>"
  define s3 where "s3 = klog_num '''' 10 (heap_used ?s2) '' bytes\<newline>''
      (klog_num ''[HEAP] Freed '' 10 (of_nat z) '' bytes, total used: '' ?s2)"
  have "HEAP_BASE + span (xs @ (z, True) # ys) \<le> 2 ^ 64" using heap_core_bound [OF core] by simp
  note mu = mark_used_linked [OF hb(7) this, of False, folded b_def]
  have core3: "heap_core (xs @ (z, False) # ys) s3"
    using core mu(1) by (simp add: s3_def) (auto simp: heap_core_def)
  have mem3: "kmem s3 = ?m" by (simp add: s3_def)
  have run: "kfree (addr (b + 32)) s = (case merge_prev (addr b) s3 of (b', s4) \<Rightarrow> merge_next b' s4)"
    using nz hb(1,2) by (simp add: kfree_def Let_def addr_minus_header s3_def)
  show "heap_inv (give_block xs z ys) (kfree (addr (b + 32)) s)"
    and "payload_kept (live (give_block xs z ys)) (kmem s) (kmem (kfree (addr (b + 32)) s))"
  proof (atomize (full), cases "xs = [] \<or> snd (last xs)")
    case True
    then have run': "kfree (addr (b + 32)) s = merge_next (addr b) s3"
      using merge_prev_keep [OF core3 True] run by (simp add: b_def)
    note eff = merge_next_effect [OF core3 co True, folded b_def]
    have "same_outside b (b + 32 + z + 32) (kmem s) (kmem s3)"
      unfolding mem3 by (rule same_outside_weaken [OF mu(2)]) simp_all
    then have "payload_kept (live (xs @ join_right z ys)) (kmem s) (kmem s3)"
      unfolding live_join_right b_def by (rule take_block_kept [OF heap_core_bound [OF core3]])
    from payload_kept_trans [OF this eff(2)] eff(1) True
    show "heap_inv (give_block xs z ys) (kfree (addr (b + 32)) s) \<and>
      payload_kept (live (give_block xs z ys)) (kmem s) (kmem (kfree (addr (b + 32)) s))"
      by (auto simp: give_block_def run')
  next
    case False
    define ws where "ws = butlast xs"
    define x where "x = fst (last xs)"
    have xs: "xs = ws @ [(x, False)]" unfolding ws_def x_def using False by (intro last_free_split) simp_all
    define p where "p = HEAP_BASE + span ws"
    have b: "b = p + 32 + x" by (simp add: b_def p_def xs)
    have cow: "coalesced ws" "ws = [] \<or> snd (last ws)" using co(1) by (auto simp: xs coalesced_append)
    have core3': "heap_core (ws @ (x, False) # (z, False) # ys) s3" using core3 by (simp add: xs)
    let ?s4 = "s3\<lparr>kmem := join_memory p x z ys (kmem s3), block_count := block_count s3 - 1\<rparr>"
    have "kfree (addr (b + 32)) s = merge_next (addr p) ?s4"
      using run merge_prev_free [OF core3', folded p_def] by (simp add: b)
    then have run': "kfree (addr (b + 32)) s = merge_next (addr (HEAP_BASE + span ws)) ?s4" by (simp add: p_def)
    note jn = heap_core_joined [OF core3' _ refl, simplified, folded p_def]
    have core4: "heap_core (ws @ (x + 32 + z, False) # ys) ?s4" using jn(1) by (simp add: ac_simps)
    note eff = merge_next_effect [OF core4 cow(1) co(2) cow(2)]
    note kept = take_block_kept [OF heap_core_bound [OF core4]]
    have "same_outside p (p + 32 + (x + 32 + z) + 32) (kmem s) (kmem s3)"
      unfolding mem3 by (rule same_outside_weaken [OF mu(2)]) (simp_all add: b)
    then have k1: "payload_kept (live (ws @ (x + 32 + z, False) # ys)) (kmem s) (kmem s3)"
      unfolding p_def by (rule kept)
    have "same_outside p (p + 32 + (x + 32 + z) + 32) (kmem s3) (kmem ?s4)"
      using jn(2) by (simp add: p_def ac_simps)
    then have k2: "payload_kept (live (ws @ (x + 32 + z, False) # ys)) (kmem s3) (kmem ?s4)"
      unfolding p_def by (rule kept)
    have k: "payload_kept (live (ws @ join_right (x + 32 + z) ys)) (kmem s) (kmem ?s4)"
      unfolding live_join_right by (rule payload_kept_trans [OF k1 k2])
    have gb: "give_block xs z ys = ws @ join_right (x + 32 + z) ys"
      by (simp add: give_block_def xs)
    show "heap_inv (give_block xs z ys) (kfree (addr (b + 32)) s) \<and>
      payload_kept (live (give_block xs z ys)) (kmem s) (kmem (kfree (addr (b + 32)) s))"
      unfolding gb run' using eff(1) payload_kept_trans [OF k eff(2)] by simp
  qed
qed

lemma live_give_block:
  "live (give_block xs z ys) = live (xs @ (z, False) # ys)"
proof (cases "xs \<noteq> [] \<and> \<not> snd (last xs)")
  case True
  define ws where "ws = butlast xs"
  define x where "x = fst (last xs)"
  have xs: "xs = ws @ [(x, False)]" unfolding ws_def x_def using True by (intro last_free_split) simp_all
  have eq: "give_block xs z ys = ws @ join_right (x + 32 + z) ys" by (simp add: give_block_def xs)
  show ?thesis
    unfolding eq live_join_right by (simp add: xs live_def live_from_append ac_simps)
next
  case False
  then have "give_block xs z ys = xs @ join_right z ys" by (auto simp: give_block_def)
  then show ?thesis by (simp add: live_join_right)
qed

end
