(* ===== verification/Block_Allocator.thy ===== *)
theory Block_Allocator
  imports Word_Memory
begin

text \<open>
  The contract of a heap with its clients: requests return (whatever their outcome),
  a granted block is at least as large as asked for and overlaps no block in use,
  and neither a request nor a release changes a byte of a block that stays in use.
  \<open>blocks\<close> is the set of blocks in use, start address and size. The heap's theory
  discharges the laws for \<open>kmalloc\<close> and \<open>kfree\<close>; \<open>krealloc\<close>, the
  address spaces and the task stacks are its clients.
\<close>

definition bytes_kept :: "(nat \<times> nat) set \<Rightarrow> bytes \<Rightarrow> bytes \<Rightarrow> bool" where
  "bytes_kept L m m' \<longleftrightarrow> (\<forall>(p, k) \<in> L. \<forall>x. p \<le> x \<and> x < p + k \<longrightarrow> m' (of_nat x) = m (of_nat x))"

lemma bytes_keptD: "bytes_kept L m m' \<Longrightarrow> (p, k) \<in> L \<Longrightarrow> p \<le> x \<Longrightarrow> x < p + k \<Longrightarrow> m' (of_nat x) = m (of_nat x)"
  unfolding bytes_kept_def by blast

lemma bytes_kept_refl [simp]: "bytes_kept L m m"
  by (auto simp: bytes_kept_def)

lemma bytes_kept_trans: "bytes_kept L m m' \<Longrightarrow> bytes_kept L m' m'' \<Longrightarrow> bytes_kept L m m''"
  unfolding bytes_kept_def by fastforce

lemma bytes_kept_subset: "bytes_kept L m m' \<Longrightarrow> K \<subseteq> L \<Longrightarrow> bytes_kept K m m'"
  unfolding bytes_kept_def by blast

definition blocks_apart :: "nat \<times> nat \<Rightarrow> nat \<times> nat \<Rightarrow> bool" where
  "blocks_apart b c \<longleftrightarrow> fst b + snd b \<le> fst c \<or> fst c + snd c \<le> fst b"

locale block_allocator =
  fixes malloc :: "u64 \<Rightarrow> 's \<Rightarrow> (u64 \<times> 's) option"
    and free :: "u64 \<Rightarrow> 's \<Rightarrow> 's"
    and mem :: "'s \<Rightarrow> bytes"
    and ok :: "'s \<Rightarrow> bool"
    and blocks :: "'s \<Rightarrow> (nat \<times> nat) set"
  assumes apart: "ok s \<Longrightarrow> b \<in> blocks s \<Longrightarrow> c \<in> blocks s \<Longrightarrow> b \<noteq> c \<Longrightarrow> blocks_apart b c"
    and bounded: "ok s \<Longrightarrow> (p, k) \<in> blocks s \<Longrightarrow> 0 < p \<and> 0 < k \<and> p + k < 2 ^ 64"
    and malloc_returns: "ok s \<Longrightarrow> n \<noteq> 0 \<Longrightarrow> unat n + 7 < 2 ^ 64 \<Longrightarrow>
      \<exists>a s'. malloc n s = Some (a, s') \<and> ok s' \<and> bytes_kept (blocks s) (mem s) (mem s')
        \<and> (a = 0 \<and> blocks s' = blocks s
           \<or> (\<exists>k. unat n \<le> k \<and> (unat a, k) \<notin> blocks s \<and> blocks s' = insert (unat a, k) (blocks s)))"
    and free_block: "ok s \<Longrightarrow> (unat a, k) \<in> blocks s \<Longrightarrow>
      ok (free a s) \<and> blocks (free a s) = blocks s - {(unat a, k)}
        \<and> bytes_kept (blocks s - {(unat a, k)}) (mem s) (mem (free a s))"
begin

lemma malloc_ok: "ok s \<Longrightarrow> n \<noteq> 0 \<Longrightarrow> unat n + 7 < 2 ^ 64 \<Longrightarrow> malloc n s = Some (a, s') \<Longrightarrow>
    ok s' \<and> bytes_kept (blocks s) (mem s) (mem s')"
  using malloc_returns [of s n] by auto

lemma malloc_granted:
  assumes "ok s" and "n \<noteq> 0" and "unat n + 7 < 2 ^ 64" and m: "malloc n s = Some (a, s')" and a: "a \<noteq> 0"
  obtains k where "unat n \<le> k" and "(unat a, k) \<notin> blocks s" and "blocks s' = insert (unat a, k) (blocks s)"
  using malloc_returns [OF assms(1-3)] m a by auto

lemma malloc_refused:
  assumes "ok s" and "n \<noteq> 0" and "unat n + 7 < 2 ^ 64" and m: "malloc n s = Some (0, s')"
  shows "blocks s' = blocks s"
proof -
  from malloc_returns [OF assms(1-3)] m
  have ok': "ok s'" and alt: "blocks s' = blocks s \<or> (\<exists>k. blocks s' = insert (0, k) (blocks s))" by auto
  show ?thesis
  proof (rule ccontr)
    assume "blocks s' \<noteq> blocks s"
    with alt obtain k where "(0, k) \<in> blocks s'" by blast
    from bounded [OF ok' this] show False by simp
  qed
qed

text \<open>A granted block overlaps none of the blocks in use.\<close>

lemma malloc_fresh:
  assumes "ok s" and "n \<noteq> 0" and "unat n + 7 < 2 ^ 64" and m: "malloc n s = Some (a, s')" and a: "a \<noteq> 0"
    and b: "b \<in> blocks s"
  obtains k where "unat n \<le> k" and "(unat a, k) \<in> blocks s'" and "blocks_apart (unat a, k) b"
proof -
  obtain k where k: "unat n \<le> k" "(unat a, k) \<notin> blocks s" "blocks s' = insert (unat a, k) (blocks s)"
    by (rule malloc_granted [OF assms(1-5)])
  have "ok s'" using malloc_ok [OF assms(1-4)] by simp
  with k b apart [of s' "(unat a, k)" b] show thesis by (intro that [of k]) auto
qed

lemma malloc_free:
  assumes "ok s" and "n \<noteq> 0" and "unat n + 7 < 2 ^ 64" and m: "malloc n s = Some (a, s')" and a: "a \<noteq> 0"
  shows "ok (free a s')" and "blocks (free a s') = blocks s"
    and "bytes_kept (blocks s) (mem s) (mem (free a s'))"
proof -
  obtain k where k: "(unat a, k) \<notin> blocks s" "blocks s' = insert (unat a, k) (blocks s)"
    by (rule malloc_granted [OF assms(1-5)])
  have s': "ok s'" "bytes_kept (blocks s) (mem s) (mem s')" using malloc_ok [OF assms(1-4)] by simp_all
  have "(unat a, k) \<in> blocks s'" using k by simp
  note fr = free_block [OF s'(1) this]
  have diff: "blocks s' - {(unat a, k)} = blocks s" using k by simp
  show "ok (free a s')" "blocks (free a s') = blocks s" using fr diff by simp_all
  have "bytes_kept (blocks s) (mem s') (mem (free a s'))" using fr diff by simp
  then show "bytes_kept (blocks s) (mem s) (mem (free a s'))"
    using s'(2) by (rule bytes_kept_trans [rotated])
qed

end

end
