(* ===== verification/Heap_Interface.thy ===== *)
theory Heap_Interface
  imports Heap_Free Block_Allocator
begin

text \<open>
  The heap as a provider of the block allocator contract, the state
  \<open>heap_init\<close> reaches, and the operations built on \<open>kmalloc\<close> and
  \<open>kfree\<close>: \<open>kcalloc\<close> and \<open>krealloc\<close>.
\<close>

section \<open>The layout of a state\<close>

lemma linked_unique:
  "linked m p a bs 0 \<Longrightarrow> linked m p a cs 0 \<Longrightarrow> a + span bs < 2 ^ 64 \<Longrightarrow> a + span cs < 2 ^ 64
     \<Longrightarrow> bs \<noteq> [] \<Longrightarrow> cs \<noteq> [] \<Longrightarrow> bs = cs"
proof (induction bs arbitrary: cs p a)
  case (Cons b bs)
  then obtain c cs' where cs: "cs = c # cs'" by (cases cs) auto
  have nz: "addr (a + 32 + n) \<noteq> 0" if "a + 32 + n < 2 ^ 64" for n using that by (intro addr_nonzero) simp_all
  have "of_nat (fst b) = (of_nat (fst c) :: u64)" using Cons.prems(1,2) cs by auto
  moreover have "fst b < 2 ^ 64" "fst c < 2 ^ 64" using Cons.prems(3,4) cs by simp_all
  ultimately have z: "fst b = fst c" by (metis unat_of_nat_u64)
  moreover have "snd b = snd c" using Cons.prems(1,2) cs by auto
  ultimately have bc: "b = c" by (simp add: prod_eq_iff)
  have n: "(if bs = [] then 0 else addr (a + 32 + fst b)) = (if cs' = [] then 0 else addr (a + 32 + fst b))"
    using Cons.prems(1,2) cs bc by auto
  have "a + 32 + fst b < 2 ^ 64" using Cons.prems(3) by simp
  with n nz [of "fst b"] have e: "bs = [] \<longleftrightarrow> cs' = []" by (auto split: if_splits)
  show ?case
  proof (cases "bs = []")
    case False
    have "bs = cs'"
      using Cons.prems cs bc False e by (intro Cons.IH [of "addr a" "a + 32 + fst b"]) simp_all
    then show ?thesis using cs bc by simp
  qed (use cs bc e in simp)
qed simp

lemma heap_inv_unique: "heap_inv bs s \<Longrightarrow> heap_inv cs s \<Longrightarrow> bs = cs"
proof -
  assume b: "heap_inv bs s" and c: "heap_inv cs s"
  have "HEAP_BASE + span bs < 2 ^ 64" "HEAP_BASE + span cs < 2 ^ 64"
    using b c heap_bounds by (simp_all add: heap_inv_def)
  with b c heap_inv_nonempty [OF b] heap_inv_nonempty [OF c] show "bs = cs"
    by (intro linked_unique [of "kmem s" 0 HEAP_BASE]) (simp_all add: heap_inv_def)
qed

definition heap_ok :: "'a heap_scheme \<Rightarrow> bool" where
  "heap_ok s \<longleftrightarrow> (\<exists>bs. heap_inv bs s)"

definition heap_blocks :: "'a heap_scheme \<Rightarrow> (nat \<times> nat) set" where
  "heap_blocks s = {b. \<exists>bs. heap_inv bs s \<and> b \<in> live bs}"

lemma heap_blocks_live: "heap_inv bs s \<Longrightarrow> heap_blocks s = live bs"
  using heap_inv_unique by (auto simp: heap_blocks_def)

lemma payload_kept_bytes: "payload_kept L m m' \<longleftrightarrow> bytes_kept L m m'"
  by (simp add: payload_kept_def bytes_kept_def addr_def)

lemma heap_inv_bound: "heap_inv bs s \<Longrightarrow> HEAP_BASE + span bs + 32 \<le> 2 ^ 64"
  using heap_core_bound by (auto simp: heap_inv_core)

lemma live_bounds:
  assumes "heap_inv bs s" and "(p, k) \<in> live bs"
  shows "HEAP_BASE + 32 \<le> p" "p + k \<le> HEAP_BASE + HEAP_BYTES" "p mod 8 = 0" "8 \<le> k"
proof -
  show "HEAP_BASE + 32 \<le> p" "p + k \<le> HEAP_BASE + HEAP_BYTES"
    using live_from_bounds [of p k HEAP_BASE bs] assms by (simp_all add: live_def heap_inv_def)
  have "HEAP_BASE mod 8 = 0" by (simp add: HEAP_BASE_def)
  then show "p mod 8 = 0" "8 \<le> k"
    using live_from_sizes [of bs HEAP_BASE p k] assms by (simp_all add: live_def heap_inv_def)
qed

text \<open>A payload in use is that of a block of the list.\<close>

lemma live_from_split:
  "(p, k) \<in> live_from a bs \<Longrightarrow> \<exists>xs ys. bs = xs @ (k, True) # ys \<and> p = a + span xs + 32"
proof (induction bs arbitrary: a)
  case (Cons b bs)
  show ?case
  proof (cases "(p, k) \<in> live_from (a + 32 + fst b) bs")
    case True
    then obtain xs ys where "bs = xs @ (k, True) # ys" "p = a + 32 + fst b + span xs + 32"
      using Cons.IH by blast
    then have "b # bs = (b # xs) @ (k, True) # ys" "p = a + span (b # xs) + 32" by simp_all
    then show ?thesis by blast
  next
    case False
    with Cons.prems have "snd b" "p = a + 32" "k = fst b" by (auto split: if_splits)
    then have "b # bs = [] @ (k, True) # bs" "p = a + span [] + 32" by (simp_all add: prod_eq_iff)
    then show ?thesis by blast
  qed
qed simp

lemma live_remove:
  "live (xs @ (z, False) # ys) = live (xs @ (z, True) # ys) - {(HEAP_BASE + span xs + 32, z)}"
proof -
  have "(HEAP_BASE + span xs + 32, z) \<notin> live_from HEAP_BASE xs"
    using live_from_bounds [of "HEAP_BASE + span xs + 32" z HEAP_BASE xs] by auto
  moreover have "(HEAP_BASE + span xs + 32, z) \<notin> live_from (HEAP_BASE + span xs + 32 + z) ys"
    using live_from_bounds [of "HEAP_BASE + span xs + 32" z "HEAP_BASE + span xs + 32 + z" ys] by auto
  ultimately show ?thesis by (auto simp: live_def live_from_append)
qed

section \<open>The contract\<close>

lemma kmalloc_contract:
  assumes ok: "heap_ok s" and n: "n \<noteq> 0" "unat n + 7 < 2 ^ 64"
  shows "\<exists>a s'. kmalloc n s = Some (a, s') \<and> heap_ok s' \<and> bytes_kept (heap_blocks s) (kmem s) (kmem s')
        \<and> (a = 0 \<and> heap_blocks s' = heap_blocks s
           \<or> (\<exists>k. unat n \<le> k \<and> (unat a, k) \<notin> heap_blocks s
                \<and> heap_blocks s' = insert (unat a, k) (heap_blocks s)))"
proof -
  let ?n = "request_nat (unat n)"
  obtain bs where inv: "heap_inv bs s" using ok by (auto simp: heap_ok_def)
  show ?thesis
  proof (cases "\<exists>b \<in> set bs. fits ?n b")
    case False
    then have res: "kmalloc n s
        = Some (0, klog_num ''[HEAP] No free block found for size '' 10 (request_size n) ''\<newline>'' s)"
      using kmalloc_none [OF inv n] by blast
    let ?s' = "klog_num ''[HEAP] No free block found for size '' 10 (request_size n) ''\<newline>'' s"
    have inv': "heap_inv bs ?s'" using inv by simp
    then have "heap_ok ?s'" unfolding heap_ok_def by blast
    moreover have "heap_blocks ?s' = heap_blocks s"
      using heap_blocks_live [OF inv] heap_blocks_live [OF inv'] by simp
    ultimately show ?thesis unfolding res by simp
  next
    case True
    then obtain i where i: "best_fit ?n bs i" using best_fit_exists by blast
    define xs z ys where "xs = take i bs" and "z = fst (bs ! i)" and "ys = drop (Suc i) bs"
    have il: "i < length bs" "\<not> snd (bs ! i)" "?n \<le> z" using i by (simp_all add: best_fit_def fits_def z_def)
    then have "bs ! i = (z, False)" by (simp add: prod_eq_iff z_def)
    then have bs: "bs = xs @ (z, False) # ys"
      using id_take_nth_drop [OF il(1)] by (simp add: xs_def ys_def)
    have b: "block_addr bs i = HEAP_BASE + span xs" by (simp add: block_addr_def xs_def)
    obtain s' where s': "kmalloc n s = Some (addr (HEAP_BASE + span xs + 32), s')"
        "heap_inv (xs @ take_block ?n z ys) s'"
        "same_outside (HEAP_BASE + span xs) (HEAP_BASE + span xs + 32 + z + 32) (kmem s) (kmem s')"
      using kmalloc_best [OF inv n i] b by (metis xs_def ys_def z_def)
    let ?k = "if ?n + 40 \<le> z then ?n else z"
    have bound: "HEAP_BASE + span (xs @ (z, False) # ys) + 32 \<le> 2 ^ 64"
      using heap_inv_bound [OF inv] bs by simp
    have a: "unat (addr (HEAP_BASE + span xs + 32)) = HEAP_BASE + span xs + 32"
      using bound by (intro unat_addr) simp
    have bl: "heap_blocks s' = insert (HEAP_BASE + span xs + 32, ?k) (heap_blocks s)"
      using heap_blocks_live [OF s'(2)] heap_blocks_live [OF inv] bs by (simp add: live_take_block)
    have "unat n \<le> ?k" using request_nat_ge(1) [of "unat n"] il(3) by simp
    moreover have "(HEAP_BASE + span xs + 32, ?k) \<notin> heap_blocks s"
    proof
      assume "(HEAP_BASE + span xs + 32, ?k) \<in> heap_blocks s"
      then have "(HEAP_BASE + span xs + 32, ?k) \<in> live (xs @ (z, False) # ys)"
        using heap_blocks_live [OF inv] bs by simp
      then show False
        using live_from_bounds [of "HEAP_BASE + span xs + 32" ?k HEAP_BASE xs]
          live_from_bounds [of "HEAP_BASE + span xs + 32" ?k "HEAP_BASE + span xs + 32 + z" ys]
        by (auto simp: live_def live_from_append)
    qed
    moreover have "heap_ok s'" using s'(2) by (auto simp: heap_ok_def)
    moreover have "bytes_kept (heap_blocks s) (kmem s) (kmem s')"
      using take_block_kept [OF bound s'(3)] heap_blocks_live [OF inv] bs by (simp add: payload_kept_bytes)
    ultimately show ?thesis using s'(1) bl a by auto
  qed
qed

lemma kfree_contract:
  assumes ok: "heap_ok s" and a: "(unat a, k) \<in> heap_blocks s"
  shows "heap_ok (kfree a s) \<and> heap_blocks (kfree a s) = heap_blocks s - {(unat a, k)}
    \<and> bytes_kept (heap_blocks s - {(unat a, k)}) (kmem s) (kmem (kfree a s))"
proof -
  obtain bs where inv: "heap_inv bs s" using ok by (auto simp: heap_ok_def)
  then have "(unat a, k) \<in> live bs" using a heap_blocks_live by blast
  then obtain xs ys where bs: "bs = xs @ (k, True) # ys" and ua: "unat a = HEAP_BASE + span xs + 32"
    using live_from_split [of "unat a" k HEAP_BASE bs] by (auto simp: live_def)
  have aa: "a = addr (HEAP_BASE + span xs + 32)" using ua by (simp add: addr_def flip: ua)
  note eff = kfree_effect [OF inv [unfolded bs], folded aa]
  have "live (give_block xs k ys) = heap_blocks s - {(unat a, k)}"
    using heap_blocks_live [OF inv] by (simp add: live_give_block live_remove bs ua)
  with eff heap_blocks_live [OF eff(1)] show ?thesis
    by (auto simp: heap_ok_def payload_kept_bytes)
qed

interpretation kheap: block_allocator kmalloc kfree kmem heap_ok heap_blocks
proof unfold_locales
  fix s :: "'a heap_scheme" and b c
  assume ok: "heap_ok s" and bc: "b \<in> heap_blocks s" "c \<in> heap_blocks s" "b \<noteq> c"
  obtain bs where inv: "heap_inv bs s" using ok by (auto simp: heap_ok_def)
  show "blocks_apart b c"
    using live_from_disjoint [of "fst b" "snd b" HEAP_BASE bs "fst c" "snd c"] bc heap_blocks_live [OF inv]
    by (auto simp: blocks_apart_def live_def)
next
  fix s :: "'a heap_scheme" and p k
  assume ok: "heap_ok s" and pk: "(p, k) \<in> heap_blocks s"
  obtain bs where inv: "heap_inv bs s" using ok by (auto simp: heap_ok_def)
  with pk live_bounds [OF inv, of p k] heap_blocks_live [OF inv] heap_bounds
  show "0 < p \<and> 0 < k \<and> p + k < 2 ^ 64" by auto
qed (simp_all add: kmalloc_contract kfree_contract)

section \<open>Writes inside a block in use\<close>

lemma live_header:
  assumes inv: "heap_inv bs s" and pk: "(unat p, k) \<in> live bs"
  shows "blk_size (kmem s) (p - HEADER) = of_nat k"
proof -
  obtain xs ys where bs: "bs = xs @ (k, True) # ys" and up: "unat p = HEAP_BASE + span xs + 32"
    using live_from_split [of "unat p" k HEAP_BASE bs] pk by (auto simp: live_def)
  have "p = addr (HEAP_BASE + span xs + 32)" by (simp add: addr_def flip: up)
  then show ?thesis using heap_inv_split(1) [OF inv [unfolded bs]] by (simp add: addr_minus_header)
qed

lemma heap_inv_payload_write:
  assumes inv: "heap_inv bs s" and pk: "(p, k) \<in> live bs"
    and m': "\<And>x. x < 2 ^ 64 \<Longrightarrow> x < p \<or> p + k \<le> x \<Longrightarrow> m' (addr x) = kmem s (addr x)"
  shows "heap_inv bs (s\<lparr>kmem := m'\<rparr>)"
proof -
  obtain xs ys where bs: "bs = xs @ (k, True) # ys" and p: "p = HEAP_BASE + span xs + 32"
    using live_from_split [of p k HEAP_BASE bs] pk by (auto simp: live_def)
  have bound: "p + k + span ys < 2 ^ 64" using heap_inv_bound [OF inv] p bs by simp
  let ?b = "HEAP_BASE + span xs"
  have "m' (addr (?b + i)) = kmem s (addr (?b + i))" if "i < 32" for i
    using that bound p by (intro m') simp_all
  note hd = header_cong [of m' ?b "kmem s", OF this]
  have "linked m' 0 HEAP_BASE xs q = linked (kmem s) 0 HEAP_BASE xs q" for q
    using bound p by (intro linked_cong m') simp_all
  moreover have "linked m' q (?b + 32 + k) ys 0 = linked (kmem s) q (?b + 32 + k) ys 0" for q
    using bound p by (intro linked_cong m') simp_all
  ultimately have "linked m' 0 HEAP_BASE bs 0"
    using inv hd by (simp add: heap_inv_def bs linked_append)
  then show ?thesis using inv by (simp add: heap_inv_def)
qed

lemma heap_payload_write:
  assumes ok: "heap_ok s" and pk: "(p, k) \<in> heap_blocks s"
    and m': "\<And>x. x < 2 ^ 64 \<Longrightarrow> x < p \<or> p + k \<le> x \<Longrightarrow> m' (addr x) = kmem s (addr x)"
  shows "heap_ok (s\<lparr>kmem := m'\<rparr>)" and "heap_blocks (s\<lparr>kmem := m'\<rparr>) = heap_blocks s"
proof -
  obtain bs where inv: "heap_inv bs s" using ok by (auto simp: heap_ok_def)
  note inv' = heap_inv_payload_write [OF inv _ m', of p k]
  have "(p, k) \<in> live bs" using pk heap_blocks_live [OF inv] by simp
  with inv' have "heap_inv bs (s\<lparr>kmem := m'\<rparr>)" by blast
  then show "heap_ok (s\<lparr>kmem := m'\<rparr>)" "heap_blocks (s\<lparr>kmem := m'\<rparr>) = heap_blocks s"
    using heap_blocks_live [OF inv] heap_blocks_live by (auto simp: heap_ok_def)
qed

lemma heap_block_size:
  assumes "heap_ok s" and "(unat p, k) \<in> heap_blocks s"
  shows "blk_size (kmem s) (p - HEADER) = of_nat k" and "p \<noteq> 0" and "k < 2 ^ 32" and "0 < k"
    and "unat p + k < 2 ^ 64" and "p \<noteq> 0"
proof -
  obtain bs where inv: "heap_inv bs s" using assms(1) by (auto simp: heap_ok_def)
  then have pk: "(unat p, k) \<in> live bs" using assms(2) heap_blocks_live by blast
  show "blk_size (kmem s) (p - HEADER) = of_nat k" by (rule live_header [OF inv pk])
  note lb = live_bounds [OF inv pk]
  show "k < 2 ^ 32" "0 < k" "unat p + k < 2 ^ 64" using lb heap_bounds by linarith+
  show "p \<noteq> 0" "p \<noteq> 0" using lb(1) heap_bounds by auto
qed

text \<open>The bytes of a region that lies in memory without wrapping around.\<close>

lemma in_region:
  assumes "unat p + k < 2 ^ 64" and "x < 2 ^ 64"
  shows "addr x - p < of_nat k \<longleftrightarrow> unat p \<le> x \<and> x < unat p + k"
proof -
  have "unat (of_nat k :: u64) = k" using assms(1) by (intro unat_of_nat_u64) simp
  moreover have "unat (addr x) = x" using assms(2) by (rule unat_addr)
  ultimately show ?thesis
    using assms(1) unat_u64_bound [of p] by (auto simp: word_less_nat_alt unat_sub_if')
qed

lemma memset_block:
  fixes c :: u32
  assumes ok: "heap_ok s" and pk: "(unat p, k) \<in> heap_blocks s" and n: "unat n \<le> k"
  defines "s' \<equiv> s\<lparr>kmem := snd (memset p c n (kmem s))\<rparr>"
  shows "heap_ok s'" and "heap_blocks s' = heap_blocks s"
    and "bytes_kept (heap_blocks s - {(unat p, k)}) (kmem s) (kmem s')"
    and "\<And>i. i < unat n \<Longrightarrow> kmem s' (p + of_nat i) = ucast c"
proof -
  note hb = heap_block_size [OF ok pk]
  have eff: "snd (memset p c n (kmem s)) (addr x)
      = (if unat p \<le> x \<and> x < unat p + unat n then ucast c else kmem s (addr x))" if "x < 2 ^ 64" for x
    using in_region [of p "unat n" x] hb(5) n that by (simp add: memset_apply)
  have out: "snd (memset p c n (kmem s)) (addr x) = kmem s (addr x)"
    if "x < 2 ^ 64" "x < unat p \<or> unat p + k \<le> x" for x using eff [OF that(1)] that(2) n by auto
  show "heap_ok s'" "heap_blocks s' = heap_blocks s"
    unfolding s'_def using heap_payload_write [OF ok pk out] by blast+
  show "bytes_kept (heap_blocks s - {(unat p, k)}) (kmem s) (kmem s')"
    unfolding bytes_kept_def s'_def
  proof (clarsimp simp flip: addr_def)
    fix q l x assume ql: "(q, l) \<in> heap_blocks s" "q = unat p \<longrightarrow> l \<noteq> k" "q \<le> x" "x < q + l"
    have "blocks_apart (q, l) (unat p, k)" using ql(2) by (intro kheap.apart [OF ok ql(1) pk]) auto
    moreover have "x < 2 ^ 64" using kheap.bounded [OF ok ql(1)] ql(4) by simp
    ultimately show "snd (memset p c n (kmem s)) (addr x) = kmem s (addr x)"
      using ql(3,4) by (intro out) (auto simp: blocks_apart_def)
  qed
  show "kmem s' (p + of_nat i) = ucast c" if "i < unat n" for i
  proof -
    have i: "unat (of_nat i :: u64) = i" using that unat_u64_bound [of n] by (intro unat_of_nat_u64) simp
    then show ?thesis using that by (simp add: s'_def memset_apply word_less_nat_alt)
  qed
qed

end
