(* ===== verification/Heap_Clients.thy ===== *)
theory Heap_Clients
  imports Heap_Interface
begin

text \<open>
  What is built on the block allocator contract: \<open>kcalloc\<close>, \<open>krealloc\<close>, the
  release of a block just granted, and the state \<open>heap_init\<close> reaches.
\<close>

section \<open>Cleared blocks\<close>

lemma kcalloc_cleared:
  assumes ok: "heap_ok s" and n: "num * sz \<noteq> 0" "unat (num * sz) + 7 < 2 ^ 64"
    and r: "kcalloc num sz s = Some (p, s')" and p: "p \<noteq> 0"
  shows "heap_ok s'" and "\<exists>k \<ge> unat (num * sz). heap_blocks s' = insert (unat p, k) (heap_blocks s)"
    and "i < unat (num * sz) \<Longrightarrow> kmem s' (p + of_nat i) = 0"
    and "bytes_kept (heap_blocks s) (kmem s) (kmem s')"
proof -
  obtain s1 where m: "kmalloc (num * sz) s = Some (p, s1)"
      and s': "s' = s1\<lparr>kmem := snd (memset p 0 (num * sz) (kmem s1))\<rparr>"
    using r p by (auto simp: kcalloc_def Let_def split: option.splits prod.splits if_splits)
  obtain k where k: "unat (num * sz) \<le> k" "(unat p, k) \<notin> heap_blocks s"
      "heap_blocks s1 = insert (unat p, k) (heap_blocks s)"
    by (rule kheap.malloc_granted [OF ok n m p])
  have s1: "heap_ok s1" "bytes_kept (heap_blocks s) (kmem s) (kmem s1)"
    using kheap.malloc_ok [OF ok n m] by simp_all
  have "(unat p, k) \<in> heap_blocks s1" using k by simp
  note ms = memset_block [OF s1(1) this k(1), where c = 0, folded s']
  show "heap_ok s'" by (rule ms(1))
  show "\<exists>k \<ge> unat (num * sz). heap_blocks s' = insert (unat p, k) (heap_blocks s)"
    using ms(2) k by auto
  show "i < unat (num * sz) \<Longrightarrow> kmem s' (p + of_nat i) = 0" using ms(4) [of i] by simp
  have "heap_blocks s1 - {(unat p, k)} = heap_blocks s" using k by simp
  with ms(3) s1(2) show "bytes_kept (heap_blocks s) (kmem s) (kmem s')" by (auto intro: bytes_kept_trans)
qed

text \<open>The product of the two arguments is not checked against the word size.\<close>

lemma kcalloc_product: "kcalloc num sz s = kcalloc 1 (num * sz) s"
  by (simp add: kcalloc_def)

section \<open>Moving a block\<close>

lemma memcpy_block:
  assumes ok: "heap_ok s" and pk: "(unat p, k) \<in> heap_blocks s" and ql: "(unat q, l) \<in> heap_blocks s"
    and ne: "(unat p, k) \<noteq> (unat q, l)" and kl: "k \<le> l"
  defines "s' \<equiv> s\<lparr>kmem := snd (memcpy q p (of_nat k) (kmem s))\<rparr>"
  shows "heap_ok s'" and "heap_blocks s' = heap_blocks s"
    and "bytes_kept (heap_blocks s - {(unat q, l)}) (kmem s) (kmem s')"
    and "\<And>i. i < k \<Longrightarrow> kmem s' (q + of_nat i) = kmem s (p + of_nat i)"
proof -
  note hp = heap_block_size [OF ok pk] and hq = heap_block_size [OF ok ql]
  have k: "unat (of_nat k :: u64) = k" using hp(3) by (intro unat_of_nat_u64) simp
  have ap: "unat p + k \<le> unat q \<or> unat q + l \<le> unat p"
    using kheap.apart [OF ok pk ql ne] by (simp add: blocks_apart_def)
  have "regions_apart q p (of_nat k)"
    using ap hp(4,5) hq(5) kl k
    unfolding regions_apart_def word_le_nat_alt by (auto simp: unat_sub_if')
  note cp = memcpy_apply [OF this]
  have eff: "snd (memcpy q p (of_nat k) (kmem s)) (addr x) = kmem s (addr x)"
    if x: "x < 2 ^ 64" "x < unat q \<or> unat q + k \<le> x" for x
  proof -
    have "\<not> addr x - q < of_nat k" using in_region [of q k x] x hq(5) kl by auto
    then show ?thesis by (simp add: cp)
  qed
  have out: "snd (memcpy q p (of_nat k) (kmem s)) (addr x) = kmem s (addr x)"
    if "x < 2 ^ 64" "x < unat q \<or> unat q + l \<le> x" for x
    using that kl by (intro eff) auto
  show "heap_ok s'" "heap_blocks s' = heap_blocks s"
    unfolding s'_def using heap_payload_write [OF ok ql out] by blast+
  show "bytes_kept (heap_blocks s - {(unat q, l)}) (kmem s) (kmem s')"
    unfolding bytes_kept_def s'_def
  proof clarsimp
    fix r n x assume rn: "(r, n) \<in> heap_blocks s" "r = unat q \<longrightarrow> n \<noteq> l" "r \<le> x" "x < r + n"
    have "blocks_apart (r, n) (unat q, l)" using rn(2) by (intro kheap.apart [OF ok rn(1) ql]) auto
    moreover have "x < 2 ^ 64" using kheap.bounded [OF ok rn(1)] rn(4) by simp
    ultimately show "snd (memcpy q p (of_nat k) (kmem s)) (of_nat x) = kmem s (of_nat x)"
      using rn(3,4) by (intro out [unfolded addr_def]) (auto simp: blocks_apart_def)
  qed
  show "kmem s' (q + of_nat i) = kmem s (p + of_nat i)" if "i < k" for i
  proof -
    have "unat (of_nat i :: u64) = i" using that hp(3) by (intro unat_of_nat_u64) simp
    then have "(of_nat i :: u64) < of_nat k" using that k by (simp add: word_less_nat_alt)
    then show ?thesis by (simp add: s'_def cp)
  qed
qed

lemma block_bytes:
  assumes "bytes_kept L m m'" and "(unat p, k) \<in> L" and "i < k"
  shows "m' (p + of_nat i) = m (p + of_nat i)"
proof -
  have "p + of_nat i = of_nat (unat p + i)" by simp
  then show ?thesis using bytes_keptD [OF assms(1,2), of "unat p + i"] assms(3) by simp
qed

lemma krealloc_in_place:
  assumes ok: "heap_ok s" and pk: "(unat p, k) \<in> heap_blocks s" and n: "sz \<noteq> 0" "unat sz \<le> k"
  shows "krealloc p sz s = Some (p, s)"
proof -
  note hp = heap_block_size [OF ok pk]
  have "unat (of_nat k :: u64) = k" using hp(3) by (intro unat_of_nat_u64) simp
  then have "sz \<le> blk_size (kmem s) (p - HEADER)" using n(2) hp(1) by (simp add: word_le_nat_alt)
  then show ?thesis using n(1) hp(2) by (simp add: krealloc_def Let_def)
qed

lemma krealloc_step:
  assumes ok: "heap_ok s" and pk: "(unat p, k) \<in> heap_blocks s"
    and n: "k < unat sz" "unat sz + 7 < 2 ^ 64"
  obtains q s1 where "kmalloc sz s = Some (q, s1)" and "heap_ok s1"
    and "bytes_kept (heap_blocks s) (kmem s) (kmem s1)"
    and "krealloc p sz s = Some (q, if q \<noteq> 0
           then kfree p (s1\<lparr>kmem := snd (memcpy q p (of_nat k) (kmem s1))\<rparr>) else s1)"
    and "q = 0 \<longrightarrow> heap_blocks s1 = heap_blocks s"
proof -
  note hp = heap_block_size [OF ok pk]
  have nz: "sz \<noteq> 0" using n(1) by auto
  have k: "unat (of_nat k :: u64) = k" using hp(3) by (intro unat_of_nat_u64) simp
  have "\<not> sz \<le> blk_size (kmem s) (p - HEADER)" using n(1) k hp(1) by (simp add: word_le_nat_alt)
  moreover obtain q s1 where m: "kmalloc sz s = Some (q, s1)"
    using kheap.malloc_returns [OF ok nz n(2)] by blast
  note s1 = kheap.malloc_ok [OF ok nz n(2) m]
  moreover have bl: "heap_blocks s \<subseteq> heap_blocks s1"
    using kheap.malloc_returns [OF ok nz n(2)] m by auto
  then have "blk_size (kmem s1) (p - HEADER) = of_nat k"
    using heap_block_size(1) [of s1 p k] s1 pk by blast
  moreover have "q = 0 \<longrightarrow> heap_blocks s1 = heap_blocks s"
    using kheap.malloc_refused [OF ok nz n(2)] m by blast
  ultimately show thesis using m nz hp(2) by (intro that [of q s1]) (simp_all add: krealloc_def Let_def)
qed

text \<open>Growing a block moves its contents and changes no other block; failing changes none.\<close>

lemma krealloc_moves:
  assumes ok: "heap_ok s" and pk: "(unat p, k) \<in> heap_blocks s"
    and n: "k < unat sz" "unat sz + 7 < 2 ^ 64" and r: "krealloc p sz s = Some (q, s')" and q: "q \<noteq> 0"
  obtains l where "unat sz \<le> l" and "heap_ok s'"
    and "heap_blocks s' = insert (unat q, l) (heap_blocks s - {(unat p, k)})"
    and "\<And>i. i < k \<Longrightarrow> kmem s' (q + of_nat i) = kmem s (p + of_nat i)"
    and "bytes_kept (heap_blocks s - {(unat p, k)}) (kmem s) (kmem s')"
proof -
  have nz: "sz \<noteq> 0" using n(1) by auto
  obtain s1 where m: "kmalloc sz s = Some (q, s1)" and s1: "heap_ok s1"
      and keep: "bytes_kept (heap_blocks s) (kmem s) (kmem s1)"
      and s': "s' = kfree p (s1\<lparr>kmem := snd (memcpy q p (of_nat k) (kmem s1))\<rparr>)"
    by (rule krealloc_step [OF ok pk n]) (use r q in auto)
  obtain l where l: "unat sz \<le> l" "(unat q, l) \<notin> heap_blocks s"
      "heap_blocks s1 = insert (unat q, l) (heap_blocks s)"
    by (rule kheap.malloc_granted [OF ok nz n(2) m q])
  let ?s2 = "s1\<lparr>kmem := snd (memcpy q p (of_nat k) (kmem s1))\<rparr>"
  have p1: "(unat p, k) \<in> heap_blocks s1" and q1: "(unat q, l) \<in> heap_blocks s1"
    and pq: "(unat p, k) \<noteq> (unat q, l)" using l pk by auto
  have kl: "k \<le> l" using l(1) n(1) by simp
  note cp = memcpy_block [OF s1 p1 q1 pq kl]
  have p2: "(unat p, k) \<in> heap_blocks ?s2" using cp(2) p1 by simp
  note fr = kheap.free_block [OF cp(1) p2, folded s']
  have bl: "heap_blocks s' = insert (unat q, l) (heap_blocks s - {(unat p, k)})"
    using fr cp(2) l(3) pq by auto
  have k2: "bytes_kept (heap_blocks ?s2 - {(unat p, k)}) (kmem ?s2) (kmem s')" using fr by simp
  have "kmem s' (q + of_nat i) = kmem s (p + of_nat i)" if i: "i < k" for i
  proof -
    have "(unat q, l) \<in> heap_blocks ?s2 - {(unat p, k)}" using cp(2) q1 pq by auto
    then have "kmem s' (q + of_nat i) = kmem ?s2 (q + of_nat i)"
      using block_bytes [OF k2] i kl by simp
    also have "\<dots> = kmem s1 (p + of_nat i)" using cp(4) [OF i] .
    also have "\<dots> = kmem s (p + of_nat i)" by (rule block_bytes [OF keep pk i])
    finally show ?thesis .
  qed
  moreover have "bytes_kept (heap_blocks s - {(unat p, k)}) (kmem s) (kmem s')"
  proof -
    let ?L = "heap_blocks s - {(unat p, k)}"
    have "bytes_kept ?L (kmem s) (kmem s1)" using keep by (rule bytes_kept_subset) auto
    moreover have "bytes_kept ?L (kmem s1) (kmem ?s2)"
      using cp(3) by (rule bytes_kept_subset) (use l in auto)
    moreover have "bytes_kept ?L (kmem ?s2) (kmem s')"
      using k2 by (rule bytes_kept_subset) (use cp(2) l(3) in auto)
    ultimately show ?thesis by (blast intro: bytes_kept_trans)
  qed
  ultimately show thesis using that [OF l(1) _ bl] fr by blast
qed

lemma krealloc_fails:
  assumes ok: "heap_ok s" and pk: "(unat p, k) \<in> heap_blocks s"
    and n: "k < unat sz" "unat sz + 7 < 2 ^ 64" and r: "krealloc p sz s = Some (0, s')"
  shows "heap_ok s'" and "heap_blocks s' = heap_blocks s"
    and "bytes_kept (heap_blocks s) (kmem s) (kmem s')"
  by (rule krealloc_step [OF ok pk n]; use r in auto)+

section \<open>A block granted and released\<close>

lemma kmalloc_split:
  assumes inv: "heap_inv bs s" and n: "sz \<noteq> 0" "unat sz + 7 < 2 ^ 64"
    and m: "kmalloc sz s = Some (a, s')" and a: "a \<noteq> 0"
  obtains xs z ys where "bs = xs @ (z, False) # ys" and "best_fit (request_nat (unat sz)) bs (length xs)"
    and "a = addr (HEAP_BASE + span xs + 32)"
    and "heap_inv (xs @ take_block (request_nat (unat sz)) z ys) s'"
proof -
  let ?n = "request_nat (unat sz)"
  have "\<exists>b \<in> set bs. fits ?n b" using kmalloc_none [OF inv n] m a by auto
  then obtain i where i: "best_fit ?n bs i" using best_fit_exists by blast
  then have il: "i < length bs" "\<not> snd (bs ! i)" by (simp_all add: best_fit_def fits_def)
  obtain z where z: "bs ! i = (z, False)" using il(2) by (cases "bs ! i") auto
  have bs: "bs = take i bs @ (z, False) # drop (Suc i) bs"
    using id_take_nth_drop [OF il(1)] z by simp
  obtain s1 where s1: "kmalloc sz s = Some (addr (block_addr bs i + 32), s1)"
      "heap_inv (take i bs @ take_block ?n (fst (bs ! i)) (drop (Suc i) bs)) s1"
    using kmalloc_best [OF inv n i] by blast
  show thesis
  proof (rule that [OF bs])
    show "best_fit ?n bs (length (take i bs))" using i il(1) by simp
    show "a = addr (HEAP_BASE + span (take i bs) + 32)" using s1(1) m by (simp add: block_addr_def)
    show "heap_inv (take i bs @ take_block ?n z (drop (Suc i) bs)) s'" using s1 m z by simp
  qed
qed

lemma give_take_block:
  assumes co: "coalesced (xs @ (z, False) # ys)"
  obtains n' rest where "take_block n z ys = (n', True) # rest"
    and "give_block xs n' rest = xs @ (z, False) # ys"
proof -
  have last: "\<not> (xs \<noteq> [] \<and> \<not> snd (last xs))" and ys: "ys = [] \<or> snd (hd ys)"
    using co by (auto simp: coalesced_append coalesced_Cons)
  show thesis
  proof (cases "n + 40 \<le> z")
    case True
    then have "take_block n z ys = (n, True) # (z - n - 32, False) # ys"
      and "give_block xs n ((z - n - 32, False) # ys) = xs @ (z, False) # ys"
      using last by (auto simp: take_block_def give_block_def)
    then show thesis by (rule that)
  next
    case False
    have "join_right z ys = (z, False) # ys"
      using ys by (cases ys) (auto simp: join_right_def split: prod.splits bool.splits)
    with False last have "take_block n z ys = (z, True) # ys"
      and "give_block xs z ys = xs @ (z, False) # ys"
      by (auto simp: take_block_def give_block_def)
    then show thesis by (rule that)
  qed
qed

lemma kmalloc_kfree_layout:
  assumes inv: "heap_inv bs s" and n: "sz \<noteq> 0" "unat sz + 7 < 2 ^ 64"
    and m: "kmalloc sz s = Some (a, s')" and a: "a \<noteq> 0"
  shows "heap_inv bs (kfree a s')"
proof -
  obtain xs z ys where bs: "bs = xs @ (z, False) # ys" and a': "a = addr (HEAP_BASE + span xs + 32)"
      and inv': "heap_inv (xs @ take_block (request_nat (unat sz)) z ys) s'"
    by (rule kmalloc_split [OF inv n m a])
  have "coalesced (xs @ (z, False) # ys)" using inv bs by (simp add: heap_inv_def)
  then obtain n' rest where tb: "take_block (request_nat (unat sz)) z ys = (n', True) # rest"
      and gb: "give_block xs n' rest = xs @ (z, False) # ys"
    by (rule give_take_block)
  from kfree_effect(1) [OF inv' [unfolded tb]] show ?thesis
    unfolding a' bs gb .
qed

section \<open>Initialisation\<close>

lemma heap_init_ready:
  assumes mapped: "fst (heap_map_loop 0 (HEAP_INITIAL_SIZE div PAGE_SIZE)
    (klog ''[HEAP] Initializing...\<newline>'' s))"
  shows "heap_inv [(HEAP_BYTES - 32, False)] (heap_init s)"
proof -
  obtain s2 where s2: "heap_map_loop 0 (HEAP_INITIAL_SIZE div PAGE_SIZE)
      (klog ''[HEAP] Initializing...\<newline>'' s) = (True, s2)"
    using mapped
    by (cases "heap_map_loop 0 (HEAP_INITIAL_SIZE div PAGE_SIZE) (klog ''[HEAP] Initializing...\<newline>'' s)") auto
  have sz: "HEAP_INITIAL_SIZE - HEADER = of_nat (HEAP_BYTES - 32)"
    by (simp add: HEAP_INITIAL_SIZE_def HEADER_def HEAP_BYTES_def)
  show ?thesis
    unfolding heap_init_def Let_def s2 prod.case not_True_eq_False if_False heap_inv_klog
    by (simp add: heap_inv_def addr_HEAP_BASE sz [symmetric]) (simp add: HEAP_BYTES_def)
qed

text \<open>The pages of the heap are mapped, whatever was mapped before.\<close>

lemma paging_ok_klog [simp]:
  "paging_ok off (klog a s) = paging_ok off s" "paging_ok off (klog_num a k v b s) = paging_ok off s"
  by (simp_all add: paging_ok_def pmm_ok_def pt_tree_def window_ok_def pt_root_def taken_def
      allocatable_def memmap_entries_def klog_def klog_num_def pmm_wf_def used_frames_def page_bit_def)

lemma alloc_page_paging_ok:
  assumes ok: "paging_ok off s"
  shows "paging_ok off (snd (pmm_alloc_page s))"
proof -
  have pok: "pmm_ok s" and tree: "pt_tree off s" using ok by (simp_all add: paging_ok_def)
  have "taken s \<subseteq> taken (snd (pmm_alloc_page s))" by (rule avail.alloc_owned [OF pok])
  then have "pt_tree off (snd (pmm_alloc_page s))"
    using tree unfolding pt_tree_def by simp blast
  with ok avail.alloc_ok [OF pok] show ?thesis by (simp add: paging_ok_def)
qed

lemma heap_map_loop_ok:
  assumes "paging_ok off s" and "heap_map_loop i n s = (True, t)"
  shows "paging_ok off t
    \<and> (\<forall>va. translation off s va \<noteq> None \<longrightarrow> translation off t va \<noteq> None)
    \<and> (\<forall>j. i \<le> j \<and> j < n \<longrightarrow> translation off t (HEAP_START + j * PAGE_SIZE) \<noteq> None)"
  using assms
proof (induction i n s rule: heap_map_loop.induct)
  case (1 i n s)
  show ?case
  proof (cases "i < n")
    case True
    let ?va = "HEAP_START + i * PAGE_SIZE"
    obtain p s1 where al: "pmm_alloc_page s = (p, s1)" by fastforce
    have p: "p \<noteq> 0" using "1.prems"(2) True al by (auto simp: heap_map_loop.simps [of i])
    obtain r s2 where mp: "paging_map_page ?va p (PAGING_PRESENT OR PAGING_WRITABLE) s1 = (r, s2)" by fastforce
    have r: r
    proof (rule ccontr)
      assume "\<not> r"
      with "1.prems"(2) True al p mp show False by (simp add: heap_map_loop.simps [of i])
    qed
    have rest: "heap_map_loop (i + 1) n s2 = (True, t)"
      using "1.prems"(2) True al p mp r by (simp add: heap_map_loop.simps [of i])
    have ok1: "paging_ok off s1" using alloc_page_paging_ok [OF "1.prems"(1)] al by simp
    have tr1: "translation off s1 va = translation off s va" for va
      using alloc_page_paging [of s] alloc_page_window(2) [of off s] al by simp
    note me = map_page_effect [OF ok1 mp]
    have IH: "paging_ok off t \<and> (\<forall>va. translation off s2 va \<noteq> None \<longrightarrow> translation off t va \<noteq> None)
        \<and> (\<forall>j. i + 1 \<le> j \<and> j < n \<longrightarrow> translation off t (HEAP_START + j * PAGE_SIZE) \<noteq> None)"
      using "1.IH" [OF True refl al [symmetric] p refl mp [symmetric]] r me(1) rest by blast
    have "translation off t va \<noteq> None" if "translation off s va \<noteq> None" for va
      using that IH me(2) [of va] tr1 by auto
    moreover have "translation off t (HEAP_START + j * PAGE_SIZE) \<noteq> None" if "i \<le> j" "j < n" for j
    proof (cases "j = i")
      case True
      have "translation off s2 ?va \<noteq> None" using me(2) [of ?va] r by simp
      with True IH show ?thesis by blast
    next
      case False
      then have "i + 1 \<le> j" using that(1) by (metis inc_le order_le_imp_less_or_eq)
      with that(2) IH show ?thesis by blast
    qed
    ultimately show ?thesis using IH by blast
  next
    case False
    then show ?thesis using "1.prems" by (auto simp: heap_map_loop.simps [of i])
  qed
qed

text \<open>With four spare frames for every page still to map (the page itself and up to three tables) the
  loop runs to its end.\<close>

lemma heap_map_loop_succeeds:
  assumes "paging_ok off s" and "finite F" and "F \<inter> taken s = {}" and "4 * (unat n - unat i) \<le> card F"
  shows "fst (heap_map_loop i n s)"
  using assms
proof (induction i n s arbitrary: F rule: heap_map_loop.induct)
  case (1 i n s)
  show ?case
  proof (cases "i < n")
    case False
    then show ?thesis by (simp add: heap_map_loop.simps [of i])
  next
    case True
    let ?va = "HEAP_START + i * PAGE_SIZE"
    have pok: "pmm_ok s" using "1.prems"(1) by (simp add: paging_ok_def)
    have room: "4 * (unat n - unat (i + 1)) + 4 \<le> card F"
      using "1.prems"(4) True unat_Suc_of_less [OF True] by (simp add: word_less_nat_alt)
    obtain p s1 where al: "pmm_alloc_page s = (p, s1)" by fastforce
    have p: "p \<noteq> 0"
    proof
      assume "p = 0"
      then have "taken s = UNIV" using alloc_page_exhausted [OF pok] al by simp
      with "1.prems"(3) have "F = {}" by simp
      with room show False by simp
    qed
    obtain f where f: "taken s1 = insert f (taken s)" using alloc_page_taken(2) [OF pok] al p by auto
    have ok1: "paging_ok off s1" using alloc_page_paging_ok [OF "1.prems"(1)] al by simp
    have F1: "(F - {f}) \<inter> taken s1 = {}" using "1.prems"(3) f by auto
    have c1: "card F \<le> card (F - {f}) + 1" using card_Diff_singleton_if [of F f] by auto
    obtain r s2 where mp: "paging_map_page ?va p (PAGING_PRESENT OR PAGING_WRITABLE) s1 = (r, s2)" by fastforce
    have "3 \<le> card (F - {f})" using c1 room by linarith
    then have r: r using map_page_succeeds [OF ok1 F1, of ?va p "PAGING_PRESENT OR PAGING_WRITABLE"] mp by simp
    obtain A where A: "finite A" "card A \<le> 3" "taken s2 = taken s1 \<union> A"
      using map_page_taken [OF ok1] mp r by metis
    have ok2: "paging_ok off s2" using map_page_effect(1) [OF ok1 mp] .
    have F2: "(F - {f} - A) \<inter> taken s2 = {}" using F1 A(3) by auto
    have "card (F - {f}) \<le> card (F - {f} - A) + card A"
      using diff_card_le_card_Diff [OF A(1), of "F - {f}"] by linarith
    with c1 A(2) room have "4 * (unat n - unat (i + 1)) \<le> card (F - {f} - A)" by linarith
    then have "fst (heap_map_loop (i + 1) n s2)"
      using "1.IH" [OF True refl al [symmetric] p refl mp [symmetric] _ ok2 _ F2] r "1.prems"(2) by simp
    with True al p mp r show ?thesis by (simp add: heap_map_loop.simps [of i])
  qed
qed

end
