(* ===== verification/Boot_Memory.thy ===== *)
theory Boot_Memory
  imports Heap_Clients
begin

text \<open>
  The memory part of the boot sequence of kernel.c: \<open>pmm_init\<close>, then \<open>paging_init\<close>, then
  \<open>heap_init\<close>, each handing its state to the next. The lemmas compose the guarantees of the
  three components: what pmm.c establishes is what paging.c needs, and what both establish is what
  heap.c needs.
\<close>

lemma klog_paging_simps [simp]:
  "pmm_ok (klog m s) = pmm_ok s" "pmm_ok (klog_num a k v b s) = pmm_ok s"
  "pt_tree off (klog m s) = pt_tree off s" "pt_tree off (klog_num a k v b s) = pt_tree off s"
  "window_ok off (klog m s) = window_ok off s" "window_ok off (klog_num a k v b s) = window_ok off s"
  "paging_hhdm (klog m s) = paging_hhdm s" "paging_hhdm (klog_num a k v b s) = paging_hhdm s"
  "taken (klog_num a k v b s) = taken s"
  by (simp_all add: pmm_ok_def pt_tree_def window_ok_def pt_root_def taken_def
      allocatable_def memmap_entries_def klog_def klog_num_def pmm_wf_def used_frames_def page_bit_def)

lemma set_hhdm_simps [simp]:
  "pmm_ok (s\<lparr>paging_hhdm := h\<rparr>) = pmm_ok s" "pt_tree off (s\<lparr>paging_hhdm := h\<rparr>) = pt_tree off s"
  "window_ok off (s\<lparr>paging_hhdm := h\<rparr>) = window_ok off s" "taken (s\<lparr>paging_hhdm := h\<rparr>) = taken s"
  by (simp_all add: pmm_ok_def pt_tree_def window_ok_def pt_root_def taken_def
      allocatable_def memmap_entries_def pmm_wf_def used_frames_def page_bit_def)

lemma paging_init_ok:
  assumes "pmm_ok s" and "pt_tree off s" and "window_ok off s"
  shows "paging_ok off (paging_init (Some off) s)" and "taken (paging_init (Some off) s) = taken s"
  using assms by (simp_all add: paging_init_def Let_def paging_ok_def)

lemma pmm_init_ok:
  assumes "memmap_ok es" and "used_pages s = 0" and "map_largest_base es + off \<noteq> 0"
  shows "pmm_ok (pmm_init (Some es) (Some off) s)"
  using pmm_init_wf [OF assms(1,2), of off] assms(3) by (simp add: pmm_ok_def pmm_init_state)

lemma pmm_init_window:
  assumes "0 < unat off" and "unat off mod 4096 = 0" and "unat (map_pages es) * 4096 + unat off \<le> 2 ^ 64"
  shows "window_ok off (pmm_init (Some es) (Some off) s)"
  using assms by (simp add: window_ok_def pmm_init_state)

definition boot_memory :: "memmap_entry list option \<Rightarrow> u64 option \<Rightarrow> 'a heap_scheme \<Rightarrow> 'a heap_scheme" where
  "boot_memory memmap_response hhdm_response s =
     heap_init (paging_init hhdm_response (pmm_init memmap_response hhdm_response s))"

lemma heap_init_pages:
  assumes ok: "paging_ok off s" and F: "finite F" "F \<inter> taken s = {}" "1024 \<le> card F"
  obtains t where "heap_map_loop 0 (HEAP_INITIAL_SIZE div PAGE_SIZE) (klog ''[HEAP] Initializing...\<newline>'' s) = (True, t)"
    and "paging_ok off t" and "\<And>j. j < 256 \<Longrightarrow> translation off t (HEAP_START + j * PAGE_SIZE) \<noteq> None"
    and "heap_inv [(HEAP_BYTES - 32, False)] (heap_init s)"
proof -
  let ?s = "klog ''[HEAP] Initializing...\<newline>'' s"
  have n: "HEAP_INITIAL_SIZE div PAGE_SIZE = 256" by (simp add: HEAP_INITIAL_SIZE_def PAGE_SIZE_def)
  have run: "fst (heap_map_loop 0 256 ?s)"
    by (rule heap_map_loop_succeeds [of off _ F]) (use ok F in simp_all)
  obtain t where t: "heap_map_loop 0 256 ?s = (True, t)" using run by (cases "heap_map_loop 0 256 ?s") simp
  have "heap_inv [(HEAP_BYTES - 32, False)] (heap_init s)" by (rule heap_init_ready) (simp only: n run)
  with heap_map_loop_ok [OF _ t, of off] ok t that [of t] show thesis by (simp add: n)
qed

end
