(* ===== verification/Printf_Spec.thy ===== *)
theory Printf_Spec
  imports Printf
begin

text \<open>
  What \<open>printf\<close> prints: a pure rendering of format and arguments, of which the
  code is the character-by-character output; what reaches the serial line; and what
  scrolling does to the screen.
\<close>

section \<open>Rendering\<close>

definition nat_text :: "nat \<Rightarrow> string" where
  "nat_text n = map (\<lambda>b. char_of (unat b)) (itoa_string 10 n)"

definition int_text :: "int \<Rightarrow> string" where
  "int_text i = (if i < 0 then CHR ''-'' # nat_text (nat (- i)) else nat_text (nat i))"

definition number_text :: "u64 \<Rightarrow> nat \<Rightarrow> bool \<Rightarrow> string" where
  "number_text num base is_signed =
     (if is_signed \<and> sint num < 0 then CHR ''-'' # num_text base (- num) else num_text base num)"

definition conv_text :: "char \<Rightarrow> bool \<Rightarrow> bool \<Rightarrow> vararg list \<Rightarrow> (int \<times> vararg list \<times> string) option" where
  "conv_text c is_long is_alt args =
     (if c \<in> {CHR ''d'', CHR ''i''} then
        map_option (\<lambda>(v, as). (1, as, number_text (narrow is_long v) 10 True)) (pop_int args)
      else if c = CHR ''u'' then
        map_option (\<lambda>(v, as). (1, as, number_text (narrow is_long v) 10 False)) (pop_int args)
      else if c = CHR ''x'' then
        map_option (\<lambda>(v, as). (1, as, (if is_alt then ''0x'' else '''') @ number_text (narrow is_long v) 16 False))
          (pop_int args)
      else if c = CHR ''o'' then
        map_option (\<lambda>(v, as). (1, as, (if is_alt then ''0'' else '''') @ number_text (narrow is_long v) 8 False))
          (pop_int args)
      else if c = CHR ''p'' then
        map_option (\<lambda>(v, as). (1, as, ''0x'' @ number_text v 16 False)) (pop_int args)
      else if c = CHR ''c'' then
        map_option (\<lambda>(v, as). (1, as, [char_of (unat (ucast v :: u8))])) (pop_int args)
      else if c = CHR ''s'' then
        map_option (\<lambda>(v, as). (1, as, (case v of None \<Rightarrow> ''(null)'' | Some str \<Rightarrow> str))) (pop_str args)
      else if c = CHR ''%'' then Some (1, args, ''%'')
      else Some (2, args, [CHR ''%'', c]))"

function render :: "string \<Rightarrow> vararg list \<Rightarrow> (int \<times> string) option" where
  "render [] args = Some (0, [])"
| "render (c # cs) args =
     (if c = CHR ''%'' then
        (case skip_flags cs False False of
           ([], _, _) \<Rightarrow> None
         | (d # ds, is_long, is_alt) \<Rightarrow>
             (case conv_text d is_long is_alt args of
                None \<Rightarrow> None
              | Some (k, args', out) \<Rightarrow> map_option (\<lambda>(n, rest). (k + n, out @ rest)) (render ds args')))
      else map_option (\<lambda>(n, rest). (1 + n, c # rest)) (render cs args))"
  by pat_completeness auto
termination
  by (relation "measure (\<lambda>(cs, args). length cs)")
    (auto dest!: skip_flags_length sym [of "(_ # _, _, _)"])

lemma putstring_append: "putstring (xs @ ys) s = putstring ys (putstring xs s)"
  by (induction xs arbitrary: s) simp_all

lemma putnumber_text: "putnumber num base is_signed s = putstring (number_text num base is_signed) s"
  by (simp add: putnumber_def number_text_def)

lemma printf_conv_text:
  "printf_conv c l a args s = map_option (\<lambda>(k, as, out). (k, as, putstring out s)) (conv_text c l a args)"
  unfolding printf_conv_def conv_text_def
  by (auto simp: putnumber_text putstring_append split: option.splits)

lemma printf_loop_render:
  "printf_loop fmt args n s = map_option (\<lambda>(k, out). (n + k, putstring out s)) (render fmt args)"
proof (induction fmt args n s rule: printf_loop.induct)
  case (2 c cs args n s)
  show ?case
  proof (cases "c = CHR ''%''")
    case pct: True
    obtain rest l a where sk: "skip_flags cs False False = (rest, l, a)" by (metis prod_cases3)
    show ?thesis
    proof (cases rest)
      case Nil
      then show ?thesis using pct sk by simp
    next
      case (Cons d ds)
      show ?thesis
      proof (cases "conv_text d l a args")
        case None
        then show ?thesis using pct sk Cons by (simp add: printf_conv_text)
      next
        case (Some r)
        obtain k as out where r: "r = (k, as, out)" by (metis prod_cases3)
        have cv: "printf_conv d l a args s = Some (k, as, putstring out s)"
          using Some r by (simp add: printf_conv_text)
        have "printf_loop ds as (n + k) (putstring out s)
            = map_option (\<lambda>(k', t). (n + k + k', putstring t (putstring out s))) (render ds as)"
          using "2.IH"(1) pct sk Cons cv by simp
        then show ?thesis
          using pct sk Cons cv Some r
          by (simp add: option.map_comp comp_def split_def putstring_append add.assoc)
      qed
    qed
  next
    case False
    then show ?thesis using "2.IH"(2)
      by (simp add: option.map_comp comp_def split_def add.assoc)
  qed
qed simp

lemma printf_render:
  "printf fmt args s = map_option (\<lambda>(k, out). (k, putstring out (printf_auto_init s))) (render fmt args)"
  by (simp add: printf_def printf_loop_render)

section \<open>Numbers\<close>

lemma num_text_nat: "num_text 10 v = nat_text (unat v)"
  by (simp add: num_text_def nat_text_def)

lemma unat_neg:
  fixes v :: u64
  assumes "sint v < 0"
  shows "unat (- v) = nat (- sint v)"
proof -
  have lo: "- (2 ^ 63) \<le> sint v" using sint_ge [of v] by simp
  have "- v = word_of_int (- sint v)" by simp
  then have "uint (- v) = (- sint v) mod 2 ^ 64" by (simp only: uint_word_of_int) simp
  also have "\<dots> = - sint v" using assms lo by simp
  finally show ?thesis by (simp flip: nat_uint_eq)
qed

lemma number_text_signed: "number_text v 10 True = int_text (sint v)"
proof (cases "sint v < 0")
  case True
  then show ?thesis by (simp add: number_text_def int_text_def num_text_nat unat_neg)
next
  case False
  moreover have "sint v < 2 ^ 64" using sint_lt [of v] by simp
  ultimately have "uint v = sint v" using uint_sint [of v] by (simp add: take_bit_int_eq_self)
  then have "sint v = int (unat v)" by simp
  with False show ?thesis by (simp add: number_text_def int_text_def num_text_nat)
qed

lemma number_text_unsigned: "number_text v 10 False = nat_text (unat v)"
  by (simp add: number_text_def num_text_nat)

lemma sint_narrow32: "0 \<le> sint (ucast (w :: u32) :: u64)"
proof -
  have "\<not> bit (ucast w :: u64) 63" by (auto simp: bit_simps dest: bit_imp_le_length)
  then show ?thesis by (simp add: sint_uint signed_take_bit_nonnegative_iff bit_uint_iff)
qed

text \<open>
  \<open>%ld\<close> prints the signed value; \<open>%d\<close> goes through an unsigned 32-bit
  variable and therefore never prints a sign.
\<close>

lemma render_ld: "render ''%ld'' [IntArg v] = Some (1, int_text (sint v))"
  by (simp add: conv_text_def narrow_def number_text_signed)

lemma render_d: "render ''%d'' [IntArg v] = Some (1, nat_text (unat (ucast v :: u32)))"
proof -
  have "number_text (ucast (ucast v :: u32) :: u64) 10 True = nat_text (unat (ucast v :: u32))"
    using sint_narrow32 [of "ucast v"] by (simp add: number_text_def num_text_nat unat_ucast_up not_less [symmetric])
  then show ?thesis by (simp add: conv_text_def narrow_def)
qed

text \<open>The unfinished conversion at the end of a format has no rendering.\<close>

lemma render_append_plain:
  "CHR ''%'' \<notin> set xs \<Longrightarrow> render (xs @ ys) args
     = map_option (\<lambda>(n, rest). (int (length xs) + n, xs @ rest)) (render ys args)"
  by (induction xs) (auto simp: option.map_comp comp_def split_def option.map_ident_strong algebra_simps)

lemma render_trailing_percent: "CHR ''%'' \<notin> set xs \<Longrightarrow> render (xs @ ''%'') args = None"
  by (simp add: render_append_plain)

lemma render_plain: "CHR ''%'' \<notin> set xs \<Longrightarrow> render xs args = Some (int (length xs), xs)"
  using render_append_plain [of xs "[]"] by simp

section \<open>The serial line\<close>

text \<open>What one character of a formatted text puts on the line.\<close>

definition tty :: "char \<Rightarrow> string" where
  "tty c = (if c = NL then [CR, CR, NL] else [c])"

lemma auto_init_initialized [simp]: "printf_initialized (printf_auto_init s)"
  by (simp add: printf_auto_init_def)

lemma auto_init_id [simp]: "printf_initialized s \<Longrightarrow> printf_auto_init s = s"
  by (simp add: printf_auto_init_def)

lemma putchar_fb_serial [simp]:
  "serial_out (putchar_fb fb c s) = serial_out s"
  "printf_initialized (putchar_fb fb c s) = printf_initialized s"
  "current_fb (putchar_fb fb c s) = current_fb s"
  by (auto simp: putchar_fb_def Let_def scroll_screen_def split: option.splits)

lemma klog_screen [frame_simps, simp]:
  "current_fb (klog m s) = current_fb s" "printf_initialized (klog m s) = printf_initialized s"
  "fb_pixels (klog m s) = fb_pixels s" "cursor_x (klog m s) = cursor_x s" "cursor_y (klog m s) = cursor_y s"
  "text_color (klog m s) = text_color s" "bg_color (klog m s) = bg_color s" "font_data (klog m s) = font_data s"
  by (simp_all add: klog_def)

lemma putchar_serial:
  "printf_initialized s \<Longrightarrow> serial_out (putchar c s) = serial_out s @ tty c \<and> printf_initialized (putchar c s)"
  by (auto simp: putchar_def Let_def tty_def serial_out_klog crlf_def split: option.splits)

lemma putstring_serial:
  "printf_initialized s \<Longrightarrow> serial_out (putstring xs s) = serial_out s @ concat (map tty xs)
     \<and> printf_initialized (putstring xs s)"
  by (induction xs arbitrary: s) (simp_all add: putchar_serial)

lemma printf_serial:
  assumes "printf_initialized s" and "render fmt args = Some (k, out)"
  shows "\<exists>s'. printf fmt args s = Some (k, s') \<and> serial_out s' = serial_out s @ concat (map tty out)"
  using assms putstring_serial [of s out] by (simp add: printf_render)

section \<open>Scrolling\<close>

lemma copy_row:
  assumes ok: "fb_ok fb" and s: "screen_is fb f p" and y: "on_fb fb 0 y" "16 \<le> unat y"
    and w: "unat w = unat (fb_width fb)"
  shows "screen_is fb (\<lambda>a b. if b = y - 16 then f a y else f a b)
    (for_up 0 w (\<lambda>x q. q(fb_index fb x (y - 16) := q (fb_index fb x y))) p)"
proof -
  have y16: "unat (y - 16) = unat y - 16" using y(2) by (simp add: unat_sub_no_wrap word_le_nat_alt)
  have ne: "y \<noteq> y - 16" using y16 y(2) by (auto simp: word_unat_eq_iff)
  have "screen_is fb (\<lambda>a b. if b = y - 16 \<and> 0 \<le> a \<and> a < w then f a y else f a b)
    (for_up 0 w (\<lambda>x q. q(fb_index fb x (y - 16) := q (fb_index fb x y))) p)"
  proof (rule screen_row_loop [OF s])
    fix k g q assume g: "screen_is fb g q" and k: "k < w"
      and keep: "\<And>a b. on_fb fb a b \<Longrightarrow> k \<le> a \<or> b \<noteq> y - 16 \<Longrightarrow> g a b = f a b"
    have on: "on_fb fb k y" "on_fb fb k (y - 16)"
      using k w y y16 by (auto simp: on_fb_def word_less_nat_alt)
    have "q (fb_index fb k y) = f k y"
      using screen_isD [OF g on(1)] keep [OF on(1)] ne by simp
    with screen_is_set [OF ok g on(2)]
    have "screen_is fb (\<lambda>a b. if a = k \<and> b = y - 16 then f k y else g a b)
      (q(fb_index fb k (y - 16) := q (fb_index fb k y)))" by simp
    then show "screen_is fb (\<lambda>a b. if a = k \<and> b = y - 16 then f a y else g a b)
      (q(fb_index fb k (y - 16) := q (fb_index fb k y)))"
      by (rule screen_is_cong) simp
  qed simp
  then show ?thesis
    by (rule screen_is_cong) (use w in \<open>auto simp: on_fb_def word_less_nat_alt\<close>)
qed

lemma blank_row:
  assumes ok: "fb_ok fb" and s: "screen_is fb f p" and w: "unat w = unat (fb_width fb)"
  shows "screen_is fb (\<lambda>a b. if b = y then c else f a b) (for_up 0 w (\<lambda>x. fb_draw_pixel fb x y c) p)"
proof (rule screen_is_cong [OF fill_row [OF ok s]])
  show "0 \<le> w" by simp
  fix a b assume "on_fb fb a b"
  then show "(if b = y \<and> 0 \<le> a \<and> a < w then c else f a b) = (if b = y then c else f a b)"
    using w by (auto simp: on_fb_def word_less_nat_alt)
qed

lemma scroll_pixels_screen:
  assumes ok: "fb_ok fb" and s: "screen_is fb f p" and h16: "16 \<le> unat (fb_height fb)"
    and wpos: "0 < unat (fb_width fb)"
  shows "screen_is fb (\<lambda>a b. if unat b + 16 < unat (fb_height fb) then f a (b + 16) else bg)
    (scroll_pixels fb bg p)"
proof -
  let ?h = "ucast (fb_height fb) :: u32" and ?w = "ucast (fb_width fb) :: u32"
  have h: "unat ?h = unat (fb_height fb)" and w: "unat ?w = unat (fb_width fb)"
    using ok by (simp_all add: unat_ucast_mod fb_ok_def)
  define I where "I = (\<lambda>k q. screen_is fb (\<lambda>a b. if unat b + 16 < k then f a (b + 16) else f a b) q)"
  define p1 where "p1 = for_up 16 ?h (\<lambda>y. for_up 0 ?w (\<lambda>x q.
      q(fb_index fb x (y - 16) := q (fb_index fb x y)))) p"
  have "I (unat ?h) p1"
    unfolding p1_def
  proof (rule for_up_rule [where I = I])
    show "(16 :: u32) \<le> ?h" using h h16 by (simp add: word_le_nat_alt)
    show "I (unat (16 :: u32)) p" unfolding I_def by (rule screen_is_cong [OF s]) simp
  next
    fix k q assume k: "unat (16 :: u32) \<le> k" "k < unat ?h" and q: "I k q"
    have u: "unat (of_nat k :: u32) = k" by (rule u32_of_nat [OF k(2)])
    have y: "on_fb fb 0 (of_nat k)" "16 \<le> unat (of_nat k :: u32)"
      using k h u wpos by (simp_all add: on_fb_def)
    have m: "unat (of_nat k - 16 :: u32) = k - 16"
      using u k by (simp add: unat_sub_no_wrap word_le_nat_alt)
    from copy_row [OF ok q [unfolded I_def] y w]
    show "I (Suc k) (for_up 0 ?w (\<lambda>x q. q(fb_index fb x (of_nat k - 16) := q (fb_index fb x (of_nat k)))) q)"
      unfolding I_def
    proof (rule screen_is_cong)
      fix a b
      show "(if b = of_nat k - 16 then (if unat (of_nat k :: u32) + 16 < k then f a (of_nat k + 16) else f a (of_nat k))
          else if unat b + 16 < k then f a (b + 16) else f a b)
        = (if unat b + 16 < Suc k then f a (b + 16) else f a b)"
      proof (cases "b = of_nat k - 16")
        case True
        then have "b + 16 = of_nat k" "unat b = k - 16" using m by simp_all
        with True k u show ?thesis by simp
      next
        case False
        then have "unat b \<noteq> k - 16" using m by (metis word_unat_eq_iff)
        with False k show ?thesis by auto
      qed
    qed
  qed
  then have p1: "screen_is fb (\<lambda>a b. if unat b + 16 < unat (fb_height fb) then f a (b + 16) else f a b) p1"
    by (simp add: I_def h)
  define J where "J = (\<lambda>k q. screen_is fb (\<lambda>a b. if unat b + 16 < unat (fb_height fb) then f a (b + 16)
      else if unat b < k then bg else f a b) q)"
  have h_le: "?h - 16 \<le> ?h" and h16': "unat (?h - 16) = unat (fb_height fb) - 16"
    using h h16 by (simp_all add: word_le_nat_alt unat_sub_no_wrap)
  have "J (unat ?h) (for_up (?h - 16) ?h (\<lambda>y. for_up 0 ?w (\<lambda>x. fb_draw_pixel fb x y bg)) p1)"
  proof (rule for_up_rule [where I = J])
    show "J (unat (?h - 16)) p1"
      unfolding J_def by (rule screen_is_cong [OF p1]) (auto simp: h16')
  next
    fix k q assume k: "unat (?h - 16) \<le> k" "k < unat ?h" and q: "J k q"
    have u: "unat (of_nat k :: u32) = k" by (rule u32_of_nat [OF k(2)])
    from blank_row [OF ok q [unfolded J_def] w, of "of_nat k" bg]
    show "J (Suc k) (for_up 0 ?w (\<lambda>x. fb_draw_pixel fb x (of_nat k) bg) q)"
      unfolding J_def
      by (rule screen_is_cong) (use k u h16' in \<open>auto simp: word_unat_eq_iff less_Suc_eq\<close>)
  qed (use h_le in simp)
  then have "screen_is fb (\<lambda>a b. if unat b + 16 < unat (fb_height fb) then f a (b + 16)
      else if unat b < unat (fb_height fb) then bg else f a b) (scroll_pixels fb bg p)"
    by (simp add: J_def h p1_def scroll_pixels_def Let_def)
  then show ?thesis by (rule screen_is_cong) (auto simp: on_fb_def)
qed

end
