(* ===== verification/Serial.thy ===== *)
theory Serial
  imports Console
begin

text \<open>
  \<open>kernel/src/drivers/serial.c\<close> on the ports of \<open>io.h\<close>: COM1 at 0x3F8. The
  driver's state is its initialisation flag; the line's is the sequence of bytes
  written to its ports and, since the driver polls, the status byte the UART will
  answer to each successive read of the line status register. Waiting for a UART
  that never becomes ready is the \<open>None\<close> of \<open>option\<close>.
\<close>

section \<open>The driver\<close>

record serial =
  is_initialized :: bool
  outs :: "(u16 \<times> u8) list"
  polls :: nat

definition SERIAL_PORT :: u16 where
  "SERIAL_PORT = 0x3F8"

definition outb :: "u16 \<Rightarrow> u8 \<Rightarrow> serial \<Rightarrow> serial" where
  "outb port val d = d\<lparr>outs := outs d @ [(port, val)]\<rparr>"

definition serial_init :: "serial \<Rightarrow> serial" where
  "serial_init d =
     (if is_initialized d then d
      else (outb (SERIAL_PORT + 4) 0x0B
        (outb (SERIAL_PORT + 2) 0xC7
        (outb (SERIAL_PORT + 3) 0x03
        (outb (SERIAL_PORT + 1) 0x00
        (outb (SERIAL_PORT + 0) 0x01
        (outb (SERIAL_PORT + 3) 0x80
        (outb (SERIAL_PORT + 1) 0x00 d)))))))\<lparr>is_initialized := True\<rparr>)"

text \<open>
  \<open>status k\<close> is what the UART answers to the \<open>k\<close>-th read of its line status
  register; bit 5 says that the transmitter is empty.
\<close>

partial_function (option) serial_wait_ready :: "(nat \<Rightarrow> u8) \<Rightarrow> serial \<Rightarrow> serial option" where
  "serial_wait_ready status d =
     (if status (polls d) AND 0x20 = 0
      then serial_wait_ready status (d\<lparr>polls := Suc (polls d)\<rparr>)
      else Some (d\<lparr>polls := Suc (polls d)\<rparr>))"

function serial_putc :: "(nat \<Rightarrow> u8) \<Rightarrow> u8 \<Rightarrow> serial \<Rightarrow> serial option" where
  "serial_putc status c d =
     (let d1 = (if \<not> is_initialized d then serial_init d else d)
      in case (if c = 10 then serial_putc status 13 d1 else Some d1) of
           None \<Rightarrow> None
         | Some d2 \<Rightarrow> map_option (outb SERIAL_PORT c) (serial_wait_ready status d2))"
  by pat_completeness auto
termination
  by (relation "measure (\<lambda>(status, c, d). if c = 10 then 1 else 0)") auto

declare serial_putc.simps [simp del]

definition serial_puts :: "(nat \<Rightarrow> u8) \<Rightarrow> u8 list \<Rightarrow> serial \<Rightarrow> serial option" where
  "serial_puts status str d = put_all (serial_putc status) str d"

definition hex_digit :: "u8 \<Rightarrow> u8" where
  "hex_digit n = of_char (''0123456789ABCDEF'' ! unat n)"

definition str_bytes :: "string \<Rightarrow> u8 list" where
  "str_bytes = map of_char"

definition serial_put_hex64 :: "(nat \<Rightarrow> u8) \<Rightarrow> u64 \<Rightarrow> serial \<Rightarrow> serial option" where
  "serial_put_hex64 status v d =
     Option.bind (serial_puts status (str_bytes ''0x'') d)
       (put_all (\<lambda>i. serial_putc status (hex_digit (ucast (drop_bit i v AND 0xF))))
          [60, 56, 52, 48, 44, 40, 36, 32, 28, 24, 20, 16, 12, 8, 4, 0])"

definition serial_put_hex8 :: "(nat \<Rightarrow> u8) \<Rightarrow> u8 \<Rightarrow> serial \<Rightarrow> serial option" where
  "serial_put_hex8 status v d =
     Option.bind (serial_puts status (str_bytes ''0x'') d)
       (\<lambda>d1. Option.bind (serial_putc status (hex_digit (drop_bit 4 v AND 0xF)) d1)
         (serial_putc status (hex_digit (v AND 0xF))))"

section \<open>What the line carries\<close>

text \<open>The bytes written to the data port, and how one character of text is sent.\<close>

definition sent :: "serial \<Rightarrow> u8 list" where
  "sent d = map snd (filter (\<lambda>(p, v). p = SERIAL_PORT) (outs d))"

definition crlf_byte :: "u8 \<Rightarrow> u8 list" where
  "crlf_byte c = (if c = 10 then [13, 10] else [c])"

text \<open>The UART empties its transmitter again and again.\<close>

definition responsive :: "(nat \<Rightarrow> u8) \<Rightarrow> bool" where
  "responsive status \<longleftrightarrow> (\<forall>k. \<exists>j \<ge> k. status j AND 0x20 \<noteq> 0)"

lemma sent_outb [simp]: "sent (outb p v d) = sent d @ (if p = SERIAL_PORT then [v] else [])"
  by (simp add: sent_def outb_def)

lemma is_initialized_outb [simp]: "is_initialized (outb p v d) = is_initialized d"
  by (simp add: outb_def)

lemma wait_ready_polls:
  assumes "status (polls d + n) AND 0x20 \<noteq> 0"
  shows "\<exists>k. serial_wait_ready status d = Some (d\<lparr>polls := k\<rparr>)"
  using assms
proof (induction n arbitrary: d)
  case 0
  then show ?case by (subst serial_wait_ready.simps) auto
next
  case (Suc n)
  then have "\<exists>k. serial_wait_ready status (d\<lparr>polls := Suc (polls d)\<rparr>) = Some (d\<lparr>polls := k\<rparr>)"
    using Suc.IH [of "d\<lparr>polls := Suc (polls d)\<rparr>"] by simp
  then show ?case by (subst serial_wait_ready.simps) auto
qed

lemma wait_ready_returns:
  assumes "responsive status"
  shows "\<exists>k. serial_wait_ready status d = Some (d\<lparr>polls := k\<rparr>)"
proof -
  from assms obtain j where "polls d \<le> j" "status j AND 0x20 \<noteq> 0"
    unfolding responsive_def by blast
  then have "status (polls d + (j - polls d)) AND 0x20 \<noteq> 0" by simp
  then show ?thesis by (rule wait_ready_polls)
qed

lemma putc_plain:
  assumes "responsive status" and "is_initialized d" and "c \<noteq> 10"
  shows "\<exists>d'. serial_putc status c d = Some d' \<and> is_initialized d' \<and> sent d' = sent d @ [c]"
proof -
  from wait_ready_returns [OF assms(1), of d] obtain k
    where "serial_wait_ready status d = Some (d\<lparr>polls := k\<rparr>)" by blast
  moreover have "sent (d\<lparr>polls := k\<rparr>) = sent d" by (simp add: sent_def)
  ultimately show ?thesis using assms(2,3) by (subst serial_putc.simps) auto
qed

lemma putc_newline:
  assumes "responsive status" and "is_initialized d"
  shows "\<exists>d'. serial_putc status 10 d = Some d' \<and> is_initialized d' \<and> sent d' = sent d @ [13, 10]"
proof -
  from putc_plain [OF assms, of 13] obtain d2
    where d2: "serial_putc status 13 d = Some d2" "is_initialized d2" "sent d2 = sent d @ [13]"
    by auto
  from wait_ready_returns [OF assms(1), of d2] obtain k
    where "serial_wait_ready status d2 = Some (d2\<lparr>polls := k\<rparr>)" by blast
  moreover have "sent (d2\<lparr>polls := k\<rparr>) = sent d2" by (simp add: sent_def)
  ultimately show ?thesis using assms(2) d2 by (subst serial_putc.simps) auto
qed

interpretation uart: char_sink "serial_putc status"
  "\<lambda>d. is_initialized d \<and> responsive status" sent crlf_byte for status
proof unfold_locales
  fix d :: serial and c assume "is_initialized d \<and> responsive status"
  then show "\<exists>d'. serial_putc status c d = Some d' \<and> (is_initialized d' \<and> responsive status)
      \<and> sent d' = sent d @ crlf_byte c"
    using putc_plain [of status d c] putc_newline [of status d]
    by (cases "c = 10") (auto simp: crlf_byte_def)
qed

lemma serial_puts_sent:
  assumes "responsive status" and "is_initialized d"
  shows "\<exists>d'. serial_puts status str d = Some d' \<and> is_initialized d'
    \<and> sent d' = sent d @ concat (map crlf_byte str)"
  using uart.put_all_out [of d status str] assms by (auto simp: serial_puts_def)

text \<open>The log of \<open>Console\<close> is what the driver transmits.\<close>

lemma unat_of_char: "unat (of_char c :: u8) = of_char c"
proof -
  have "(of_char c :: u8) = of_nat (of_char c)" by (simp only: of_nat_of_char)
  also have "unat \<dots> = of_char c mod 256" by (simp only: unat_of_nat) simp
  finally show ?thesis by simp
qed

lemma of_char_newline: "(of_char c :: u8) = 10 \<longleftrightarrow> c = CHR 0x0A"
proof -
  have "(of_char c :: u8) = of_char d \<Longrightarrow> c = d" for d
    by (metis unat_of_char of_char_eq_iff)
  from this [of "CHR 0x0A"] show ?thesis by auto
qed

lemma crlf_bytes: "concat (map crlf_byte (str_bytes msg)) = str_bytes (crlf msg)"
  by (induction msg) (simp_all add: crlf_byte_def str_bytes_def crlf_def of_char_newline)

end
