(* ===== verification/Sample_States.thy ===== *)
theory Sample_States
  imports Boot_Memory Printf_Spec Serial
begin

text \<open>
  Concrete machine states. \<open>zero_state\<close> is the kernel's static storage as the loader leaves it:
  every counter and pointer of pmm.c, paging.c and heap.c zero, no output, memory cleared. On it,
  \<open>sample_map\<close> is a small memory map in the form Limine hands over (one reserved frame, 2047
  usable ones), \<open>sample_pmm\<close> the state after \<open>pmm_init\<close>, \<open>sample_paging\<close> the state
  after \<open>paging_init\<close> with the reserved frame 0 as an empty root table, and
  \<open>sample_heap\<close> a heap of one free block. The properties are evaluated on them.
\<close>

definition zero_state :: heap where
  "zero_state = \<lparr>serial_out = [],
     current_fb = None, fb_pixels = (\<lambda>_. 0), font_data = (\<lambda>_. 0), cursor_x = 5, cursor_y = 5,
     text_color = 0, bg_color = 0, printf_initialized = False, fb_response = None,
     current_memmap = None, current_hhdm = None, bitmap = 0, bitmap_bytes = (\<lambda>_. 0),
     bitmap_size = 0, total_pages = 0, used_pages = 0, total_memory = 0,
     kmem = (\<lambda>_. 0), cr0 = 0x80000000, cr2 = 0, cr3 = 0, cr4 = 0, paging_hhdm = None, invalidated = [],
     heap_start = 0, heap_end = 0, heap_total = 0, heap_used = 0, block_count = 0, first_block = 0\<rparr>"

definition sample_map :: "memmap_entry list" where
  "sample_map = [\<lparr>me_base = 0, me_length = 0x1000, me_usable = False\<rparr>,
                 \<lparr>me_base = 0x1000, me_length = 0x7FF000, me_usable = True\<rparr>]"

definition sample_hhdm :: u64 where
  "sample_hhdm = 0xFFFF800000000000"

definition sample_pmm :: heap where
  "sample_pmm = pmm_init (Some sample_map) (Some sample_hhdm) zero_state"

definition sample_paging :: heap where
  "sample_paging = paging_init (Some sample_hhdm) sample_pmm"

lemma zero_state_fields [simp]:
  "used_pages zero_state = 0" "kmem zero_state = (\<lambda>_. 0)" "cr3 zero_state = 0"
  "serial_out zero_state = []"
  by (simp_all add: zero_state_def)

lemma sample_map_scan:
  "map_highest sample_map = 0x800000" "map_largest_base sample_map = 0x1000"
  "map_largest_size sample_map = 0x7FF000"
  by (simp_all add: map_highest_def map_largest_base_def map_largest_size_def sample_map_def)

lemma sample_map_pages: "map_pages sample_map = 2048" "map_bitmap_size sample_map = 256"
  by (simp_all add: map_pages_def map_bitmap_size_def sample_map_scan PAGE_SIZE_def)

lemma sample_map_frames:
  "entry_frames \<lparr>me_base = 0, me_length = 0x1000, me_usable = False\<rparr> = {0..<1}"
  "entry_frames \<lparr>me_base = 0x1000, me_length = 0x7FF000, me_usable = True\<rparr> = {1..<2048}"
  by (simp_all add: entry_frames_def frames_between_def PAGE_SIZE_def)

lemma sample_map_ok: "memmap_ok sample_map"
  unfolding memmap_ok_def entries_disjoint_def sample_map_scan sample_map_pages
  by (simp add: sample_map_def sample_map_frames)

lemma sample_map_bitmap: "bitmap_frames sample_map = {1}"
  by (auto simp: bitmap_frames_def frames_between_def sample_map_scan sample_map_pages PAGE_SIZE_def)

lemma sample_map_reserved: "reserved_frames sample_map = {0}"
proof -
  have "{e \<in> set sample_map. \<not> me_usable e} = {\<lparr>me_base = 0, me_length = 0x1000, me_usable = False\<rparr>}"
    unfolding sample_map_def by fastforce
  then show ?thesis by (simp add: reserved_frames_def sample_map_frames)
qed

lemma sample_pmm_fields [simp]:
  "total_pages sample_pmm = 2048" "current_memmap sample_pmm = Some sample_map"
  "bitmap sample_pmm = sample_hhdm + 0x1000" "pmm.more sample_pmm = pmm.more zero_state"
  by (simp_all add: sample_pmm_def pmm_init_state sample_map_scan sample_map_pages)

lemma sample_pmm_wf: "pmm_wf sample_pmm"
  unfolding sample_pmm_def by (rule pmm_init_wf [OF sample_map_ok]) simp

lemma sample_pmm_ok: "pmm_ok sample_pmm"
  by (simp add: pmm_ok_def sample_pmm_wf sample_hhdm_def)

lemma sample_pmm_used: "used_frames sample_pmm = {0, 1}"
  unfolding sample_pmm_def pmm_init_used_frames sample_map_reserved sample_map_bitmap sample_map_pages
  by auto

lemma sample_pmm_allocatable: "allocatable sample_pmm k \<longleftrightarrow> 2 \<le> k \<and> k < 2048"
proof -
  have bit: "page_bit sample_pmm k \<longleftrightarrow> k \<in> {0, 1}" if "k < 2048"
    unfolding sample_pmm_def
    by (subst pmm_init_bits) (simp_all add: that sample_map_pages sample_map_reserved sample_map_bitmap)
  have use: "usable_page (of_nat k) sample_map" if "2 \<le> k" "k < 2048"
  proof -
    have "unat (of_nat k :: u64) = k" using that by (simp add: wordnat)
    then have "unat (of_nat k * PAGE_SIZE) = k * 4096" using frame_addr_eq [of "of_nat k"] that by simp
    then show ?thesis using that by (simp add: sample_map_def word_le_nat_alt word_less_nat_alt)
  qed
  show ?thesis
    using bit use by (auto simp: allocatable_def memmap_entries_def)
qed

section \<open>Paging and the heap\<close>

lemma zero_entry [simp]: "entry_get (\<lambda>_. 0) t i = 0"
  using load64_0 [of "\<lambda>_. 0" "t + 8 * i"] by (simp add: entry_get_def)

lemma zero_tbl: "tbl (\<lambda>_. 0) off root p = (if p = [] then Some root else None)"
  by (induction p) (simp_all add: tbl.simps(2) split: option.split)

lemma sample_window: "window_ok sample_hhdm sample_pmm"
  by (simp add: window_ok_def sample_hhdm_def)

lemma sample_pmm_mem [simp]: "kmem sample_pmm = (\<lambda>_. 0)" "cr3 sample_pmm = 0"
  using pmm_more_fields [OF sample_pmm_fields(4)] by simp_all

lemma sample_tree: "pt_tree sample_hhdm sample_pmm"
proof -
  have "0 \<in> taken sample_pmm" by (simp add: taken_def sample_pmm_allocatable)
  then show ?thesis
    unfolding pt_tree_def by (auto simp: zero_tbl pt_root_def in_frame_def split: if_splits intro!: bexI [of _ 0])
qed

lemma sample_paging_ok: "paging_ok sample_hhdm sample_paging"
  unfolding sample_paging_def by (intro paging_init_ok sample_pmm_ok sample_tree sample_window)

lemma sample_paging_taken: "taken sample_paging = - {2..<2048}"
  unfolding sample_paging_def paging_init_ok(2) [OF sample_pmm_ok sample_tree sample_window]
  by (auto simp: taken_def sample_pmm_allocatable)

definition sample_heap :: heap where
  "sample_heap = zero_state\<lparr>heap_start := HEAP_START, heap_end := HEAP_START + HEAP_INITIAL_SIZE,
     heap_total := HEAP_INITIAL_SIZE, heap_used := 0, block_count := 1, first_block := HEAP_START,
     kmem := set_prev HEAP_START 0 (set_next HEAP_START 0 (set_used HEAP_START False
       (set_size HEAP_START (HEAP_INITIAL_SIZE - HEADER) (\<lambda>_. 0))))\<rparr>"

lemma sample_heap_inv: "heap_inv [(HEAP_BYTES - 32, False)] sample_heap"
proof -
  have "HEAP_INITIAL_SIZE - HEADER = of_nat (HEAP_BYTES - 32)"
    by (simp add: HEAP_INITIAL_SIZE_def HEADER_def HEAP_BYTES_def)
  then show ?thesis
    by (simp add: sample_heap_def heap_inv_def addr_HEAP_BASE) (simp add: HEAP_BYTES_def)
qed


text \<open>A root table without present entries is a tree of its own.\<close>

lemma empty_tree:
  assumes z: "\<And>i. i < 512 \<Longrightarrow> entry_get (kmem s) (pt_root off s) i = 0"
    and f: "in_frame off f (pt_root off s)" "f \<in> taken s"
  shows "pt_tree off s" and "table_frame off s g \<Longrightarrow> g = f"
    and "translation off s va = None"
proof -
  have t: "table_of off s p = (if p = [] then Some (pt_root off s) else None)" if "tree_path p" for p
    using that
  proof (induction p)
    case (Cons i p)
    then show ?case using z [of i]
      by (cases "p = []") (simp_all add: tree_path_Cons tbl.simps(2) is_present_bit)
  qed simp
  show "pt_tree off s" unfolding pt_tree_def using t f by (auto split: if_splits)
  show "table_frame off s g \<Longrightarrow> g = f" using t f(1) by (auto simp: table_frame_def in_frame_def split: if_splits)
  show "translation off s va = None" using t [OF tree_path_pt(1), of va] by (simp add: leaf_def) (simp add: pt_path_def)
qed

end
