(* ===== verification/Pmm_Properties.thy ===== *)
theory Pmm_Properties
  imports Sample_States
begin

text \<open>
  The properties of the physical page allocator (pmm.c): what \<open>pmm_init\<close> establishes, which
  frames it can ever hand out, first fit and exhaustion of \<open>pmm_alloc_pages\<close>, the round trip
  with \<open>pmm_free_pages\<close>, and the effect of a double free. Each is followed by an instance on
  the sample memory map.
\<close>

text \<open>C1. Started on a well-formed memory map, pmm_init leaves a consistent bitmap: the used-page
  counter equals the number of set bits, and the frames marked used are those of the reserved
  entries and of the bitmap itself, cut off at the highest page.\<close>

theorem pmm_init_establishes_invariant:
  assumes "memmap_ok es" and "used_pages s = 0"
  shows "pmm_wf (pmm_init (Some es) (Some off) s)
    \<and> used_frames (pmm_init (Some es) (Some off) s)
        = (reserved_frames es \<union> bitmap_frames es) \<inter> {..<unat (map_pages es)}"
  using pmm_init_wf [OF assms] pmm_init_used_frames by blast

theorem pmm_init_establishes_invariant_witness:
  "pmm_wf (pmm_init (Some sample_map) (Some sample_hhdm) zero_state)
    \<and> used_frames (pmm_init (Some sample_map) (Some sample_hhdm) zero_state) = {0, 1}"
proof -
  have "({0} \<union> {1}) \<inter> {..<2048} = {0, 1 :: nat}" by auto
  then show ?thesis
    using pmm_init_establishes_invariant [OF sample_map_ok zero_state_fields(1), of sample_hhdm]
    by (simp only: sample_map_reserved sample_map_bitmap sample_map_pages) simp
qed

text \<open>C2. However many single pages are allocated after boot, the addresses returned are page
  aligned and pairwise distinct (the null results for exhaustion apart), and every frame lies
  entirely inside a usable entry of the memory map, outside the bitmap and every reserved entry.\<close>

theorem boot_frames_are_safe:
  assumes ok: "memmap_ok es" and fresh: "used_pages s = 0" "map_largest_base es + off \<noteq> 0"
    and run: "alloc_many pmm_alloc_page n (pmm_init (Some es) (Some off) s) = (as, t)"
  shows "length as = n \<and> distinct (filter (\<lambda>a. a \<noteq> 0) as)
    \<and> (\<forall>a \<in> set as. a \<noteq> 0 \<longrightarrow>
         (\<exists>k e. unat a = k * 4096 \<and> k \<notin> bitmap_frames es \<and> k \<notin> reserved_frames es
            \<and> e \<in> set es \<and> me_usable e \<and> unat (me_base e) \<le> unat a
            \<and> unat a + 4096 \<le> unat (me_base e) + unat (me_length e)))"
proof -
  let ?s = "pmm_init (Some es) (Some off) s"
  have pok: "pmm_ok ?s" by (rule pmm_init_ok [OF ok fresh])
  have many: "length as = n \<and> distinct (filter (\<lambda>a. a \<noteq> 0) as)"
    "\<And>a. a \<in> set as \<Longrightarrow> unat a mod 4096 = 0 \<and> (a \<noteq> 0 \<longrightarrow> unat a div 4096 \<notin> taken ?s)"
    using avail.alloc_many_frames [OF pok run] by blast+
  have "\<exists>k e. unat a = k * 4096 \<and> k \<notin> bitmap_frames es \<and> k \<notin> reserved_frames es
            \<and> e \<in> set es \<and> me_usable e \<and> unat (me_base e) \<le> unat a
            \<and> unat a + 4096 \<le> unat (me_base e) + unat (me_length e)"
    if "a \<in> set as" "a \<noteq> 0" for a
  proof -
    define k where "k = unat a div 4096"
    have k: "unat a = k * 4096" using many(2) [OF that(1)] by (simp add: k_def mod_eq_0_iff_dvd)
    have "allocatable ?s k" using many(2) [OF that(1)] that(2) by (simp add: k_def taken_def)
    from pmm_init_allocatable [OF ok this] k show ?thesis by metis
  qed
  with many(1) show ?thesis by blast
qed

theorem boot_frames_are_safe_witness:
  "\<exists>as t. alloc_many pmm_alloc_page 3 (pmm_init (Some sample_map) (Some sample_hhdm) zero_state) = (as, t)
     \<and> length as = 3 \<and> distinct (filter (\<lambda>a. a \<noteq> 0) as)"
proof -
  obtain as t where run: "alloc_many pmm_alloc_page 3 (pmm_init (Some sample_map) (Some sample_hhdm) zero_state)
      = (as, t)" by fastforce
  have "map_largest_base sample_map + sample_hhdm \<noteq> 0" by (simp add: sample_map_scan sample_hhdm_def)
  from boot_frames_are_safe [OF sample_map_ok zero_state_fields(1) this run] run show ?thesis by blast
qed

text \<open>C3. A successful allocation of n pages returns the page-aligned address of the first run of n
  free usable frames (first fit: no lower run of that length is free), marks exactly that run used
  and keeps the allocator consistent.\<close>

theorem alloc_pages_first_fit:
  assumes "pmm_wf s" and "0 < unat n" and "fst (pmm_alloc_pages n s) \<noteq> 0"
  shows "\<exists>p. unat (fst (pmm_alloc_pages n s)) = p * 4096 \<and> free_run s p (unat n)
    \<and> (\<forall>q < p. \<not> free_run s q (unat n))
    \<and> pmm_wf (snd (pmm_alloc_pages n s))
    \<and> used_frames (snd (pmm_alloc_pages n s)) = used_frames s \<union> {p..<p + unat n}"
  using alloc_pages_success [OF assms(3,1,2)] by metis

lemma sample_free_run: "free_run sample_pmm p n \<longleftrightarrow> n = 0 \<or> 2 \<le> p \<and> p + n \<le> 2048"
proof (cases "n = 0")
  case False
  show ?thesis
  proof
    assume r: "free_run sample_pmm p n"
    then have "allocatable sample_pmm (p + 0)" "allocatable sample_pmm (p + (n - 1))"
      using False by (auto simp: free_run_def)
    with False show "n = 0 \<or> 2 \<le> p \<and> p + n \<le> 2048"
      unfolding sample_pmm_allocatable by linarith
  qed (auto simp: free_run_def sample_pmm_allocatable)
qed (auto simp: free_run_def)

lemma sample_alloc_granted: "0 < unat n \<Longrightarrow> unat n \<le> 2046 \<Longrightarrow> fst (pmm_alloc_pages n sample_pmm) \<noteq> 0"
proof
  assume n: "0 < unat n" "unat n \<le> 2046" and z: "fst (pmm_alloc_pages n sample_pmm) = 0"
  have "bitmap sample_pmm \<noteq> 0" by (simp add: sample_hhdm_def)
  from alloc_pages_fail [OF z sample_pmm_wf n(1) this] have "\<not> free_run sample_pmm 2 (unat n)" by simp
  with n show False by (simp add: sample_free_run)
qed

theorem alloc_pages_first_fit_witness:
  "unat (fst (pmm_alloc_pages 3 sample_pmm)) = 2 * 4096
     \<and> used_frames (snd (pmm_alloc_pages 3 sample_pmm)) = {0, 1} \<union> {2..<5}"
proof -
  have "fst (pmm_alloc_pages 3 sample_pmm) \<noteq> 0" by (rule sample_alloc_granted) simp_all
  from alloc_pages_first_fit [OF sample_pmm_wf _ this] obtain p where
    p: "unat (fst (pmm_alloc_pages 3 sample_pmm)) = p * 4096" "free_run sample_pmm p 3"
      "\<forall>q < p. \<not> free_run sample_pmm q 3"
      "used_frames (snd (pmm_alloc_pages 3 sample_pmm)) = used_frames sample_pmm \<union> {p..<p + 3}"
    by auto
  have "\<not> 2 < p" using p(3) by (auto simp: sample_free_run)
  with p(2) have "p = 2" by (simp add: sample_free_run)
  with p show ?thesis by (simp add: sample_pmm_used)
qed

text \<open>An allocation is refused (null address) exactly when no run of n free usable frames
  exists, and then it changes nothing but the log, which gains the out-of-memory line.\<close>

theorem alloc_pages_refused_iff:
  assumes "pmm_wf s" and "0 < unat n" and "bitmap s \<noteq> 0" and "0 < unat (total_pages s)"
  shows "(fst (pmm_alloc_pages n s) = 0 \<longleftrightarrow> (\<forall>p. \<not> free_run s p (unat n)))
    \<and> (fst (pmm_alloc_pages n s) = 0 \<longrightarrow>
         snd (pmm_alloc_pages n s) = klog ''[PMM] Out of memory!\<newline>'' s)"
proof (cases "fst (pmm_alloc_pages n s) = 0")
  case True
  with alloc_pages_fail [OF True assms] show ?thesis by simp
next
  case False
  then show ?thesis by (metis alloc_pages_success assms(1,2))
qed

theorem alloc_pages_refused_iff_witness:
  "fst (pmm_alloc_pages 2047 sample_pmm) = 0
     \<and> snd (pmm_alloc_pages 2047 sample_pmm) = klog ''[PMM] Out of memory!\<newline>'' sample_pmm
     \<and> fst (pmm_alloc_pages 2046 sample_pmm) \<noteq> 0"
proof -
  have "bitmap sample_pmm \<noteq> 0" by (simp add: sample_hhdm_def)
  note r = alloc_pages_refused_iff [OF sample_pmm_wf _ this]
  have "\<forall>p. \<not> free_run sample_pmm p 2047" "free_run sample_pmm 2 2046" by (auto simp: sample_free_run)
  with r [of 2047] r [of 2046] show ?thesis by auto
qed

text \<open>C4. Freeing the n pages an allocation returned restores the set of used frames, and the
  counters stay consistent.\<close>

theorem alloc_then_free_restores:
  assumes "pmm_wf s" and "0 < unat n" and "pmm_alloc_pages n s = (a, t)" and "a \<noteq> 0"
  shows "pmm_wf (pmm_free_pages a n t) \<and> used_frames (pmm_free_pages a n t) = used_frames s"
  using alloc_free_restores [of n s] assms by auto

theorem alloc_then_free_restores_witness:
  "\<exists>a t. pmm_alloc_pages 4 sample_pmm = (a, t) \<and> a \<noteq> 0 \<and> used_frames t \<noteq> used_frames sample_pmm
     \<and> pmm_wf (pmm_free_pages a 4 t) \<and> used_frames (pmm_free_pages a 4 t) = {0, 1}"
proof -
  obtain a t where at: "pmm_alloc_pages 4 sample_pmm = (a, t)" by fastforce
  have a: "a \<noteq> 0" using sample_alloc_granted [of 4] at by simp
  obtain p where "used_frames t = used_frames sample_pmm \<union> {p..<p + 4}" "free_run sample_pmm p 4"
    using alloc_pages_success [of 4 sample_pmm] sample_pmm_wf a at by auto
  then have "p \<in> used_frames t" "p \<notin> used_frames sample_pmm"
    by (auto simp: sample_free_run sample_pmm_used)
  then have ne: "used_frames t \<noteq> used_frames sample_pmm" by blast
  have "pmm_wf (pmm_free_pages a 4 t)" "used_frames (pmm_free_pages a 4 t) = {0, 1}"
    using alloc_then_free_restores [OF sample_pmm_wf _ at a] by (simp_all add: sample_pmm_used)
  with at a ne show ?thesis by blast
qed

text \<open>Freeing a page that is already free is not detected: the bitmap is unchanged while the
  used-page counter drops by one, so the counter no longer matches the bitmap.\<close>

theorem double_free_breaks_count:
  assumes "pmm_wf s" and "bitmap s \<noteq> 0" and "unat a = p * 4096"
    and "p < unat (total_pages s)" and "\<not> page_bit s p"
  shows "used_frames (pmm_free_page a s) = used_frames s
    \<and> used_pages (pmm_free_page a s) = used_pages s - 1 \<and> \<not> pmm_wf (pmm_free_page a s)"
  using double_free_miscounts [OF assms] by blast

theorem double_free_breaks_count_witness:
  "used_frames (pmm_free_page 0x5000 sample_pmm) = {0, 1} \<and> \<not> pmm_wf (pmm_free_page 0x5000 sample_pmm)"
proof -
  have "5 \<notin> used_frames sample_pmm" by (simp add: sample_pmm_used)
  then have "\<not> page_bit sample_pmm 5" by (simp add: used_frames_def)
  moreover have "bitmap sample_pmm \<noteq> 0" by (simp add: sample_hhdm_def)
  ultimately show ?thesis
    using double_free_breaks_count [OF sample_pmm_wf, of "0x5000" 5] by (simp add: sample_pmm_used)
qed

end
