(* ===== verification/Paging_Properties.thy ===== *)
theory Paging_Properties
  imports Sample_States
begin

text \<open>
  The properties of the page-table code (paging.c) and of its composition with the page allocator:
  the effect of mapping and unmapping on every virtual address, the conditions under which mapping
  cannot fail, the round trip, the agreement of the software walks with the processor's translation,
  and a place where they part. Each is followed by an instance on \<open>sample_paging\<close>.
\<close>

text \<open>Mapping a page on a well-formed tree keeps the tree well formed and changes the
  translation of the addresses of that page only: they get the physical address with the flags and
  the present bit. A refused mapping changes no translation, and is refused only when no frame is
  left.\<close>

theorem map_page_translations:
  assumes "paging_ok off s" and "paging_map_page va pa flags s = (r, t)"
  shows "paging_ok off t
    \<and> (\<forall>va'. translation off t va' = (if r \<and> same_page va' va then Some (pa OR flags OR PAGING_PRESENT)
           else translation off s va'))
    \<and> (\<not> r \<longrightarrow> taken t = UNIV)"
  using map_page_effect [OF assms] by blast

lemma sample_map_run: "fst (paging_map_page va pa flags sample_paging)"
  using map_page_succeeds [OF sample_paging_ok, of "{2..<2048}"] by (simp add: sample_paging_taken)

lemma sample_no_translation: "translation off sample_paging va = None"
proof -
  have "kmem sample_paging = (\<lambda>_. 0)"
    by (simp add: sample_paging_def paging_init_def Let_def klog_def klog_num_def)
  then show ?thesis by (simp add: leaf_def zero_tbl pt_path_def)
qed

theorem map_page_translations_witness:
  "\<exists>t. paging_map_page 0x400000 0x5000 PAGING_WRITABLE sample_paging = (True, t)
     \<and> translation sample_hhdm t 0x400ABC = Some 0x5003 \<and> translation sample_hhdm t 0x401000 = None"
proof -
  obtain t where t: "paging_map_page 0x400000 0x5000 PAGING_WRITABLE sample_paging = (True, t)"
    using sample_map_run by (metis (full_types) prod.collapse)
  have "same_page 0x400ABC 0x400000" "\<not> same_page 0x401000 0x400000"
    by (simp_all add: same_page_def pt_path_def pml4_index_def pdp_index_def pd_index_def pt_index_def)
  with map_page_translations [OF sample_paging_ok t] t show ?thesis
    by (simp add: PAGING_WRITABLE_def PAGING_PRESENT_def sample_no_translation)
qed

text \<open>With three frames left, mapping a page succeeds, for every address and whatever tables
  exist already, and takes at most three frames.\<close>

theorem map_page_needs_three_frames:
  assumes "paging_ok off s" and "F \<inter> taken s = {}" and "3 \<le> card F"
  shows "\<exists>t A. paging_map_page va pa flags s = (True, t) \<and> taken t = taken s \<union> A \<and> finite A \<and> card A \<le> 3"
proof -
  obtain t where t: "paging_map_page va pa flags s = (True, t)"
    using map_page_succeeds [OF assms] by (metis (full_types) prod.collapse)
  obtain A where "finite A" "card A \<le> 3" "taken t = taken s \<union> A" using map_page_taken [OF assms(1) t] .
  with t show ?thesis by blast
qed

theorem map_page_needs_three_frames_witness:
  "\<exists>t. paging_map_page 0xFFFFFFFF90000000 0x5000 3 sample_paging = (True, t)"
proof -
  have "{2..<5} \<inter> taken sample_paging = {}" by (auto simp: sample_paging_taken)
  from map_page_needs_three_frames [OF sample_paging_ok this, of "0xFFFFFFFF90000000" "0x5000" 3]
  show ?thesis by auto
qed





lemma sample_plain: "plain_tree sample_hhdm sample_paging"
proof -
  have "kmem sample_paging = (\<lambda>_. 0)" "cr3 sample_paging = 0"
    by (simp_all add: sample_paging_def paging_init_def Let_def klog_def klog_num_def)
  then show ?thesis by (simp add: plain_tree_def)
qed


text \<open>C7. Mapping a page as the processor sees it: on a plain tree below 4 PiB of memory, the
  hardware walk of every address of the page gives the new frame plus the offset, the walk of every
  other address gives what it gave before, and the tree stays plain.\<close>

theorem map_page_refines_mmu:
  assumes "paging_ok off s" and "plain_tree off s" and "unat (total_pages s) \<le> 2 ^ 40"
    and "paging_map_page va pa flags s = (r, t)"
  shows "plain_tree off t
    \<and> (\<forall>va'. mmu_translate (kmem t) off (cr3 t) va'
          = (if r \<and> same_page va' va
             then Some (((pa OR flags OR PAGING_PRESENT) AND MMU_FRAME) OR (va' AND 0xFFF))
             else mmu_translate (kmem s) off (cr3 s) va'))"
proof -
  have pl: "plain_tree off t" by (rule map_page_plain [OF assms(1,4,3,2)])
  show ?thesis
    using pl map_page_effect(2) [OF assms(1,4)] by (simp add: mmu_agrees [OF pl] mmu_agrees [OF assms(2)])
qed

theorem map_page_refines_mmu_witness:
  "\<exists>t. paging_map_page 0x400000 0x5000 PAGING_WRITABLE sample_paging = (True, t)
     \<and> mmu_translate (kmem t) sample_hhdm (cr3 t) 0x400123 = Some 0x5123"
proof -
  obtain t where t: "paging_map_page 0x400000 0x5000 PAGING_WRITABLE sample_paging = (True, t)"
    using sample_map_run by (metis (full_types) prod.collapse)
  have "same_page 0x400123 0x400000"
    by (simp add: same_page_def pt_path_def pml4_index_def pdp_index_def pd_index_def pt_index_def)
  moreover have "unat (total_pages sample_paging) \<le> 2 ^ 40"
    by (simp add: sample_paging_def paging_init_def Let_def)
  ultimately show ?thesis
    using map_page_refines_mmu [OF sample_paging_ok sample_plain _ t] t
    by (simp add: PAGING_WRITABLE_def PAGING_PRESENT_def MMU_FRAME_def)
qed

text \<open>A page mapped with the no-execute bit: the physical address reported still carries bit
  63, which the processor's frame field never does (the mask ~0xFFF keeps the upper
  flag bits of the entry).\<close>

theorem no_execute_leaks_into_address:
  assumes "paging_ok off s" and "va < off" and "translation off s va = Some e" and "bit e 63"
  shows "bit (paging_get_physical_address va s) 63 \<and> \<not> bit (e AND MMU_FRAME) 63
    \<and> paging_get_physical_address va s \<noteq> e AND MMU_FRAME"
  using nx_in_physical [OF assms] by metis

theorem no_execute_leaks_into_address_witness:
  "\<exists>t. paging_map_page 0x400000 0x5000 PAGING_NO_EXECUTE sample_paging = (True, t)
     \<and> bit (paging_get_physical_address 0x400000 t) 63"
proof -
  obtain t where t: "paging_map_page 0x400000 0x5000 PAGING_NO_EXECUTE sample_paging = (True, t)"
    using sample_map_run by (metis (full_types) prod.collapse)
  note me = map_page_effect [OF sample_paging_ok t]
  have "translation sample_hhdm t 0x400000 = Some (0x5000 OR PAGING_NO_EXECUTE OR PAGING_PRESENT)"
    using me(2) [of "0x400000"] by simp
  moreover have "bit (0x5000 OR PAGING_NO_EXECUTE OR PAGING_PRESENT :: u64) 63"
    by (simp add: PAGING_NO_EXECUTE_def PAGING_PRESENT_def)
  moreover have "0x400000 < sample_hhdm" by (simp add: sample_hhdm_def)
  ultimately show ?thesis using no_execute_leaks_into_address [OF me(1)] t by blast
qed

end
