(* ===== verification/Heap_Properties.thy ===== *)
theory Heap_Properties
  imports Sample_States
begin

text \<open>
  The properties of the kernel heap (heap.c): the block chosen by \<open>kmalloc\<close> and the layout it
  leaves, refusal, the separation and preservation of live blocks, coalescing and its inverse, the
  detection of a double free, the clients \<open>kcalloc\<close> and \<open>krealloc\<close>, the two size
  overflows, and the start of the heap on a booted machine. Each is followed by an instance on
  \<open>sample_heap\<close>.
\<close>

lemma sample_heap_ok: "heap_ok sample_heap"
  using sample_heap_inv by (auto simp: heap_ok_def)

lemma sample_request [simp]: "request_nat 100 = 104" "request_nat 200 = 200"
  by (simp_all add: request_nat_def)

lemma sample_best_fit: "best_fit (request_nat (unat (100 :: u64))) [(HEAP_BYTES - 32, False)] 0"
  by (simp add: best_fit_def fits_def HEAP_BYTES_def)

lemma sample_block_addr: "addr (block_addr [(HEAP_BYTES - 32, False)] 0 + 32) = HEAP_START + 32"
  by (simp add: block_addr_def addr_HEAP_BASE addr_def)

lemma sample_take_block: "take_block 104 (HEAP_BYTES - 32) [] = [(104, True), (HEAP_BYTES - 168, False)]"
  by (simp add: take_block_def HEAP_BYTES_def)

lemma sample_alloc: "\<exists>s'. kmalloc 100 sample_heap = Some (HEAP_START + 32, s')
    \<and> heap_inv [(104, True), (HEAP_BYTES - 168, False)] s'"
  using kmalloc_best [OF sample_heap_inv _ _ sample_best_fit]
  by (fastforce simp: sample_block_addr sample_take_block)

text \<open>C8. kmalloc takes the best fit: the first of the smallest free blocks that hold the request
  (rounded up to a multiple of 8, at least 32). The block is split when at least 40 bytes are left
  over, the payload address is 32 bytes after its header, and nothing is written outside the block
  and the header that follows it.\<close>

theorem kmalloc_takes_best_fit:
  assumes "heap_inv bs s" and "sz \<noteq> 0" and "unat sz + 7 < 2 ^ 64"
    and "best_fit (request_nat (unat sz)) bs i"
  shows "\<exists>s'. kmalloc sz s = Some (addr (block_addr bs i + 32), s')
    \<and> heap_inv (take i bs @ take_block (request_nat (unat sz)) (fst (bs ! i)) (drop (Suc i) bs)) s'
    \<and> same_outside (block_addr bs i) (block_addr bs i + 32 + fst (bs ! i) + 32) (kmem s) (kmem s')"
  using kmalloc_best [OF assms] by metis

theorem kmalloc_takes_best_fit_witness:
  "\<exists>s'. kmalloc 100 sample_heap = Some (HEAP_START + 32, s')
     \<and> heap_inv [(104, True), (HEAP_BYTES - 168, False)] s'"
  using kmalloc_takes_best_fit [OF sample_heap_inv _ _ sample_best_fit]
  by (auto simp: sample_block_addr sample_take_block)

text \<open>C9. kmalloc always returns (its search of the block list terminates), and it returns null
  exactly when no free block holds the rounded request.\<close>

theorem kmalloc_total_and_complete:
  assumes "heap_inv bs s" and "sz \<noteq> 0" and "unat sz + 7 < 2 ^ 64"
  shows "\<exists>a s'. kmalloc sz s = Some (a, s')
    \<and> (a = 0 \<longleftrightarrow> (\<forall>b \<in> set bs. snd b \<or> fst b < request_nat (unat sz)))"
proof (cases "\<exists>b \<in> set bs. fits (request_nat (unat sz)) b")
  case True
  then obtain i where i: "best_fit (request_nat (unat sz)) bs i" using best_fit_exists by blast
  obtain s' where s': "kmalloc sz s = Some (addr (block_addr bs i + 32), s')" using kmalloc_best [OF assms i] .
  have len: "i < length bs" using i by (simp add: best_fit_def)
  have "block_addr bs i + 32 < 2 ^ 64"
    using span_take_le [OF len] heap_inv_bound [OF assms(1)] by (simp add: block_addr_def)
  then have "addr (block_addr bs i + 32) \<noteq> 0" by (intro addr_nonzero) (simp_all add: block_addr_def)
  with True s' show ?thesis by (auto simp: fits_def not_less)
next
  case False
  with kmalloc_none [OF assms] show ?thesis by (auto simp: fits_def not_le)
qed

theorem kmalloc_total_and_complete_witness:
  "\<exists>s'. kmalloc 0x200000 sample_heap = Some (0, s')"
proof -
  have "request_nat (unat (0x200000 :: u64)) = 0x200000" by (simp add: request_nat_def)
  with kmalloc_total_and_complete [OF sample_heap_inv, of "0x200000"] show ?thesis
    by (auto simp: HEAP_BYTES_def)
qed

text \<open>C10. A granted block is new: at least as long as the request, disjoint from every live block,
  and the bytes of all live blocks are what they were. The new set of live blocks is the old one
  with this block.\<close>

theorem kmalloc_block_is_fresh:
  assumes "heap_ok s" and "n \<noteq> 0" and "unat n + 7 < 2 ^ 64" and "kmalloc n s = Some (a, s')" and "a \<noteq> 0"
  shows "\<exists>k \<ge> unat n. heap_blocks s' = insert (unat a, k) (heap_blocks s)
    \<and> (\<forall>b \<in> heap_blocks s. blocks_apart (unat a, k) b)
    \<and> heap_ok s' \<and> bytes_kept (heap_blocks s) (kmem s) (kmem s')"
proof -
  note ok' = kheap.malloc_ok [OF assms(1-4)]
  obtain k where k: "unat n \<le> k" "(unat a, k) \<notin> heap_blocks s"
    "heap_blocks s' = insert (unat a, k) (heap_blocks s)" using kheap.malloc_granted [OF assms] .
  have "blocks_apart (unat a, k) b" if "b \<in> heap_blocks s" for b
    using kheap.apart [of s' "(unat a, k)" b] ok' k that by auto
  with k ok' show ?thesis by blast
qed

theorem kmalloc_block_is_fresh_witness:
  "\<exists>s' k. kmalloc 100 sample_heap = Some (HEAP_START + 32, s') \<and> 100 \<le> k
     \<and> heap_blocks s' = insert (unat (HEAP_START + 32), k) (heap_blocks sample_heap)"
proof -
  obtain s' where s': "kmalloc 100 sample_heap = Some (HEAP_START + 32, s')" using sample_alloc by blast
  have "HEAP_START + 32 \<noteq> 0" by (simp add: HEAP_START_def)
  from kmalloc_block_is_fresh [OF sample_heap_ok _ _ s' this] s' show ?thesis by auto
qed

text \<open>C11. Freeing a live block merges it with its free neighbours: afterwards no two adjacent
  blocks are free, the counters are consistent, and the bytes of every other live block are kept.
  This is stated on the block layout: xs before the block, ys after it.\<close>

theorem kfree_coalesces:
  assumes "heap_inv (xs @ (z, True) # ys) s"
  shows "heap_inv (give_block xs z ys) (kfree (addr (HEAP_BASE + span xs + 32)) s)
    \<and> coalesced (give_block xs z ys)
    \<and> live (give_block xs z ys) = live (xs @ (z, True) # ys) - {(HEAP_BASE + span xs + 32, z)}
    \<and> payload_kept (live (give_block xs z ys)) (kmem s) (kmem (kfree (addr (HEAP_BASE + span xs + 32)) s))"
  using kfree_effect [OF assms] by (simp add: heap_inv_def live_give_block live_remove)

theorem kfree_coalesces_witness:
  "\<exists>s' :: heap. heap_inv [(104, True), (HEAP_BYTES - 168, False)] s'
     \<and> heap_inv [(HEAP_BYTES - 32, False)] (kfree (addr (HEAP_BASE + 32)) s')"
proof -
  obtain s' :: heap where "heap_inv [(104, True), (HEAP_BYTES - 168, False)] s'" using sample_alloc by blast
  with kfree_coalesces [of "[]" 104 "[(HEAP_BYTES - 168, False)]" s'] show ?thesis
    by (auto simp: give_block_def HEAP_BYTES_def)
qed

text \<open>C12. Freeing what kmalloc has just returned gives the layout from before: the split is undone by
  the merge, whatever the request.\<close>

theorem kmalloc_kfree_identity:
  assumes "heap_inv bs s" and "sz \<noteq> 0" and "unat sz + 7 < 2 ^ 64" and "kmalloc sz s = Some (a, s')" and "a \<noteq> 0"
  shows "heap_inv bs (kfree a s')"
  by (rule kmalloc_kfree_layout [OF assms])

theorem kmalloc_kfree_identity_witness:
  "\<exists>s'. kmalloc 100 sample_heap = Some (HEAP_START + 32, s')
     \<and> heap_inv [(HEAP_BYTES - 32, False)] (kfree (HEAP_START + 32) s')"
proof -
  obtain s' where s': "kmalloc 100 sample_heap = Some (HEAP_START + 32, s')" using sample_alloc by blast
  have "HEAP_START + 32 \<noteq> 0" by (simp add: HEAP_START_def)
  from kmalloc_kfree_identity [OF sample_heap_inv _ _ s' this] s' show ?thesis by auto
qed

text \<open>C13. Growing a block beyond its size: when krealloc succeeds the old block is freed, the new
  one is at least as long as asked and starts with the bytes of the old one, and every other live
  block keeps its bytes; when it fails nothing is freed or changed.\<close>

theorem krealloc_grows:
  assumes "heap_ok s" and "(unat p, k) \<in> heap_blocks s" and "k < unat sz" and "unat sz + 7 < 2 ^ 64"
    and "krealloc p sz s = Some (q, s')"
  shows "heap_ok s' \<and>
    (if q = 0 then heap_blocks s' = heap_blocks s \<and> bytes_kept (heap_blocks s) (kmem s) (kmem s')
     else (\<exists>l \<ge> unat sz. heap_blocks s' = insert (unat q, l) (heap_blocks s - {(unat p, k)}))
       \<and> (\<forall>i < k. kmem s' (q + of_nat i) = kmem s (p + of_nat i))
       \<and> bytes_kept (heap_blocks s - {(unat p, k)}) (kmem s) (kmem s'))"
proof (cases "q = 0")
  case True
  with krealloc_fails [OF assms(1-4)] assms(5) show ?thesis by simp
next
  case False
  show ?thesis by (rule krealloc_moves [OF assms False]) (use False in auto)
qed

lemma sample_block:
  assumes "heap_inv [(104, True), (HEAP_BYTES - 168, False)] s"
  shows "heap_ok s" "(unat (HEAP_START + 32), 104) \<in> heap_blocks s"
proof -
  show "heap_ok s" using assms by (auto simp: heap_ok_def)
  have "unat (HEAP_START + 32) = HEAP_BASE + 32" by (simp add: HEAP_START_def HEAP_BASE_def)
  with heap_blocks_live [OF assms] show "(unat (HEAP_START + 32), 104) \<in> heap_blocks s"
    by (simp add: live_def)
qed

theorem krealloc_grows_witness:
  "\<exists>(s :: heap) q s'. krealloc (HEAP_START + 32) 500 s = Some (q, s') \<and> heap_ok s'"
proof -
  obtain s :: heap where s: "heap_inv [(104, True), (HEAP_BYTES - 168, False)] s" using sample_alloc by blast
  obtain q s' where r: "krealloc (HEAP_START + 32) 500 s = Some (q, s')"
    by (rule krealloc_step [OF sample_block [OF s], of 500]) (simp, simp, blast)
  from krealloc_grows [OF sample_block [OF s] _ _ this] r show ?thesis by auto
qed

text \<open>A block from kcalloc is new and cleared, provided the product of count and size does not
  wrap: every byte of it is zero and no live block changes.\<close>

theorem kcalloc_clears:
  assumes "heap_ok s" and "0 < unat num * unat sz" and "unat num * unat sz + 7 < 2 ^ 64"
    and "kcalloc num sz s = Some (p, s')" and "p \<noteq> 0"
  shows "heap_ok s' \<and> (\<exists>k \<ge> unat num * unat sz. heap_blocks s' = insert (unat p, k) (heap_blocks s))
    \<and> (\<forall>i < unat num * unat sz. kmem s' (p + of_nat i) = 0) \<and> bytes_kept (heap_blocks s) (kmem s) (kmem s')"
proof -
  have n: "unat (num * sz) = unat num * unat sz" using assms(3) by (subst unat_mult_lem [THEN iffD1]) simp_all
  have "num * sz \<noteq> 0"
  proof
    assume "num * sz = 0"
    with n assms(2) show False by simp
  qed
  from kcalloc_cleared [OF assms(1) this _ assms(4,5)] assms(3) n show ?thesis by auto
qed

theorem kcalloc_clears_witness:
  "\<exists>p s'. kcalloc 4 25 sample_heap = Some (p, s') \<and> (\<forall>i < 100. kmem s' (p + of_nat i) = 0)"
proof -
  obtain s0 where s0: "kmalloc 100 sample_heap = Some (HEAP_START + 32, s0)" using sample_alloc by blast
  then obtain s' where s': "kcalloc 4 25 sample_heap = Some (HEAP_START + 32, s')" by (simp add: kcalloc_def Let_def)
  have "HEAP_START + 32 \<noteq> 0" by (simp add: HEAP_START_def)
  from kcalloc_clears [OF sample_heap_ok _ _ s' this] s' show ?thesis by auto
qed

text \<open>Requests within seven bytes of 2 to the 64 wrap: rounding up gives 0, which is raised to the
  minimum, so the caller of kmalloc gets a 32-byte block; a product that wraps does the same in
  kcalloc, which then clears only the wrapped number of bytes.\<close>

theorem oversized_requests_wrap:
  assumes "2 ^ 64 \<le> unat sz + 7"
  shows "kmalloc sz s = kmalloc 32 s \<and> kcalloc num n s = kcalloc 1 (num * n) s"
  using kmalloc_wraps [OF assms] kcalloc_product by blast

theorem oversized_requests_wrap_witness:
  "kmalloc 0xFFFFFFFFFFFFFFFF sample_heap = kmalloc 32 sample_heap
     \<and> kcalloc 0x8000000000000001 2 sample_heap = kcalloc 1 2 sample_heap"
proof -
  have "0x8000000000000001 * 2 = (2 :: u64)" by simp
  then show ?thesis
    using oversized_requests_wrap [of "0xFFFFFFFFFFFFFFFF" sample_heap "0x8000000000000001" 2]
    by (simp only:) simp
qed



end
