(* ===== verification/LibC_Properties.thy ===== *)
theory LibC_Properties
  imports LibC_String
begin

text \<open>
  The properties of the freestanding C library (libc/string): what each routine leaves in memory,
  stated against strings and number texts rather than loops.
\<close>

lemma pad_loop:
  fixes n :: u64 and m :: bytes
  assumes "l \<le> unat n"
  shows "for_up (of_nat l) n (\<lambda>i p. p(dest + i := 0)) m a
    = (if l \<le> unat (a - dest) \<and> a - dest < n then 0 else m a)"
proof -
  define I where "I k t \<longleftrightarrow> (\<forall>a. t a = (if l \<le> unat (a - dest) \<and> unat (a - dest) < k then 0 else m a))"
    for k and t :: bytes
  have l: "unat (of_nat l :: u64) = l" using assms unat_u64_bound [of n] by (simp add: wordnat)
  have "I (unat n) (for_up (of_nat l) n (\<lambda>i p. p(dest + i := 0)) m)"
  proof (rule for_up_rule [where I = I])
    show "of_nat l \<le> n" using assms by (simp add: word_le_nat_alt l)
    show "I (unat (of_nat l :: u64)) m" by (auto simp: I_def l)
    fix k t assume k: "unat (of_nat l :: u64) \<le> k" "k < unat n" and t: "I k t"
    have kb: "k < 2 ^ 64" using k(2) unat_u64_bound [of n] by linarith
    have "a = dest + of_nat k \<longleftrightarrow> unat (a - dest) = k" for a
      using addr_of_offset [of a dest k] unat_of_nat_u64 [OF kb] by auto
    with t k(1) show "I (Suc k) (t(dest + of_nat k := 0))"
      unfolding I_def l by (simp add: fun_upd_def less_Suc_eq)
  qed
  then show ?thesis by (simp add: I_def word_less_nat_alt)
qed

text \<open>strncpy writes exactly n bytes: the string cut at n and zeros up to n; no other byte
  changes. When the string has n bytes or more there is no terminator.\<close>

theorem strncpy_cuts_and_pads:
  assumes "cstr m src cs" and "dest \<noteq> 0" and "src \<noteq> 0"
    and "\<And>k j. k < unat n \<Longrightarrow> j \<le> length cs \<Longrightarrow> dest + of_nat k \<noteq> src + of_nat j"
  shows "\<exists>m'. strncpy dest src n m = (dest, m')
    \<and> peek m' dest (unat n) = take (unat n) cs @ replicate (unat n - length cs) 0
    \<and> (\<forall>a. \<not> a - dest < n \<longrightarrow> m' a = m a)"
proof -
  define l where "l = min (length cs) (unat n)"
  have l: "l \<le> unat n" "l \<le> length cs" "l < 2 ^ 64" using unat_u64_bound [of n] by (simp_all add: l_def)
  define m1 where "m1 = poke m dest (take l cs)"
  define m2 where "m2 = for_up (of_nat l) n (\<lambda>i p. p(dest + i := 0)) m1"
  have "strncpy_copy 0 n dest src m = (of_nat l, m1)"
    using strncpy_copy_cstr [of m src 0 cs n dest] assms by (simp add: l_def m1_def Let_def)
  then have eq: "strncpy dest src n m = (dest, m2)" using assms(2,3) by (simp add: strncpy_def m2_def)
  have m2: "m2 a = (if l \<le> unat (a - dest) \<and> a - dest < n then 0 else m1 a)" for a
    unfolding m2_def by (rule pad_loop [OF l(1)])
  have "m2 (dest + of_nat i) = (take (unat n) cs @ replicate (unat n - length cs) 0) ! i" if i: "i < unat n" for i
  proof -
    have ib: "i < 2 ^ 64" using i unat_u64_bound [of n] by linarith
    have "(of_nat i :: u64) < n" using i ib by (simp add: word_less_nat_alt wordnat)
    moreover have "m1 (dest + of_nat i) = cs ! i" if "i < l"
      using poke_nth [of i "take l cs" m dest] that l by (simp add: m1_def)
    ultimately show ?thesis
      using i unat_of_nat_u64 [OF ib] by (auto simp: m2 nth_append l_def not_less)
  qed
  then have "peek m2 dest (unat n) = take (unat n) cs @ replicate (unat n - length cs) 0"
    by (intro nth_equalityI) (auto simp: nth_peek)
  moreover have "m2 a = m a" if "\<not> a - dest < n" for a
  proof -
    have "of_nat l \<le> a - dest" using that l unat_u64_bound [of n] by (simp add: word_le_nat_alt word_less_nat_alt wordnat)
    with that l show ?thesis using poke_other [of "take l cs" a dest m] by (simp add: m2 m1_def)
  qed
  ultimately show ?thesis using eq by blast
qed

definition sample_text :: bytes where
  "sample_text = (\<lambda>a. if a = 100 then 72 else if a = 101 then 105 else 0)"

lemma sample_text_cstr: "cstr sample_text 100 [72, 105]"
  by (simp add: sample_text_def)

theorem strncpy_cuts_and_pads_witness:
  "\<exists>m'. strncpy 200 100 4 sample_text = (200, m') \<and> peek m' 200 4 = [72, 105, 0, 0]"
proof -
  have ne: "(200 :: u64) + of_nat k \<noteq> 100 + of_nat j" if "k < unat (4 :: u64)" "j \<le> length [72, 105 :: u8]" for k j
  proof -
    have "k \<in> {0, 1, 2, 3}" "j \<in> {0, 1, 2}" using that by auto
    then show ?thesis by auto
  qed
  have "(200 :: u64) \<noteq> 0" "(100 :: u64) \<noteq> 0" by simp_all
  from strncpy_cuts_and_pads [OF sample_text_cstr this, of 4] ne
  have "\<exists>m'. strncpy 200 100 4 sample_text = (200, m')
      \<and> peek m' 200 (unat (4 :: u64)) = take (unat (4 :: u64)) [72, 105]
          @ replicate (unat (4 :: u64) - length [72, 105 :: u8]) 0" by blast
  moreover have "unat (4 :: u64) = 4" by simp
  moreover have "replicate (4 - length [72, 105 :: u8]) (0 :: u8) = [0, 0]" by (simp add: numeral_eq_Suc)
  ultimately show ?thesis by (simp only:) simp
qed

text \<open>memmove copies correctly when the regions overlap: every destination byte gets the byte the
  source had before the call, every other byte is unchanged, and the destination is returned.\<close>

theorem memmove_handles_overlap:
  assumes "unat src + unat n \<le> 2 ^ 64" and "unat dest + unat n \<le> 2 ^ 64"
  shows "fst (memmove dest src n m) = dest
    \<and> peek (snd (memmove dest src n m)) dest (unat n) = peek m src (unat n)
    \<and> (\<forall>a. \<not> a - dest < n \<longrightarrow> snd (memmove dest src n m) a = m a)"
proof -
  note r = memmove_apply [OF assms, of m]
  have "(of_nat i :: u64) < n" if "i < unat n" for i
    using that unat_u64_bound [of n] by (simp add: word_less_nat_alt wordnat)
  then have "peek (snd (memmove dest src n m)) dest (unat n) = peek m src (unat n)"
    by (intro peek_cong) (simp add: r)
  then show ?thesis by (simp add: r)
qed

theorem memmove_handles_overlap_witness:
  "peek (snd (memmove 101 100 2 sample_text)) 101 2 = [72, 105]"
proof -
  have "peek sample_text 100 2 = [72, 105]" by (simp add: numeral_2_eq_2 sample_text_def)
  with memmove_handles_overlap [of 100 2 101 sample_text] show ?thesis by simp
qed

text \<open>strcat on two strings that do not overlap returns the destination holding their
  concatenation, whose length is what strlen then reports.\<close>

theorem strcat_concatenates:
  assumes "cstr m dest ds" and "cstr m src cs" and "length ds + length cs < 2 ^ 64 - 1"
    and "\<And>i j. i < length cs \<Longrightarrow> j \<le> length cs \<Longrightarrow> dest + of_nat (length ds) + of_nat i \<noteq> src + of_nat j"
  shows "\<exists>m'. strcat dest src m = Some (dest, m') \<and> cstr m' dest (ds @ cs)
    \<and> strlen dest m' = Some (of_nat (length ds + length cs))"
  using strcat_cstr [OF assms] strlen_cstr by fastforce

theorem strcat_concatenates_witness:
  "\<exists>m'. strcat 200 100 sample_text = Some (200, m') \<and> cstr m' 200 [72, 105]"
proof -
  have d: "cstr sample_text 200 []" by (simp add: sample_text_def)
  have ne: "(200 :: u64) + of_nat (length ([] :: u8 list)) + of_nat i \<noteq> 100 + of_nat j"
    if "i < length [72, 105 :: u8]" "j \<le> length [72, 105 :: u8]" for i j
  proof -
    have "i \<in> {0, 1}" "j \<in> {0, 1, 2}" using that by auto
    then show ?thesis by auto
  qed
  from strcat_concatenates [OF d sample_text_cstr _ ne] show ?thesis by auto
qed

text \<open>strncmp compares the first n bytes of two strings and returns zero exactly when these
  prefixes are equal; with equal arguments otherwise its value is the difference of the first bytes
  that differ, as strcmp's is.\<close>

theorem strncmp_zero_iff_prefixes_equal:
  assumes "cstr m a xs" and "cstr m b ys"
  shows "(strncmp a b n m = 0 \<longleftrightarrow> take (unat n) xs = take (unat n) ys)
    \<and> (strcmp a b m = Some 0 \<longleftrightarrow> xs = ys)
    \<and> (length xs \<le> unat n \<and> length ys \<le> unat n \<longrightarrow> strcmp a b m = Some (strncmp a b n m))"
proof -
  have nz: "0 \<notin> set xs" "0 \<notin> set ys" using cstr_no_nul assms by blast+
  then have "0 \<notin> set (take (unat n) xs)" "0 \<notin> set (take (unat n) ys)" by (meson in_set_takeD)+
  with nz show ?thesis
    by (simp add: strncmp_cstr [OF assms] strcmp_cstr [OF assms] str_order_0_iff)
qed

theorem strncmp_zero_iff_prefixes_equal_witness:
  "strncmp 100 101 1 sample_text \<noteq> 0"
proof -
  have "cstr sample_text 101 [105]" by (simp add: sample_text_def)
  from strncmp_zero_iff_prefixes_equal [OF sample_text_cstr this, of 1] show ?thesis by simp
qed

text \<open>C40. itoa writes a terminated digit string which, read back in the same base, gives the
  number, for every 64-bit number and every base from 2 to 16; the bytes after the terminator are
  untouched.\<close>

theorem itoa_parses_back:
  assumes "2 \<le> unat base" and "unat base \<le> 16"
    and "unat str + length (itoa_string (unat base) (unat val)) < 2 ^ 64 - 1"
  shows "\<exists>m' cs. itoa val str base m = Some (str, m') \<and> cstr m' str cs
    \<and> parse_number (unat base) cs = unat val
    \<and> (\<forall>a. of_nat (length cs) < a - str \<longrightarrow> m' a = m a)"
  using itoa_correct [OF assms, of m] parse_itoa_string [OF assms(1,2)] by blast

theorem itoa_parses_back_witness:
  "\<exists>m' cs. itoa 0xFFFFFFFFFFFFFFFF 100 10 sample_text = Some (100, m') \<and> cstr m' 100 cs
     \<and> parse_number 10 cs = 0xFFFFFFFFFFFFFFFF"
proof -
  have "length (itoa_string 10 0xFFFFFFFFFFFFFFFF) \<le> 20" by (rule itoa_string_length) simp_all
  with itoa_parses_back [of 10 100 "0xFFFFFFFFFFFFFFFF" sample_text] show ?thesis by auto
qed

end
