(* ===== verification/Console_Properties.thy ===== *)
theory Console_Properties
  imports Sample_States
begin

text \<open>
  The properties of the serial driver, of printf and of the framebuffer: what is transmitted, what
  text a format and its arguments produce, and which pixels a drawing routine may touch.
\<close>

text \<open>Once the port is initialised and the line keeps becoming ready, serial_puts returns and
  the bytes sent to the data port are the string with a carriage return before every newline; the
  kernel's log lines are transmitted so.\<close>

theorem serial_puts_transmits:
  assumes "responsive status" and "is_initialized d"
  shows "\<exists>d'. serial_puts status (str_bytes msg) d = Some d' \<and> is_initialized d'
    \<and> sent d' = sent d @ str_bytes (crlf msg)"
  using serial_puts_sent [OF assms, of "str_bytes msg"] by (simp add: crlf_bytes)

theorem serial_puts_transmits_witness:
  "\<exists>d'. serial_puts (\<lambda>_. 0x20) (str_bytes ''A\<newline>'') (serial_init \<lparr>is_initialized = False, outs = [], polls = 0\<rparr>)
      = Some d' \<and> sent d' = [1, 65, 13, 10]"
proof -
  let ?d = "serial_init \<lparr>is_initialized = False, outs = [], polls = 0\<rparr>"
  have "responsive (\<lambda>_. 0x20)" by (auto simp: responsive_def)
  moreover have d: "is_initialized ?d" "sent ?d = [1]"
    by (simp_all add: serial_init_def sent_def outb_def SERIAL_PORT_def)
  moreover have "str_bytes (crlf ''A\<newline>'') = [65, 13, 10]"
    by (simp add: str_bytes_def crlf_def of_char_def)
  ultimately show ?thesis using serial_puts_transmits [of "\<lambda>_. 0x20" ?d "''A\<newline>''"] by auto
qed

text \<open>C38. printf is its specification: a format and its arguments either have no rendering, and then
  the call has no defined result, or render to a count and a text, and then printf returns the
  count, puts the text through putchar, and (once initialised) copies it to the serial line with
  every newline sent as two carriage returns and a line feed.\<close>

theorem printf_implements_render:
  shows "printf fmt args s
      = map_option (\<lambda>(k, out). (k, putstring out (printf_auto_init s))) (render fmt args)
    \<and> (\<forall>k out. printf_initialized s \<and> render fmt args = Some (k, out) \<longrightarrow>
         (\<exists>s'. printf fmt args s = Some (k, s') \<and> serial_out s' = serial_out s @ concat (map tty out)))"
  using printf_render printf_serial by blast

theorem printf_implements_render_witness:
  "\<exists>s'. printf ''x=%x %s%%'' [IntArg 0x1F, StrArg (Some ''ok'')] (sample_heap\<lparr>printf_initialized := True\<rparr>)
     = Some (6, s') \<and> serial_out s' = ''x=1f ok%''"
proof -
  have "render ''x=%x %s%%'' [IntArg 0x1F, StrArg (Some ''ok'')] = Some (6, ''x=1f ok%'')"
    by code_simp
  moreover have "serial_out (sample_heap\<lparr>printf_initialized := True\<rparr>) = []" by (simp add: sample_heap_def)
  ultimately show ?thesis
    using printf_implements_render [of "''x=%x %s%%''" "[IntArg 0x1F, StrArg (Some ''ok'')]"
        "sample_heap\<lparr>printf_initialized := True\<rparr>"]
    by (fastforce simp: tty_def)
qed

text \<open>Signed conversions: %ld prints the two's complement value with its sign, but %d zero-extends
  the low 32 bits first and so never prints a sign. A format that ends in a bare percent sign is not
  defined: the loop steps over the terminator.\<close>

theorem printf_sign_and_trailing_percent:
  assumes "CHR ''%'' \<notin> set xs"
  shows "render ''%ld'' [IntArg v] = Some (1, int_text (sint v))
    \<and> render ''%d'' [IntArg v] = Some (1, nat_text (unat (ucast v :: u32)))
    \<and> printf (xs @ ''%'') args s = None"
  using render_ld render_d render_trailing_percent [OF assms] by (simp add: printf_render)

theorem printf_sign_and_trailing_percent_witness:
  "render ''%ld'' [IntArg (- 5)] = Some (1, ''-5'') \<and> render ''%d'' [IntArg (- 5)] = Some (1, ''4294967291'')
     \<and> printf ''100%'' [] sample_heap = None"
proof -
  have "sint (- 5 :: u64) = - 5" "unat (ucast (- 5 :: u64) :: u32) = 4294967291" by simp_all
  moreover have "int_text (- 5) = ''-5''" "nat_text 4294967291 = ''4294967291''"
    by (simp_all add: int_text_def nat_text_def itoa_string_def itoa_digits_def digits_le_step digit_char_def char_of_def bit_0)
  ultimately have "int_text (sint (- 5 :: u64)) = ''-5''"
    "nat_text (unat (ucast (- 5 :: u64) :: u32)) = ''4294967291''" by metis+
  with printf_sign_and_trailing_percent [of "''100''" "- 5" "[]" sample_heap] show ?thesis by simp
qed


definition sample_fb :: framebuffer where
  "sample_fb = \<lparr>fb_address = 0xE0000000, fb_width = 64, fb_height = 48, fb_pitch = 256\<rparr>"

lemma sample_fb_ok: "fb_ok sample_fb"
  by (simp add: sample_fb_def fb_ok_def pitch32_def)


text \<open>Scrolling moves every row up by sixteen and fills the last sixteen rows with the
  background colour.\<close>

theorem scroll_moves_rows_up:
  assumes "fb_ok fb" and "screen_is fb f p" and "16 \<le> unat (fb_height fb)" and "0 < unat (fb_width fb)"
  shows "screen_is fb (\<lambda>a b. if unat b + 16 < unat (fb_height fb) then f a (b + 16) else bg)
    (scroll_pixels fb bg p)"
  by (rule scroll_pixels_screen [OF assms])

theorem scroll_moves_rows_up_witness:
  "scroll_pixels sample_fb 9 (\<lambda>_. 5) (fb_index sample_fb 3 40) = 9
     \<and> scroll_pixels sample_fb 9 (\<lambda>_. 5) (fb_index sample_fb 3 10) = 5"
proof -
  have "screen_is sample_fb (\<lambda>_ _. 5) (\<lambda>_. 5)" by (simp add: screen_is_def)
  from scroll_moves_rows_up [OF sample_fb_ok this, of 9]
  have "screen_is sample_fb (\<lambda>a b. if unat b + 16 < 48 then 5 else 9) (scroll_pixels sample_fb 9 (\<lambda>_. 5))"
    by (simp add: sample_fb_def)
  then show ?thesis by (auto simp: screen_is_def on_fb_def sample_fb_def)
qed

end
