(* ===== verification/Vmm.thy ===== *)
theory Vmm
  imports Boot_Memory
begin

text \<open>
  Address spaces (vmm.c). A space is a \<open>vmm_space_t\<close> allocated with \<open>kmalloc\<close>: the pointer to its
  top-level table at offset 0 and the direct-map offset at offset 8, read from memory wherever the code
  reads them. The kernel's own space is a static variable of the file and so a field of the state. A
  call that goes through \<open>kmalloc\<close> has an optional result, as \<open>kmalloc\<close> has.
\<close>

record vmm_space =
  vs_pml4 :: u64
  vs_hhdm :: u64

record vmm = heap +
  kernel_space :: vmm_space
  hhdm_offset :: u64

definition space_pml4 :: "bytes \<Rightarrow> u64 \<Rightarrow> u64" where
  "space_pml4 m space = load64 m space"

definition set_space :: "u64 \<Rightarrow> u64 \<Rightarrow> u64 \<Rightarrow> bytes \<Rightarrow> bytes" where
  "set_space space pml4 hhdm m = store64 (space + 8) hhdm (store64 space pml4 m)"

definition vmm_init :: "u64 option \<Rightarrow> 'a vmm_scheme \<Rightarrow> 'a vmm_scheme" where
  "vmm_init hhdm_response s =
     (let s1 = klog ''[VMM] Initializing...\<newline>'' s
      in case hhdm_response of
           None \<Rightarrow> klog ''[VMM] ERROR: No HHDM response!\<newline>'' s1
         | Some offset \<Rightarrow>
             let s2 = s1\<lparr>hhdm_offset := offset\<rparr>
             in klog ''[VMM] Ready\<newline>''
                  (s2\<lparr>kernel_space := \<lparr>vs_pml4 = paging_get_cr3 s2 + hhdm_offset s2, vs_hhdm = hhdm_offset s2\<rparr>\<rparr>))"

definition vmm_map_kernel :: "u64 \<Rightarrow> 'a vmm_scheme \<Rightarrow> bool \<times> 'a vmm_scheme" where
  "vmm_map_kernel space s =
     (True, for_up 256 512 (\<lambda>i t. t\<lparr>kmem := entry_set (space_pml4 (kmem t) space) i
        (entry_get (kmem t) (vs_pml4 (kernel_space t)) i) (kmem t)\<rparr>) s)"

definition vmm_create_space :: "'a vmm_scheme \<Rightarrow> (u64 \<times> 'a vmm_scheme) option" where
  "vmm_create_space s =
     (let (pml4_phys, s1) = pmm_alloc_page s
      in if pml4_phys = 0 then Some (0, s1)
         else case kmalloc 16 s1 of
                None \<Rightarrow> None
              | Some (space, s2) \<Rightarrow>
                  if space = 0 then Some (0, pmm_free_page pml4_phys s2)
                  else let m1 = set_space space (pml4_phys + hhdm_offset s2) (hhdm_offset s2) (kmem s2);
                           m2 = snd (memset (space_pml4 m1 space) 0 PAGE_SIZE m1)
                       in Some (space, snd (vmm_map_kernel space (s2\<lparr>kmem := m2\<rparr>))))"

text \<open>The four nested loops of \<open>vmm_destroy_space\<close>, innermost first. Each present entry frees what is
  below it and then the frame it points to.\<close>

definition free_entry :: "u64 \<Rightarrow> u64 \<Rightarrow> 'a vmm_scheme \<Rightarrow> 'a vmm_scheme" where
  "free_entry table i t = pmm_free_page (entry_get (kmem t) table i AND PAGE_MASK) t"

definition destroy_pt :: "u64 \<Rightarrow> 'a vmm_scheme \<Rightarrow> 'a vmm_scheme" where
  "destroy_pt pt s = for_up 0 512 (\<lambda>l t. if is_present (entry_get (kmem t) pt l) then free_entry pt l t else t) s"

definition destroy_pd :: "u64 \<Rightarrow> 'a vmm_scheme \<Rightarrow> 'a vmm_scheme" where
  "destroy_pd pd s =
     for_up 0 512 (\<lambda>k t. if is_present (entry_get (kmem t) pd k)
       then free_entry pd k (destroy_pt ((entry_get (kmem t) pd k AND PAGE_MASK) + hhdm_offset t) t) else t) s"

definition destroy_pdp :: "u64 \<Rightarrow> 'a vmm_scheme \<Rightarrow> 'a vmm_scheme" where
  "destroy_pdp pdp s =
     for_up 0 512 (\<lambda>j t. if is_present (entry_get (kmem t) pdp j)
       then free_entry pdp j (destroy_pd ((entry_get (kmem t) pdp j AND PAGE_MASK) + hhdm_offset t) t) else t) s"

definition vmm_destroy_space :: "u64 \<Rightarrow> 'a vmm_scheme \<Rightarrow> 'a vmm_scheme" where
  "vmm_destroy_space space s =
     (if space = 0 then s
      else let s1 = for_up 0 256 (\<lambda>i t.
             let pml4 = space_pml4 (kmem t) space
             in if is_present (entry_get (kmem t) pml4 i)
                then free_entry pml4 i (destroy_pdp ((entry_get (kmem t) pml4 i AND PAGE_MASK) + hhdm_offset t) t)
                else t) s
           in kfree space (pmm_free_page (space_pml4 (kmem s1) space - hhdm_offset s1) s1))"

definition vmm_switch_space :: "u64 \<Rightarrow> 'a vmm_scheme \<Rightarrow> 'a vmm_scheme" where
  "vmm_switch_space space s =
     (if space = 0 then s else paging_load_cr3 (space_pml4 (kmem s) space - hhdm_offset s) s)"

text \<open>
  One level of \<open>vmm_map_page\<close>: the table below entry \<open>i\<close> of \<open>table m\<close>, created when the entry is not
  present, with the user bit when the mapping has it. The table pointer is computed from memory at
  each use, as the code re-reads \<open>space->pml4\<close>.
\<close>

definition user_bit :: "u64 \<Rightarrow> u64" where
  "user_bit flags = (if flags AND PAGING_USER \<noteq> 0 then PAGING_USER else 0)"

definition vmm_next_table ::
  "(bytes \<Rightarrow> u64) \<Rightarrow> u64 \<Rightarrow> u64 \<Rightarrow> 'a vmm_scheme \<Rightarrow> u64 option \<times> 'a vmm_scheme" where
  "vmm_next_table table i flags s =
     (if \<not> is_present (entry_get (kmem s) (table (kmem s)) i)
      then let (phys, s1) = pmm_alloc_page s
           in if phys = 0 then (None, s1)
              else let new = phys + hhdm_offset s1;
                       m1 = snd (memset new 0 PAGE_SIZE (kmem s1));
                       m2 = entry_set (table m1) i (phys OR PAGING_PRESENT OR PAGING_WRITABLE OR user_bit flags) m1
                   in (Some new, s1\<lparr>kmem := m2\<rparr>)
      else (Some ((entry_get (kmem s) (table (kmem s)) i AND PAGE_MASK) + hhdm_offset s), s))"

definition vmm_map_page :: "u64 \<Rightarrow> u64 \<Rightarrow> u64 \<Rightarrow> u64 \<Rightarrow> 'a vmm_scheme \<Rightarrow> bool \<times> 'a vmm_scheme" where
  "vmm_map_page space va pa flags s =
     (if space = 0 then (False, s)
      else case vmm_next_table (\<lambda>m. space_pml4 m space) (pml4_index va) flags s of
        (None, s1) \<Rightarrow> (False, s1)
      | (Some pdp, s1) \<Rightarrow>
          (case vmm_next_table (\<lambda>_. pdp) (pdp_index va) flags s1 of
             (None, s2) \<Rightarrow> (False, s2)
           | (Some pd, s2) \<Rightarrow>
               (case vmm_next_table (\<lambda>_. pd) (pd_index va) flags s2 of
                  (None, s3) \<Rightarrow> (False, s3)
                | (Some pt, s3) \<Rightarrow>
                    (True, s3\<lparr>kmem := entry_set pt (pt_index va) (pa OR flags OR PAGING_PRESENT) (kmem s3)\<rparr>))))"

end
