(* ===== verification/Vmm_Map.thy ===== *)
theory Vmm_Map
  imports Vmm
begin

text \<open>
  Mapping in a space is mapping in the tree of its top-level table. The lemmas reduce \<open>vmm_map_page\<close>
  to the walk that \<open>paging_map_page\<close> performs, run with the space's table in place of the one in CR3,
  so that the theory of the page-table tree carries over.
\<close>

section \<open>The allocator does not read CR3\<close>

lemma for_up_commute:
  assumes "\<And>k t. f k (u t) = u (f k t)"
  shows "for_up i n f (u s) = u (for_up i n f s)"
  using assms
proof (induction i n f s rule: for_up.induct)
  case (1 i n f s)
  show ?case
  proof (cases "i < n")
    case True
    then show ?thesis using "1.IH" [OF True "1.prems"] "1.prems" by (simp add: for_up_step)
  qed simp
qed

lemma find_free_loop_cr3: "find_free_loop i c st n (s\<lparr>cr3 := x\<rparr>) = find_free_loop i c st n s"
proof (induction i c st n s rule: find_free_loop.induct)
  case (1 i c st n s)
  have [simp]: "bitmap_test i (s\<lparr>cr3 := x\<rparr>) = bitmap_test i s" "memmap_entries (s\<lparr>cr3 := x\<rparr>) = memmap_entries s"
    by (simp_all add: bitmap_test_def memmap_entries_def)
  show ?case
    using 1 by (simp add: find_free_loop.simps [of i] Let_def)
qed

lemma pmm_alloc_page_cr3:
  "pmm_alloc_page (s\<lparr>cr3 := x\<rparr>) = (fst (pmm_alloc_page s), (snd (pmm_alloc_page s))\<lparr>cr3 := x\<rparr>)"
proof -
  have "for_up 0 1 (\<lambda>i. bitmap_set (b + i)) (s\<lparr>cr3 := x\<rparr>) = (for_up 0 1 (\<lambda>i. bitmap_set (b + i)) s)\<lparr>cr3 := x\<rparr>"
    for b by (rule for_up_commute) (simp add: bitmap_set_def Let_def)
  then show ?thesis
    by (simp add: pmm_alloc_page_def pmm_alloc_pages_def find_free_pages_def find_free_loop_cr3 Let_def klog_def)
qed

lemma set_cr3_same: "cr3 t = c \<Longrightarrow> t\<lparr>cr3 := c\<rparr> = t"
  by (cases t) simp

lemma set_cr3_simps [simp]:
  "taken (s\<lparr>cr3 := c\<rparr>) = taken s" "used_frames (s\<lparr>cr3 := c\<rparr>) = used_frames s"
  "pmm_ok (s\<lparr>cr3 := c\<rparr>) = pmm_ok s" "window_ok off (s\<lparr>cr3 := c\<rparr>) = window_ok off s"
  by (simp_all add: pmm_ok_def window_ok_def taken_def allocatable_def memmap_entries_def
      pmm_wf_def used_frames_def page_bit_def)

section \<open>The space structure\<close>

text \<open>The structure of a space lies above the part of the direct map that covers the frames.\<close>

definition space_above :: "u64 \<Rightarrow> 'a paging_scheme \<Rightarrow> u64 \<Rightarrow> bool" where
  "space_above off s space \<longleftrightarrow> space \<noteq> 0 \<and> unat (total_pages s) * 4096 + unat off \<le> unat space
     \<and> unat space + 16 \<le> 2 ^ 64"

lemma memset_below:
  assumes "space_above off s space" and "pmm_ok s" and "window_ok off s"
    and "fst (pmm_alloc_page s) \<noteq> 0"
  shows "space_pml4 (snd (memset (fst (pmm_alloc_page s) + off) 0 PAGE_SIZE m)) space = space_pml4 m space"
proof -
  obtain f where f: "in_frame off f (fst (pmm_alloc_page s) + off)" "f \<notin> taken s"
    using alloc_page_in_window [OF assms(2-4)] by blast
  have lt: "f < unat (total_pages s)" using f(2) by (simp add: taken_def allocatable_def)
  let ?a = "fst (pmm_alloc_page s) + off"
  have a: "unat ?a + 4096 \<le> unat space"
  proof -
    have "f * 4096 + 4096 \<le> unat (total_pages s) * 4096" using lt by linarith
    with f(1) assms(1) show ?thesis unfolding in_frame_def space_above_def by linarith
  qed
  have "\<not> space + of_nat i - ?a < PAGE_SIZE" if "i < 8" for i
  proof -
    have "unat (of_nat i :: u64) = i" using that by (simp add: wordnat)
    moreover have "unat space + i < 2 ^ 64" using assms(1) that by (simp add: space_above_def)
    ultimately have u: "unat (space + of_nat i) = unat space + i" by (simp add: unat_add_no_wrap)
    have "?a \<le> space + of_nat i" using a by (simp add: word_le_nat_alt u)
    then have "unat (space + of_nat i - ?a) = unat space + i - unat ?a" by (simp add: unat_sub_no_wrap u)
    with a show ?thesis by (simp add: word_less_nat_alt PAGE_SIZE_def)
  qed
  then show ?thesis unfolding space_pml4_def by (intro load64_cong) (simp add: memset_apply)
qed

section \<open>One level\<close>

lemma user_bit_extra [simp]: "extra_ok (user_bit flags)"
  by (simp add: extra_ok_def user_bit_def)

lemma pmm_more_vmm:
  "pmm.more t = pmm.more s \<Longrightarrow> hhdm_offset t = hhdm_offset s \<and> kernel_space t = kernel_space s"
  by (cases s, cases t) simp

lemmas alloc_page_vmm [simp] = pmm_more_vmm [OF alloc_page_frame_fields(4)]
lemmas free_page_vmm [simp] = pmm_more_vmm [OF free_page_frame_fields(4)]

lemma vmm_next_sub:
  fixes s :: "'a vmm_scheme"
  assumes ok: "paging_ok off (s\<lparr>cr3 := c\<rparr>)" and off: "hhdm_offset s = off"
    and q: "tree_path (i # q)" "table_of off (s\<lparr>cr3 := c\<rparr>) q = Some t" and tf: "tf (kmem s) = t"
    and stable: "fst (pmm_alloc_page s) \<noteq> 0
      \<Longrightarrow> tf (snd (memset (fst (pmm_alloc_page s) + off) 0 PAGE_SIZE (kmem s))) = t"
  shows "vmm_next_table tf i flags s
    = (case sub_table (user_bit flags) off t i (s\<lparr>cr3 := c\<rparr>) of
         (a, u) \<Rightarrow> (if a = 0 then None else Some a, u\<lparr>cr3 := cr3 s\<rparr>))"
proof (cases "is_present (entry_get (kmem s) t i)")
  case True
  then have "table_of off (s\<lparr>cr3 := c\<rparr>) (i # q) = Some (next_of off (entry_get (kmem s) t i))"
    using q(2) by (simp add: tbl.simps(2))
  from table_nonzero [OF ok q(1) this] True tf off show ?thesis
    by (simp add: vmm_next_table_def sub_table_def next_of_def)
next
  case False
  obtain phys s1 where al: "pmm_alloc_page s = (phys, s1)" by fastforce
  have s1: "kmem s1 = kmem s" "hhdm_offset s1 = off" "cr3 s1 = cr3 s"
    using alloc_page_paging [of s] alloc_page_vmm [of s] al off by simp_all
  have al': "pmm_alloc_page (s\<lparr>cr3 := c\<rparr>) = (phys, s1\<lparr>cr3 := c\<rparr>)" by (simp add: pmm_alloc_page_cr3 al)
  show ?thesis
  proof (cases "phys = 0")
    case True
    with False al al' tf show ?thesis
      by (simp add: vmm_next_table_def sub_table_def s1 set_cr3_same)
  next
    case ne: False
    have "window_ok off (s\<lparr>cr3 := c\<rparr>)" "pmm_ok (s\<lparr>cr3 := c\<rparr>)" using ok by (simp_all add: paging_ok_def)
    then obtain f where "in_frame off f (phys + off)" "0 < unat off"
      using alloc_page_in_window [of "s\<lparr>cr3 := c\<rparr>" off] ne al' by (auto simp: window_ok_def)
    then have nz: "phys + off \<noteq> 0" by (rule in_frame_nonzero)
    have "tf (snd (memset (phys + off) 0 PAGE_SIZE (kmem s1))) = t" using stable ne al s1(1) by simp
    with False ne al al' tf nz s1 show ?thesis
      by (simp add: vmm_next_table_def sub_table_def add_table_def Let_def or.assoc)
  qed
qed

section \<open>The three levels\<close>

lemma sub_table_vmm [simp]:
  "hhdm_offset (snd (sub_table x off t i s)) = hhdm_offset s"
  "kernel_space (snd (sub_table x off t i s)) = kernel_space s"
  "invalidated (snd (sub_table x off t i s)) = invalidated s"
  using alloc_page_vmm [of s] alloc_page_paging [of s]
  by (cases "pmm_alloc_page s"; simp add: sub_table_def)+

lemma map_walk_invalidated: "invalidated (snd (map_walk x off va e s)) = invalidated (s :: 'a vmm_scheme)"
proof -
  have "invalidated u = invalidated t" if "sub_table x off p i t = (a, u)" for p i a and t u :: "'a vmm_scheme"
    using sub_table_vmm(3) [of x off p i t] that by simp
  then show ?thesis by (auto simp: map_walk_def split: prod.splits)
qed

text \<open>The level in terms of the state with CR3 switched: the next state is again such a state.\<close>

lemma vmm_next_level:
  fixes s :: "'a vmm_scheme"
  assumes ok: "paging_ok off (s\<lparr>cr3 := c\<rparr>)" and off: "hhdm_offset s = off"
    and q: "tree_path (i # q)" "table_of off (s\<lparr>cr3 := c\<rparr>) q = Some t" and tf: "tf (kmem s) = t"
    and stable: "fst (pmm_alloc_page s) \<noteq> 0
      \<Longrightarrow> tf (snd (memset (fst (pmm_alloc_page s) + off) 0 PAGE_SIZE (kmem s))) = t"
  obtains a s1 where "sub_table (user_bit flags) off t i (s\<lparr>cr3 := c\<rparr>) = (a, s1\<lparr>cr3 := c\<rparr>)"
    and "vmm_next_table tf i flags s = (if a = 0 then None else Some a, s1)"
    and "paging_ok off (s1\<lparr>cr3 := c\<rparr>)" and "hhdm_offset s1 = off" and "cr3 s1 = cr3 s"
    and "a \<noteq> 0 \<Longrightarrow> table_of off (s1\<lparr>cr3 := c\<rparr>) (i # q) = Some a"
proof -
  obtain a u where su: "sub_table (user_bit flags) off t i (s\<lparr>cr3 := c\<rparr>) = (a, u)" by fastforce
  note st = sub_table_step [OF user_bit_extra ok q, of flags, unfolded su, simplified]
  have hh: "paging_hhdm (s\<lparr>cr3 := c\<rparr>) = Some off" using ok by (simp add: paging_ok_def)
  have oku: "paging_ok off u" by (rule tree_step_ok [OF st(1) hh])
  have cu: "cr3 u = c" using st(1) by (simp add: tree_step_def)
  define s1 where "s1 = u\<lparr>cr3 := cr3 s\<rparr>"
  have u: "s1\<lparr>cr3 := c\<rparr> = u" using cu by (simp add: s1_def set_cr3_same)
  have "hhdm_offset u = off" using sub_table_vmm(1) [of "user_bit flags" off t i "s\<lparr>cr3 := c\<rparr>"] su off by simp
  then have "hhdm_offset s1 = off" by (simp add: s1_def)
  moreover have "vmm_next_table tf i flags s = (if a = 0 then None else Some a, s1)"
    using vmm_next_sub [OF ok off q tf stable, of flags] su by (simp add: s1_def)
  moreover have "cr3 s1 = cr3 s" by (simp add: s1_def)
  ultimately show thesis using that [of a s1] su oku st(2) by (simp add: u)
qed

lemma vmm_map_page_walk:
  fixes s :: "'a vmm_scheme"
  assumes off: "hhdm_offset s = off" and above: "space_above off s space"
    and ok: "paging_ok off (s\<lparr>cr3 := space_pml4 (kmem s) space - off\<rparr>)"
  shows "vmm_map_page space va pa flags s
    = (case map_walk (user_bit flags) off va (pa OR flags OR PAGING_PRESENT)
              (s\<lparr>cr3 := space_pml4 (kmem s) space - off\<rparr>) of
         (r, t) \<Rightarrow> (r, t\<lparr>cr3 := cr3 s\<rparr>))"
proof -
  define c where "c = space_pml4 (kmem s) space - off"
  let ?s0 = "s\<lparr>cr3 := c\<rparr>" and ?x = "user_bit flags"
  have ok: "paging_ok off ?s0" using ok by (simp add: c_def)
  have root: "pt_root off ?s0 = space_pml4 (kmem s) space" by (simp add: pt_root_def c_def)
  have path: "tree_path [pml4_index va]" "tree_path [pdp_index va, pml4_index va]"
      "tree_path [pd_index va, pdp_index va, pml4_index va]" by (rule walk_paths)+
  have ok': "pmm_ok s" "window_ok off s" and sp: "space \<noteq> 0"
    using ok above by (simp_all add: paging_ok_def space_above_def)
  have r0: "table_of off ?s0 [] = Some (space_pml4 (kmem s) space)" by (simp add: root)
  obtain pdp s1 where l1: "sub_table ?x off (space_pml4 (kmem s) space) (pml4_index va) ?s0 = (pdp, s1\<lparr>cr3 := c\<rparr>)"
      "vmm_next_table (\<lambda>m. space_pml4 m space) (pml4_index va) flags s = (if pdp = 0 then None else Some pdp, s1)"
      "paging_ok off (s1\<lparr>cr3 := c\<rparr>)" "hhdm_offset s1 = off" "cr3 s1 = cr3 s"
      "pdp \<noteq> 0 \<Longrightarrow> table_of off (s1\<lparr>cr3 := c\<rparr>) [pml4_index va] = Some pdp"
    by (rule vmm_next_level [OF ok off path(1) r0, of "\<lambda>m. space_pml4 m space" flags])
      (use memset_below [OF above ok'] in auto)
  show ?thesis
  proof (cases "pdp = 0")
    case True
    with l1 sp show ?thesis
      unfolding c_def [symmetric] by (simp add: vmm_map_page_def map_walk_def root set_cr3_same)
  next
    case p1: False
    obtain pd s2 where l2: "sub_table ?x off pdp (pdp_index va) (s1\<lparr>cr3 := c\<rparr>) = (pd, s2\<lparr>cr3 := c\<rparr>)"
      "vmm_next_table (\<lambda>_. pdp) (pdp_index va) flags s1 = (if pd = 0 then None else Some pd, s2)"
      "paging_ok off (s2\<lparr>cr3 := c\<rparr>)" "hhdm_offset s2 = off" "cr3 s2 = cr3 s1"
      "pd \<noteq> 0 \<Longrightarrow> table_of off (s2\<lparr>cr3 := c\<rparr>) [pdp_index va, pml4_index va] = Some pd"
      by (rule vmm_next_level [OF l1(3,4) path(2) l1(6) [OF p1], of "\<lambda>_. pdp" flags]) auto
    show ?thesis
    proof (cases "pd = 0")
      case True
      with l1 l2 p1 sp show ?thesis
        unfolding c_def [symmetric] by (simp add: vmm_map_page_def map_walk_def root set_cr3_same)
    next
      case p2: False
      obtain pt s3 where l3: "sub_table ?x off pd (pd_index va) (s2\<lparr>cr3 := c\<rparr>) = (pt, s3\<lparr>cr3 := c\<rparr>)"
        "vmm_next_table (\<lambda>_. pd) (pd_index va) flags s2 = (if pt = 0 then None else Some pt, s3)"
        "hhdm_offset s3 = off" "cr3 s3 = cr3 s2"
        by (rule vmm_next_level [OF l2(3,4) path(3) l2(6) [OF p2], of "\<lambda>_. pd" flags]) auto
      have "(s3\<lparr>cr3 := c, kmem := m\<rparr>)\<lparr>cr3 := cr3 s\<rparr> = s3\<lparr>kmem := m\<rparr>" for m
        using l1(5) l2(5) l3(4) set_cr3_same [of "s3\<lparr>kmem := m\<rparr>" "cr3 s"] by simp
      with l1 l2 l3 p1 p2 sp show ?thesis
        unfolding c_def [symmetric]
        by (cases "pt = 0") (simp_all add: vmm_map_page_def map_walk_def root set_cr3_same)
    qed
  qed
qed

text \<open>The translations of a space, and what mapping a page does to them.\<close>

definition space_state :: "u64 \<Rightarrow> 'a vmm_scheme \<Rightarrow> 'a vmm_scheme" where
  "space_state space s = s\<lparr>cr3 := space_pml4 (kmem s) space - hhdm_offset s\<rparr>"

lemma vmm_map_page_effect:
  fixes s :: "'a vmm_scheme"
  assumes above: "space_above (hhdm_offset s) s space"
    and ok: "paging_ok (hhdm_offset s) (space_state space s)"
    and m: "vmm_map_page space va pa flags s = (r, t)"
  defines "root \<equiv> space_pml4 (kmem s) space"
  shows "leaf (kmem t) (hhdm_offset s) root va' = (if r \<and> same_page va' va then Some (pa OR flags OR PAGING_PRESENT)
           else leaf (kmem s) (hhdm_offset s) root va')"
    and "\<not> r \<Longrightarrow> taken t = UNIV" and "cr3 t = cr3 s" and "invalidated t = invalidated s"
proof -
  let ?off = "hhdm_offset s" and ?s0 = "space_state space s" and ?e = "pa OR flags OR PAGING_PRESENT"
  obtain u where u: "map_walk (user_bit flags) ?off va ?e ?s0 = (r, u)" "t = u\<lparr>cr3 := cr3 s\<rparr>"
    using m vmm_map_page_walk [OF refl above, of va pa flags] ok
    by (auto simp: space_state_def split: prod.splits)
  note e = map_walk_effect [OF user_bit_extra ok is_present_or3 u(1)]
  have inv: "invalidated u = invalidated ?s0"
    using map_walk_invalidated [of "user_bit flags" ?off va ?e ?s0] u(1) by simp
  have cr: "cr3 u = cr3 ?s0"
    by (rule walk_levels [OF user_bit_extra ok, of flags va ?e]) (use u(1) in \<open>auto simp: tree_step_def\<close>)
  have root: "pt_root ?off ?s0 = root" "pt_root ?off u = root"
    by (simp_all add: pt_root_def cr) (simp_all add: space_state_def root_def)
  have mem: "kmem ?s0 = kmem s" by (simp add: space_state_def)
  show "leaf (kmem t) ?off root va' = (if r \<and> same_page va' va then Some ?e else leaf (kmem s) ?off root va')"
    using e(2) [of va'] by (simp add: u(2) root mem)
  show "\<not> r \<Longrightarrow> taken t = UNIV" using e(3) by (simp add: u(2))
  show "cr3 t = cr3 s" "invalidated t = invalidated s" using inv by (simp_all add: u(2) space_state_def)
qed

end
