(* ===== verification/Vmm_Destroy.thy ===== *)
theory Vmm_Destroy
  imports Vmm_Map
begin

text \<open>
  Destroying a space: the nested loops of \<open>vmm_destroy_space\<close> free, in depth-first order, the pages
  of the user half of the tree, each table after what is below it. The reference is the list of
  these pages, read off the memory.
\<close>

section \<open>The pages of a tree\<close>

definition entry_page :: "bytes \<Rightarrow> u64 \<Rightarrow> nat \<Rightarrow> u64" where
  "entry_page m t i = entry_get m t (of_nat i) AND PAGE_MASK"

definition slots :: "bytes \<Rightarrow> u64 \<Rightarrow> nat \<Rightarrow> nat list" where
  "slots m t n = filter (\<lambda>i. is_present (entry_get m t (of_nat i))) [0..<n]"

definition pt_pages :: "bytes \<Rightarrow> u64 \<Rightarrow> u64 list" where
  "pt_pages m pt = map (entry_page m pt) (slots m pt 512)"

definition pd_pages :: "bytes \<Rightarrow> u64 \<Rightarrow> u64 \<Rightarrow> u64 list" where
  "pd_pages m off pd = concat (map (\<lambda>i. pt_pages m (entry_page m pd i + off) @ [entry_page m pd i]) (slots m pd 512))"

definition pdp_pages :: "bytes \<Rightarrow> u64 \<Rightarrow> u64 \<Rightarrow> u64 list" where
  "pdp_pages m off pdp = concat (map (\<lambda>i. pd_pages m off (entry_page m pdp i + off) @ [entry_page m pdp i]) (slots m pdp 512))"

definition user_pages :: "bytes \<Rightarrow> u64 \<Rightarrow> u64 \<Rightarrow> u64 list" where
  "user_pages m off pml4 =
     concat (map (\<lambda>i. pdp_pages m off (entry_page m pml4 i + off) @ [entry_page m pml4 i]) (slots m pml4 256))"

section \<open>Freeing a list of pages\<close>

abbreviation free_all :: "u64 list \<Rightarrow> 'a vmm_scheme \<Rightarrow> 'a vmm_scheme" where
  "free_all as s \<equiv> fold pmm_free_page as s"

lemma free_all_keeps [simp]:
  "kmem (free_all as s) = kmem s" "hhdm_offset (free_all as s) = hhdm_offset s"
  by (induction as arbitrary: s) simp_all

lemma fold_concat_step:
  assumes "\<And>k t. k \<in> set ks \<Longrightarrow> kmem t = m \<Longrightarrow> hhdm_offset t = off \<Longrightarrow> f k t = free_all (g k) t"
    and "kmem s = m" and "hhdm_offset s = off"
  shows "fold f ks s = free_all (concat (map g ks)) s"
  using assms by (induction ks arbitrary: s) simp_all

lemma for_up_slots:
  fixes n :: u64
  assumes "\<And>k t. k < unat n \<Longrightarrow> kmem t = m \<Longrightarrow> hhdm_offset t = off
      \<Longrightarrow> is_present (entry_get m table (of_nat k)) \<Longrightarrow> f (of_nat k) t = free_all (g k) t"
    and "\<And>k t. kmem t = m \<Longrightarrow> \<not> is_present (entry_get m table (of_nat k)) \<Longrightarrow> f (of_nat k) t = t"
    and "kmem s = m" and "hhdm_offset s = off"
  shows "for_up 0 n f s = free_all (concat (map g (slots m table (unat n)))) s"
proof -
  let ?g = "\<lambda>k. if is_present (entry_get m table (of_nat k)) then g k else []"
  have "for_up 0 n f s = free_all (concat (map ?g [0..<unat n])) s"
    unfolding for_up_fold unsigned_0 by (rule fold_concat_step) (use assms in auto)
  moreover have "concat (map ?g ks) = concat (map g (filter (\<lambda>k. is_present (entry_get m table (of_nat k))) ks))" for ks
    by (induction ks) simp_all
  ultimately show ?thesis by (simp add: slots_def)
qed

lemma destroy_pt_pages: "destroy_pt pt s = free_all (pt_pages (kmem s) pt) s"
proof -
  have "concat (map (\<lambda>k. [entry_page (kmem s) pt k]) ks) = map (entry_page (kmem s) pt) ks" for ks
    by (induction ks) simp_all
  then show ?thesis
    unfolding destroy_pt_def pt_pages_def
    by (subst for_up_slots [where m = "kmem s" and off = "hhdm_offset s" and table = pt
          and g = "\<lambda>k. [entry_page (kmem s) pt k]"]) (simp_all add: free_entry_def entry_page_def [abs_def])
qed

lemma destroy_pd_pages: "destroy_pd pd s = free_all (pd_pages (kmem s) (hhdm_offset s) pd) s"
  unfolding destroy_pd_def pd_pages_def
  by (subst for_up_slots [where m = "kmem s" and off = "hhdm_offset s" and table = pd
        and g = "\<lambda>i. pt_pages (kmem s) (entry_page (kmem s) pd i + hhdm_offset s) @ [entry_page (kmem s) pd i]"])
    (simp_all add: free_entry_def entry_page_def destroy_pt_pages)

lemma destroy_pdp_pages: "destroy_pdp pdp s = free_all (pdp_pages (kmem s) (hhdm_offset s) pdp) s"
  unfolding destroy_pdp_def pdp_pages_def
  by (subst for_up_slots [where m = "kmem s" and off = "hhdm_offset s" and table = pdp
        and g = "\<lambda>i. pd_pages (kmem s) (hhdm_offset s) (entry_page (kmem s) pdp i + hhdm_offset s)
                  @ [entry_page (kmem s) pdp i]"])
    (simp_all add: free_entry_def entry_page_def destroy_pd_pages)

definition space_pages :: "u64 \<Rightarrow> 'a vmm_scheme \<Rightarrow> u64 list" where
  "space_pages space s =
     user_pages (kmem s) (hhdm_offset s) (space_pml4 (kmem s) space) @ [space_pml4 (kmem s) space - hhdm_offset s]"

lemma vmm_destroy_pages:
  assumes "space \<noteq> 0"
  shows "vmm_destroy_space space s = kfree space (free_all (space_pages space s) s)"
proof -
  let ?pml4 = "space_pml4 (kmem s) space"
  have "for_up 0 256 (\<lambda>i t. let pml4 = space_pml4 (kmem t) space
          in if is_present (entry_get (kmem t) pml4 i)
             then free_entry pml4 i (destroy_pdp ((entry_get (kmem t) pml4 i AND PAGE_MASK) + hhdm_offset t) t)
             else t) s
      = free_all (user_pages (kmem s) (hhdm_offset s) ?pml4) s"
    unfolding user_pages_def
    by (subst for_up_slots [where m = "kmem s" and off = "hhdm_offset s" and table = ?pml4
          and g = "\<lambda>i. pdp_pages (kmem s) (hhdm_offset s) (entry_page (kmem s) ?pml4 i + hhdm_offset s)
                    @ [entry_page (kmem s) ?pml4 i]"])
      (simp_all add: free_entry_def entry_page_def destroy_pdp_pages Let_def)
  with assms show ?thesis by (simp add: vmm_destroy_space_def space_pages_def Let_def)
qed

section \<open>The frames given back\<close>

lemma free_all_frames:
  assumes "pmm_ok s" and "\<And>a. a \<in> set as \<Longrightarrow> unat a mod 4096 = 0 \<and> unat a div 4096 \<in> used_frames s"
    and "distinct as"
  shows "pmm_ok (free_all as s) \<and> used_frames (free_all as s) = used_frames s - (\<lambda>a. unat a div 4096) ` set as"
  using assms
proof (induction as arbitrary: s)
  case (Cons a as)
  define p where "p = unat a div 4096"
  have p: "unat a = p * 4096" "p \<in> used_frames s" using Cons.prems(2) [of a] by (auto simp: p_def mod_eq_0_iff_dvd)
  have f: "pmm_ok (pmm_free_page a s)" "used_frames (pmm_free_page a s) = used_frames s - {p}"
    using pf.free_frame [OF Cons.prems(1) p] by auto
  have "unat b div 4096 \<noteq> p" if "b \<in> set as" for b
  proof
    assume "unat b div 4096 = p"
    with Cons.prems(2) [of b] that p(1) have "unat b = unat a" by (auto simp: mod_eq_0_iff_dvd)
    then have "b = a" by (simp add: word_unat_eq_iff)
    with Cons.prems(3) that show False by simp
  qed
  with Cons.prems(2,3) f have "\<And>b. b \<in> set as \<Longrightarrow> unat b mod 4096 = 0 \<and> unat b div 4096 \<in> used_frames (pmm_free_page a s)"
    by auto
  from Cons.IH [OF f(1) this] Cons.prems(3) f(2) show ?case by (auto simp: p_def)
qed simp

lemma kfree_pmm:
  "used_frames (kfree a s) = used_frames s" "pmm_ok (kfree a s) = pmm_ok s"
proof -
  have "total_pages (kfree a s) = total_pages s \<and> bitmap_bytes (kfree a s) = bitmap_bytes s
    \<and> used_pages (kfree a s) = used_pages s \<and> bitmap (kfree a s) = bitmap s"
    by (simp add: kfree_def merge_prev_def merge_next_def Let_def split: prod.splits)
  then show "used_frames (kfree a s) = used_frames s" "pmm_ok (kfree a s) = pmm_ok s"
    by (simp_all add: used_frames_def page_bit_def pmm_ok_def pmm_wf_def)
qed

end
