(* ===== verification/Vmm_Create.thy ===== *)
theory Vmm_Create
  imports Vmm_Destroy
begin

text \<open>
  Creating a space: a fresh top-level table whose user half is empty and whose kernel half is copied
  from the kernel's own space. The theory shows what \<open>vmm_create_space\<close> leaves in memory and that
  the result is a well-formed tree which shares the kernel's translations.
\<close>

section \<open>What kmalloc keeps\<close>

definition same_frames :: "'a vmm_scheme \<Rightarrow> 'a vmm_scheme \<Rightarrow> bool" where
  "same_frames s t \<longleftrightarrow> used_frames t = used_frames s \<and> taken t = taken s \<and> pmm_ok t = pmm_ok s
     \<and> total_pages t = total_pages s \<and> cr3 t = cr3 s \<and> paging_hhdm t = paging_hhdm s
     \<and> hhdm_offset t = hhdm_offset s \<and> kernel_space t = kernel_space s"

lemma kmalloc_same_frames:
  assumes "kmalloc n s = Some (a, t)"
  shows "same_frames s (t :: 'a vmm_scheme)"
proof -
  have "total_pages t = total_pages s \<and> bitmap_bytes t = bitmap_bytes s \<and> used_pages t = used_pages s
    \<and> bitmap t = bitmap s \<and> current_memmap t = current_memmap s \<and> cr3 t = cr3 s
    \<and> paging_hhdm t = paging_hhdm s \<and> hhdm_offset t = hhdm_offset s \<and> kernel_space t = kernel_space s"
    using assms by (auto simp: kmalloc_def split_block_def Let_def klog_def klog_num_def
        split: option.splits if_splits)
  then show ?thesis
    by (simp add: same_frames_def used_frames_def page_bit_def pmm_ok_def pmm_wf_def taken_def
        allocatable_def memmap_entries_def)
qed

lemma kmalloc_region:
  assumes ok: "heap_ok s" and n: "n \<noteq> 0" "unat n + 7 < 2 ^ 64" and k: "kmalloc n s = Some (a, t)"
  shows "heap_ok t" and "x < HEAP_BASE \<Longrightarrow> kmem t (addr x) = kmem s (addr x)"
    and "a \<noteq> 0 \<Longrightarrow> HEAP_BASE + 32 \<le> unat a \<and> unat a + unat n \<le> HEAP_BASE + HEAP_BYTES"
proof -
  obtain bs where inv: "heap_inv bs s" using ok by (auto simp: heap_ok_def)
  note c = kmalloc_contract [OF ok n]
  from c k show t: "heap_ok t" by auto
  show "x < HEAP_BASE \<Longrightarrow> kmem t (addr x) = kmem s (addr x)"
  proof (cases "\<exists>b \<in> set bs. fits (request_nat (unat n)) b")
    case True
    assume x: "x < HEAP_BASE"
    obtain i where i: "best_fit (request_nat (unat n)) bs i" using best_fit_exists [OF True] by blast
    obtain s' where s': "kmalloc n s = Some (addr (block_addr bs i + 32), s')"
      "same_outside (block_addr bs i) (block_addr bs i + 32 + fst (bs ! i) + 32) (kmem s) (kmem s')"
      by (rule kmalloc_best [OF inv n i])
    have "x < block_addr bs i" using x by (simp add: block_addr_def)
    moreover have "x < 2 ^ 64" using x heap_bounds by linarith
    ultimately show ?thesis using s' k same_outsideD [of _ _ "kmem s" "kmem s'" x] by simp
  next
    case False
    then show ?thesis using kmalloc_none [OF inv n] k by auto
  qed
  assume "a \<noteq> 0"
  with c k obtain z where z: "unat n \<le> z" "(unat a, z) \<in> heap_blocks t" by auto
  obtain cs where inv': "heap_inv cs t" using t by (auto simp: heap_ok_def)
  show "HEAP_BASE + 32 \<le> unat a \<and> unat a + unat n \<le> HEAP_BASE + HEAP_BYTES"
    using live_bounds [OF inv', of "unat a" z] z heap_blocks_live [OF inv'] by auto
qed

section \<open>The copied half\<close>

text \<open>A load from the structure of the space is not affected by a write to a table in a frame.\<close>

lemma entry_set_below:
  assumes f: "in_frame off f a" and off: "unat off mod 4096 = 0" and i: "i < 512"
    and space: "unat a + 4096 \<le> unat space" "unat space + 8 \<le> 2 ^ 64"
  shows "space_pml4 (entry_set a i v m) space = space_pml4 m space"
proof -
  have "unat i < 512" using i by (simp add: word_less_nat_alt)
  then have "unat (a + 8 * i) + 8 \<le> unat space" using slot_addr [OF f off i, of 0] space by simp
  then have "apart8 (a + 8 * i) space" using apart8_nat [of "a + 8 * i" space] space by simp
  then show ?thesis by (simp add: space_pml4_def entry_set_def load64_store64_other)
qed

lemma map_kernel_effect:
  assumes f: "in_frame off f a" and g: "in_frame off g k" "g \<noteq> f" and off: "unat off mod 4096 = 0"
    and space: "unat a + 4096 \<le> unat space" "unat space + 8 \<le> 2 ^ 64" "space_pml4 (kmem s) space = a"
    and k: "vs_pml4 (kernel_space s) = k"
  defines "t \<equiv> snd (vmm_map_kernel space s)"
  shows "t = s\<lparr>kmem := kmem t\<rparr>" and "space_pml4 (kmem t) space = a"
    and "i < 512 \<Longrightarrow> entry_get (kmem t) a i = (if 256 \<le> i then entry_get (kmem s) k i else entry_get (kmem s) a i)"
    and "in_frame off h b \<Longrightarrow> h \<noteq> f \<Longrightarrow> i < 512 \<Longrightarrow> entry_get (kmem t) b i = entry_get (kmem s) b i"
proof -
  let ?I = "\<lambda>n u. u = s\<lparr>kmem := kmem u\<rparr> \<and> space_pml4 (kmem u) space = a
    \<and> (\<forall>i < 512. entry_get (kmem u) a i
          = (if 256 \<le> unat i \<and> unat i < n then entry_get (kmem s) k i else entry_get (kmem s) a i))
    \<and> (\<forall>h b i. in_frame off h b \<and> h \<noteq> f \<and> i < 512 \<longrightarrow> entry_get (kmem u) b i = entry_get (kmem s) b i)"
  have step: "?I (Suc n) (u\<lparr>kmem := entry_set (space_pml4 (kmem u) space) (of_nat n)
        (entry_get (kmem u) (vs_pml4 (kernel_space u)) (of_nat n)) (kmem u)\<rparr>)"
    if n: "256 \<le> n" "n < 512" and I: "?I n u" for n and u :: "'a vmm_scheme"
  proof -
    have nn: "unat (of_nat n :: u64) = n" using n by (simp add: wordnat)
    then have lt: "(of_nat n :: u64) < 512" using n by (simp add: word_less_nat_alt)
    have ks: "vs_pml4 (kernel_space u) = k" by (subst I [THEN conjunct1]) (simp add: k)
    have src: "entry_get (kmem u) k (of_nat n) = entry_get (kmem s) k (of_nat n)" using I g lt by blast
    let ?m = "entry_set a (of_nat n) (entry_get (kmem s) k (of_nat n)) (kmem u)"
    have A: "entry_get ?m a i = (if 256 \<le> unat i \<and> unat i < Suc n then entry_get (kmem s) k i else entry_get (kmem s) a i)"
      if i: "i < 512" for i
    proof (cases "i = of_nat n")
      case True then show ?thesis using n by (simp add: nn)
    next
      case False
      then have "unat i \<noteq> n" using nn by (auto simp: word_unat_eq_iff)
      moreover have "entry_get ?m a i = entry_get (kmem u) a i"
        by (rule entry_get_set_other [OF f f off lt i]) (use False in simp)
      ultimately show ?thesis using I i by (auto simp: less_Suc_eq)
    qed
    have B: "entry_get ?m b i = entry_get (kmem s) b i" if h: "in_frame off h b" "h \<noteq> f" "i < 512" for h b i
    proof -
      have "a \<noteq> b" using in_frame_eq [OF f h(1)] h(2) by blast
      then have "entry_get ?m b i = entry_get (kmem u) b i"
        by (intro entry_get_set_other [OF f h(1) off lt h(3)]) simp
      then show ?thesis using I h by simp
    qed
    have e: "space_pml4 (kmem u) space = a" using I by blast
    then have sp: "space_pml4 ?m space = a" using entry_set_below [OF f off lt space(1,2)] by simp
    have "u\<lparr>kmem := ?m\<rparr> = s\<lparr>kmem := ?m\<rparr>" by (subst I [THEN conjunct1]) simp
    then show ?thesis unfolding e ks src using sp A by (intro conjI allI impI) (simp_all, use B in blast)
  qed
  have u512: "unat (512::u64) = 512" by simp
  have "?I (unat (512::u64)) (snd (vmm_map_kernel space s))"
    unfolding vmm_map_kernel_def snd_conv
    by (rule for_up_rule [where I = ?I]) (use space(3) step in auto)
  then have I: "?I 512 t" unfolding u512 t_def .
  then show "t = s\<lparr>kmem := kmem t\<rparr>" "space_pml4 (kmem t) space = a" by blast+
  show "i < 512 \<Longrightarrow> entry_get (kmem t) a i = (if 256 \<le> i then entry_get (kmem s) k i else entry_get (kmem s) a i)"
    using I by (auto simp: word_le_nat_alt word_less_nat_alt)
  show "in_frame off h b \<Longrightarrow> h \<noteq> f \<Longrightarrow> i < 512 \<Longrightarrow> entry_get (kmem t) b i = entry_get (kmem s) b i"
    using I by blast
qed


section \<open>The new space\<close>

text \<open>Where everything lies: the direct map of the frames ends below the heap.\<close>

definition heap_above :: "'a vmm_scheme \<Rightarrow> bool" where
  "heap_above s \<longleftrightarrow> unat (total_pages s) * 4096 + unat (hhdm_offset s) \<le> HEAP_BASE"

lemma entry_addr_bounds:
  assumes f: "in_frame off f b" and off: "unat off mod 4096 = 0" and i: "i < 512"
    and lt: "f < N" "N * 4096 + unat off \<le> B" and k: "k < 8"
  shows "unat (b + 8 * i + of_nat k) < B"
proof -
  have "unat i < 512" using i by (simp add: word_less_nat_alt)
  moreover have "unat (b + 8 * i + of_nat k) = unat b + 8 * unat i + k" by (rule slot_addr [OF f off i k])
  moreover have "f * 4096 + 4096 \<le> N * 4096" using lt(1) by linarith
  ultimately show ?thesis using f lt(2) k unfolding in_frame_def by linarith
qed

lemma entry_get_below:
  assumes f: "in_frame off f b" and off: "unat off mod 4096 = 0" and i: "i < 512"
    and lt: "f < N" "N * 4096 + unat off \<le> B"
    and m: "\<And>x. unat x < B \<Longrightarrow> m' x = m x"
  shows "entry_get m' b i = entry_get m b i"
  unfolding entry_get_def by (rule load64_cong) (rule m, rule entry_addr_bounds [OF f off i lt])

lemma set_space_effect:
  assumes "unat space + 16 \<le> 2 ^ 64"
  shows "space_pml4 (set_space space p h m) space = p"
    and "unat x < unat space \<Longrightarrow> set_space space p h m x = m x"
proof -
  have u: "unat (space + 8) = unat space + 8" using assms by (simp add: unat_add_no_wrap)
  then have "apart8 (space + 8) space" using assms apart8_nat [of space "space + 8"] by simp
  then show "space_pml4 (set_space space p h m) space = p"
    by (simp add: space_pml4_def set_space_def load64_store64_other)
  assume x: "unat x < unat space"
  have near: "unat b \<le> unat x" if b: "x - b < 8" "unat b + 8 \<le> 2 ^ 64" for b
  proof -
    have "unat (x - b) < 8" using b(1) by (simp only: word_less_nat_alt) simp
    with b(2) have "unat b + unat (x - b) < 2 ^ LENGTH(64)" by simp
    then have "unat (b + (x - b)) = unat b + unat (x - b)" by (rule unat_add_no_wrap)
    then show ?thesis by simp
  qed
  have "\<not> x - space < 8" "\<not> x - (space + 8) < 8"
    using near [of space] near [of "space + 8"] x assms u by auto
  with x show "set_space space p h m x = m x" by (simp add: set_space_def store64_other)
qed

lemma alloc_page_heap_inv: "heap_inv bs (snd (pmm_alloc_page s)) = heap_inv bs (s :: 'a vmm_scheme)"
proof -
  have "first_block t = first_block s \<and> heap_total t = heap_total s \<and> heap_used t = heap_used s
      \<and> block_count t = block_count s" if "paging.more t = paging.more s" for t :: "'a vmm_scheme"
    using that by (cases s, cases t) simp
  from this [of "snd (pmm_alloc_page s)"] show ?thesis
    using alloc_page_paging [of s] by (simp add: heap_inv_def)
qed

lemma alloc_page_heap_ok: "heap_ok (snd (pmm_alloc_page s)) = heap_ok (s :: 'a vmm_scheme)"
  by (simp add: heap_ok_def alloc_page_heap_inv)

lemma create_space_effect:
  fixes s :: "'a vmm_scheme"
  assumes c: "vmm_create_space s = Some (space, t)" "space \<noteq> 0"
    and ok: "pmm_ok s" "window_ok (hhdm_offset s) s" "heap_ok s" "heap_above s"
    and k: "vs_pml4 (kernel_space s) = k" "in_frame (hhdm_offset s) g k" "g \<in> taken s" "g < unat (total_pages s)"
  shows "\<exists>f a. f \<notin> taken s \<and> f < unat (total_pages s) \<and> in_frame (hhdm_offset s) f a \<and> space_pml4 (kmem t) space = a
    \<and> used_frames t = insert f (used_frames s) \<and> taken t = insert f (taken s) \<and> pmm_ok t
    \<and> total_pages t = total_pages s \<and> cr3 t = cr3 s \<and> paging_hhdm t = paging_hhdm s
    \<and> hhdm_offset t = hhdm_offset s \<and> kernel_space t = kernel_space s \<and> space_above (hhdm_offset s) t space
    \<and> (\<forall>i < 512. entry_get (kmem t) a i = (if 256 \<le> i then entry_get (kmem s) k i else 0))
    \<and> (\<forall>h b i. in_frame (hhdm_offset s) h b \<and> h < unat (total_pages s) \<and> h \<noteq> f \<and> i < 512
          \<longrightarrow> entry_get (kmem t) b i = entry_get (kmem s) b i)"
proof -
  let ?off = "hhdm_offset s" and ?N = "unat (total_pages s)"
  obtain phys s1 where al: "pmm_alloc_page s = (phys, s1)" by fastforce
  have ph: "phys \<noteq> 0" using c al by (auto simp: vmm_create_space_def)
  obtain s2 where km: "kmalloc 16 s1 = Some (space, s2)"
    and t0: "t = snd (vmm_map_kernel space (s2\<lparr>kmem := snd (memset
        (space_pml4 (set_space space (phys + hhdm_offset s2) (hhdm_offset s2) (kmem s2)) space) 0 PAGE_SIZE
        (set_space space (phys + hhdm_offset s2) (hhdm_offset s2) (kmem s2)))\<rparr>))"
    using c al ph by (auto simp: vmm_create_space_def Let_def split: option.splits if_splits prod.splits)
  obtain f where f: "unat phys = f * 4096" "in_frame ?off f (phys + ?off)" "f \<notin> taken s" "taken s1 = insert f (taken s)"
    using alloc_page_in_window [OF ok(1,2)] al ph by auto
  have fN: "f < ?N" using f(3) by (simp add: taken_def allocatable_def)
  have uf: "used_frames s1 = insert f (used_frames s)" and ok1: "pmm_ok s1"
    using pf.alloc_new [OF ok(1)] pf.alloc_ok [OF ok(1)] al ph f(1) by auto
  have s1: "kmem s1 = kmem s" "hhdm_offset s1 = ?off" "kernel_space s1 = kernel_space s" "total_pages s1 = total_pages s"
    "cr3 s1 = cr3 s" "paging_hhdm s1 = paging_hhdm s"
    using alloc_page_paging [of s] alloc_page_vmm [of s] alloc_page_frame_fields(1) [of s] al by simp_all
  have sf: "same_frames s1 s2" by (rule kmalloc_same_frames [OF km])
  have h1: "heap_ok s1" using alloc_page_heap_ok [of s] ok(3) al by simp
  have n16: "(16::u64) \<noteq> 0" "unat (16::u64) + 7 < 2 ^ 64" by simp_all
  note kr = kmalloc_region [OF h1 n16 km]
  let ?a = "phys + ?off"
  have off: "unat ?off mod 4096 = 0" using ok(2) by (simp add: window_ok_def)
  have hN: "?N * 4096 + unat ?off \<le> HEAP_BASE" using ok(4) by (simp add: heap_above_def)
  have sp: "HEAP_BASE + 32 \<le> unat space" "unat space + 16 \<le> 2 ^ 64" using kr(3) [OF c(2)] heap_bounds by auto
  have above: "space_above ?off s space" using sp hN c(2) by (simp add: space_above_def)
  define m1 where "m1 = set_space space ?a ?off (kmem s2)"
  define m2 where "m2 = snd (memset ?a 0 PAGE_SIZE m1)"
  have p1: "space_pml4 m1 space = ?a" by (simp add: m1_def set_space_effect [OF sp(2)])
  have p2: "space_pml4 m2 space = ?a"
    using memset_below [OF above ok(1,2), of m1] al ph p1 by (simp add: m2_def)
  have t: "t = snd (vmm_map_kernel space (s2\<lparr>kmem := m2\<rparr>))"
    using t0 sf p1 s1 by (simp add: same_frames_def m1_def [symmetric] m2_def)
  have old: "entry_get m1 b i = entry_get (kmem s) b i" if "in_frame ?off h b" "h < ?N" "i < 512" for h b i
  proof (rule entry_get_below [OF that(1) off that(3,2) hN])
    fix x :: u64 assume x: "unat x < HEAP_BASE"
    then have "m1 x = kmem s2 x" using set_space_effect(2) [OF sp(2), of x] sp(1) by (simp add: m1_def)
    also have "\<dots> = kmem s1 x" using kr(2) [of "unat x"] x by (simp add: addr_def)
    finally show "m1 x = kmem s x" by (simp add: s1)
  qed
  have gf: "g \<noteq> f" using k(3) f(3) by blast
  have a4: "unat ?a + 4096 \<le> unat space"
  proof -
    have "f * 4096 + 4096 \<le> ?N * 4096" using fN by linarith
    then show ?thesis using f(2) hN sp(1) unfolding in_frame_def by linarith
  qed
  have clr: "entry_get m2 b i = (if ?a = b then 0 else entry_get m1 b i)" if "in_frame ?off h b" "i < 512" for h b i
    unfolding m2_def by (rule entry_get_cleared [OF f(2) that(1) off that(2)])
  let ?s3 = "s2\<lparr>kmem := m2\<rparr>"
  have k3: "vs_pml4 (kernel_space ?s3) = k" "space_pml4 (kmem ?s3) space = ?a"
    using sf k(1) s1(3) p2 by (simp_all add: same_frames_def)
  have sp8: "unat space + 8 \<le> 2 ^ 64" using sp(2) by simp
  note e = map_kernel_effect [OF f(2) k(2) gf off a4 sp8 k3(2,1), folded t]
  have ne: "?a \<noteq> b" if "in_frame ?off h b" "h \<noteq> f" for h b using in_frame_eq [OF f(2) that(1)] that(2) by blast
  have E1: "entry_get (kmem t) ?a i = (if 256 \<le> i then entry_get (kmem s) k i else 0)" if i: "i < 512" for i
    using e(3) [OF i] clr [OF k(2) i] clr [OF f(2) i] ne [OF k(2) gf] old [OF k(2,4) i] by simp
  have E2: "entry_get (kmem t) b i = entry_get (kmem s) b i"
    if b: "in_frame ?off h b" "h < ?N" "h \<noteq> f" "i < 512" for h b i
    using e(4) [OF b(1,3,4)] clr [OF b(1,4)] ne [OF b(1,3)] old [OF b(1,2,4)] by simp
  have fields: "used_frames t = used_frames s2" "taken t = taken s2" "pmm_ok t = pmm_ok s2" "total_pages t = total_pages s2"
    "cr3 t = cr3 s2" "paging_hhdm t = paging_hhdm s2" "hhdm_offset t = hhdm_offset s2" "kernel_space t = kernel_space s2"
    by (subst e(1), simp)+
  show ?thesis
    apply (intro exI [of _ f] exI [of _ ?a])
    using f(2,3) fN e(2) E1 E2 fields sf s1 uf f(4) ok1 above
    apply (intro conjI allI impI)
    apply (simp_all add: same_frames_def space_above_def)
    using E2 by blast
qed


section \<open>The tree of the new space\<close>

definition kernel_state :: "'a vmm_scheme \<Rightarrow> 'a vmm_scheme" where
  "kernel_state s = s\<lparr>cr3 := vs_pml4 (kernel_space s) - hhdm_offset s\<rparr>"

definition tables_below :: "u64 \<Rightarrow> 'a paging_scheme \<Rightarrow> bool" where
  "tables_below off s \<longleftrightarrow> (\<forall>f. table_frame off s f \<longrightarrow> f < unat (total_pages s))"

lemma tbl_copy:
  assumes top: "\<And>i. i < 512 \<Longrightarrow> entry_get m' a i = (if 256 \<le> i then entry_get m k i else 0)"
    and rest: "\<And>q b i. tree_path (i # q) \<Longrightarrow> q \<noteq> [] \<Longrightarrow> tbl m off k q = Some b \<Longrightarrow> entry_get m' b i = entry_get m b i"
  shows "tree_path p \<Longrightarrow> p \<noteq> [] \<Longrightarrow> tbl m' off a p = (if 256 \<le> last p then tbl m off k p else None)"
proof (induction p)
  case (Cons i q)
  have i: "i < 512" and q: "tree_path q" using Cons.prems by (simp_all add: tree_path_Cons)
  show ?case
  proof (cases "q = []")
    case True
    then show ?thesis using top [OF i] by (simp add: is_present_bit tbl.simps(2))
  next
    case False
    note IH = Cons.IH [OF q False]
    show ?thesis
    proof (cases "tbl m off k q")
      case None then show ?thesis using IH False by (simp add: tbl.simps(2))
    next
      case (Some b)
      then show ?thesis using IH False rest [OF Cons.prems(1) False Some] by (simp add: tbl.simps(2))
    qed
  qed
qed simp

lemma create_space_tree:
  fixes s :: "'a vmm_scheme"
  assumes c: "vmm_create_space s = Some (space, t)" "space \<noteq> 0"
    and ok: "paging_ok (hhdm_offset s) (kernel_state s)" "heap_ok s" "heap_above s"
    and below: "tables_below (hhdm_offset s) (kernel_state s)"
  shows "paging_ok (hhdm_offset s) (space_state space t) \<and> space_above (hhdm_offset s) t space
    \<and> hhdm_offset t = hhdm_offset s \<and> (\<exists>f. f \<notin> taken s \<and> used_frames t = insert f (used_frames s))
    \<and> (\<forall>va. leaf (kmem t) (hhdm_offset s) (space_pml4 (kmem t) space) va
          = (if pml4_index va < 256 then None else leaf (kmem s) (hhdm_offset s) (vs_pml4 (kernel_space s)) va))"
proof -
  let ?off = "hhdm_offset s" and ?k = "vs_pml4 (kernel_space s)" and ?N = "unat (total_pages s)"
  have ks: "table_of ?off (kernel_state s) p = tbl (kmem s) ?off ?k p" for p
    by (simp add: kernel_state_def pt_root_def)
  have ok': "pmm_ok s" "window_ok ?off s" "paging_hhdm s = Some ?off" "pt_tree ?off (kernel_state s)"
    using ok(1) by (simp_all add: paging_ok_def kernel_state_def)
  have tk: "taken (kernel_state s) = taken s" by (simp add: kernel_state_def)
  have frame: "\<exists>g \<in> taken s. g < ?N \<and> in_frame ?off g b" if q: "tree_path q" "tbl (kmem s) ?off ?k q = Some b" for q b
  proof -
    have b: "table_of ?off (kernel_state s) q = Some b" using q(2) ks by simp
    obtain g where g: "g \<in> taken s" "in_frame ?off g b" using pt_tree_frame [OF ok'(4) q(1) b] tk by auto
    then have "table_frame ?off (kernel_state s) g" using q(1) b unfolding table_frame_def by blast
    with below g show ?thesis by (auto simp: tables_below_def kernel_state_def)
  qed
  have inj: "p = q" if "tree_path p" "tree_path q" "tbl (kmem s) ?off ?k p = Some b" "tbl (kmem s) ?off ?k q = Some b" for p q b
    using pt_tree_inj [OF ok'(4) that(1,2)] that(3,4) ks by simp
  obtain g where g: "in_frame ?off g ?k" "g \<in> taken s" "g < ?N" using frame [of "[]"] by auto
  obtain f a where f: "f \<notin> taken s" "in_frame ?off f a" "space_pml4 (kmem t) space = a"
      "used_frames t = insert f (used_frames s)" "taken t = insert f (taken s)" "pmm_ok t" "total_pages t = total_pages s"
      "paging_hhdm t = paging_hhdm s" "hhdm_offset t = ?off" "space_above ?off t space"
    and top: "\<And>i. i < 512 \<Longrightarrow> entry_get (kmem t) a i = (if 256 \<le> i then entry_get (kmem s) ?k i else 0)"
    and other: "\<And>h b i. in_frame ?off h b \<Longrightarrow> h < ?N \<Longrightarrow> h \<noteq> f \<Longrightarrow> i < 512 \<Longrightarrow> entry_get (kmem t) b i = entry_get (kmem s) b i"
    using create_space_effect [OF c ok'(1,2) ok(2,3) refl g] by blast
  have rest: "entry_get (kmem t) b i = entry_get (kmem s) b i"
    if b: "tree_path (i # q)" "tbl (kmem s) ?off ?k q = Some b" for q b i
  proof -
    have q: "tree_path q" "i < 512" using b(1) by (simp_all add: tree_path_Cons)
    from frame [OF q(1) b(2)] obtain h where "h \<in> taken s" "h < ?N" "in_frame ?off h b" by blast
    with f(1) q(2) other show ?thesis by blast
  qed
  have T: "tbl (kmem t) ?off a p = (if 256 \<le> last p then tbl (kmem s) ?off ?k p else None)"
    if "tree_path p" "p \<noteq> []" for p
    by (rule tbl_copy [OF top rest that]) simp_all
  have st: "table_of ?off (space_state space t) p = tbl (kmem t) ?off a p" for p
    by (simp add: space_state_def pt_root_def f(3,9))
  have new: "(\<exists>h \<in> taken s. in_frame ?off h b) \<and> tbl (kmem s) ?off ?k p = Some b"
    if "tree_path p" "p \<noteq> []" "tbl (kmem t) ?off a p = Some b" for p b
    using that(3) T [OF that(1,2)] frame [OF that(1), of b] by (auto split: if_splits)
  have root: "b \<noteq> a" if "tree_path p" "p \<noteq> []" "tbl (kmem t) ?off a p = Some b" for p b
    using new [OF that] f(1,2) in_frame_eq by blast
  have "pt_tree ?off (space_state space t)"
    unfolding pt_tree_def st
  proof (intro conjI allI impI)
    fix p b assume p: "tree_path p \<and> tbl (kmem t) ?off a p = Some b"
    have tk': "taken (space_state space t) = insert f (taken s)" by (simp add: space_state_def f(5))
    show "\<exists>h \<in> taken (space_state space t). in_frame ?off h b"
      using p new [of p b] f(2) unfolding tk' by (cases "p = []") auto
  next
    fix p q b assume pq: "tree_path p \<and> tree_path q \<and> tbl (kmem t) ?off a p = Some b \<and> tbl (kmem t) ?off a q = Some b"
    show "p = q"
    proof (cases "p = [] \<or> q = []")
      case True
      then show ?thesis using pq root [of p b] root [of q b] by (cases "p = []"; cases "q = []") auto
    next
      case False
      then show ?thesis using pq inj [of p q b] new [of p b] new [of q b] by blast
    qed
  qed
  moreover have "pmm_ok (space_state space t)" "window_ok ?off (space_state space t)" "paging_hhdm (space_state space t) = Some ?off"
    using f ok' by (simp_all add: space_state_def window_ok_def)
  ultimately have "paging_ok ?off (space_state space t)" by (simp add: paging_ok_def)
  moreover have "leaf (kmem t) ?off a va = (if pml4_index va < 256 then None else leaf (kmem s) ?off ?k va)" for va
  proof -
    have p: "tree_path (pt_path va)" by simp
    have p': "pt_path va \<noteq> []" "last (pt_path va) = pml4_index va" by (simp_all add: pt_path_def)
    show ?thesis
    proof (cases "tbl (kmem s) ?off ?k (pt_path va)")
      case None
      then show ?thesis using T [OF p p'(1)] p'(2) by (simp add: leaf_def)
    next
      case (Some b)
      from frame [OF _ Some] obtain h where "h \<in> taken s" "h < ?N" "in_frame ?off h b" by auto
      then have "entry_get (kmem t) b (pt_index va) = entry_get (kmem s) b (pt_index va)" using other f(1) by force
      with Some T [OF p p'(1)] p'(2) show ?thesis by (simp add: leaf_def linorder_not_le [symmetric])
    qed
  qed
  ultimately show ?thesis using f by blast
qed

end
