(* ===== verification/Vmm_Properties.thy ===== *)
theory Vmm_Properties
  imports Vmm_Create Sample_States
begin

text \<open>
  The properties of address spaces (vmm.c): what a new space translates, what mapping in a space
  changes, and which frames destroying one gives back. The sample state has the kernel's tables, the
  page allocator and a heap of one free block.
\<close>

section \<open>A sample kernel\<close>

definition sample_vmm :: vmm where
  "sample_vmm = heap.extend (sample_paging\<lparr>kmem := kmem sample_heap, heap_start := heap_start sample_heap,
     heap_end := heap_end sample_heap, heap_total := heap_total sample_heap, heap_used := heap_used sample_heap,
     block_count := block_count sample_heap, first_block := first_block sample_heap\<rparr>)
     \<lparr>kernel_space = \<lparr>vs_pml4 = sample_hhdm, vs_hhdm = sample_hhdm\<rparr>, hhdm_offset = sample_hhdm\<rparr>"

lemma sample_vmm_fields [simp]:
  "hhdm_offset sample_vmm = sample_hhdm" "vs_pml4 (kernel_space sample_vmm) = sample_hhdm"
  "kmem sample_vmm = kmem sample_heap" "total_pages sample_vmm = 2048" "paging_hhdm sample_vmm = Some sample_hhdm"
  "cr3 sample_vmm = 0"
  by (simp_all add: sample_vmm_def heap.defs sample_paging_def paging_init_def Let_def klog_def klog_num_def)

lemma sample_vmm_pmm:
  "pmm_ok sample_vmm" "taken sample_vmm = - {2..<2048}" "window_ok sample_hhdm sample_vmm"
  using sample_paging_ok sample_paging_taken
  by (simp_all add: sample_vmm_def heap.defs paging_ok_def window_ok_def pmm_ok_def pmm_wf_def used_frames_def
      page_bit_def taken_def allocatable_def memmap_entries_def)

lemma sample_vmm_heap: "heap_inv [(HEAP_BYTES - 32, False)] sample_vmm"
  using sample_heap_inv by (simp add: sample_vmm_def heap.defs heap_inv_def)

lemma sample_vmm_window: "heap_above sample_vmm"
  by (simp add: heap_above_def sample_hhdm_def HEAP_BASE_def)

lemma sample_vmm_entries: "i < 512 \<Longrightarrow> entry_get (kmem sample_heap) sample_hhdm i = 0"
proof -
  assume i: "i < 512"
  have "entry_get (kmem sample_heap) sample_hhdm i = entry_get (\<lambda>_. 0) sample_hhdm i"
  proof (rule entry_get_below [OF _ _ i, of sample_hhdm 0])
    show "in_frame sample_hhdm 0 sample_hhdm" by (simp add: in_frame_def)
    show "unat sample_hhdm mod 4096 = 0" by (simp add: sample_hhdm_def)
    show "(0::nat) < 1" by simp
    show "1 * 4096 + unat sample_hhdm \<le> HEAP_BASE" by (simp add: sample_hhdm_def HEAP_BASE_def)
    fix x :: u64 assume x: "unat x < HEAP_BASE"
    have "same_outside HEAP_BASE (HEAP_BASE + 32) (\<lambda>_. 0) (kmem sample_heap)"
    proof -
      have k: "kmem sample_heap = set_prev (addr HEAP_BASE) 0 (set_next (addr HEAP_BASE) 0 (set_used (addr HEAP_BASE) False
          (set_size (addr HEAP_BASE) (HEAP_INITIAL_SIZE - HEADER) (\<lambda>_. 0))))"
        by (simp add: sample_heap_def addr_HEAP_BASE)
      show ?thesis unfolding k by (intro same_outside_set same_outside_refl) (simp_all add: HEAP_BASE_def)
    qed
    then show "kmem sample_heap x = 0"
      using same_outsideD [of HEAP_BASE "HEAP_BASE + 32" "\<lambda>_. 0" "kmem sample_heap" "unat x"] x unat_u64_bound [of x] by (simp add: addr_def)
  qed
  then show ?thesis by simp
qed

lemma sample_vmm_tree:
  "paging_ok sample_hhdm (kernel_state sample_vmm)" "tables_below sample_hhdm (kernel_state sample_vmm)"
proof -
  let ?s = "kernel_state sample_vmm"
  have r: "pt_root sample_hhdm ?s = sample_hhdm" "kmem ?s = kmem sample_heap" by (simp_all add: kernel_state_def pt_root_def)
  have z: "\<And>i. i < 512 \<Longrightarrow> entry_get (kmem ?s) (pt_root sample_hhdm ?s) i = 0" using sample_vmm_entries by (simp add: r)
  have f: "in_frame sample_hhdm 0 (pt_root sample_hhdm ?s)" "0 \<in> taken ?s"
    by (simp_all add: r in_frame_def) (simp add: kernel_state_def sample_vmm_pmm)
  from empty_tree(1) [OF z f] show "paging_ok sample_hhdm ?s"
    using sample_vmm_pmm by (simp add: paging_ok_def) (simp add: kernel_state_def)
  have "g < 2048" if t: "table_frame sample_hhdm ?s g" for g
    using empty_tree(2) [OF z f t] by simp
  then show "tables_below sample_hhdm ?s" by (simp add: tables_below_def kernel_state_def)
qed

lemma sample_create: "\<exists>space t. vmm_create_space sample_vmm = Some (space, t) \<and> space \<noteq> 0"
proof -
  obtain phys s1 where al: "pmm_alloc_page sample_vmm = (phys, s1)" by fastforce
  have "2 \<notin> taken sample_vmm" by (simp add: sample_vmm_pmm)
  then have ph: "phys \<noteq> 0" using alloc_page_exhausted [OF sample_vmm_pmm(1)] al by auto
  have inv: "heap_inv [(HEAP_BYTES - 32, False)] s1"
    using alloc_page_heap_inv [of "[(HEAP_BYTES - 32, False)]" sample_vmm] al sample_vmm_heap by simp
  have n: "(16::u64) \<noteq> 0" "unat (16::u64) + 7 < 2 ^ 64" by simp_all
  have "\<exists>b \<in> set [(HEAP_BYTES - 32, False)]. fits (request_nat (unat (16::u64))) b"
    by (simp add: fits_def request_nat_def HEAP_BYTES_def)
  then obtain i where "best_fit (request_nat (unat (16::u64))) [(HEAP_BYTES - 32, False)] i"
    using best_fit_exists by blast
  from kmalloc_best [OF inv n this] obtain a s2 where km: "kmalloc 16 s1 = Some (addr (block_addr [(HEAP_BYTES - 32, False)] i + 32), s2)"
    by blast
  have "i < 1" using \<open>best_fit _ _ i\<close> by (simp add: best_fit_def)
  then have "addr (block_addr [(HEAP_BYTES - 32, False)] i + 32) \<noteq> 0"
    by (simp add: block_addr_def addr_def HEAP_BASE_def)
  with al ph km show ?thesis by (auto simp: vmm_create_space_def Let_def)
qed

text \<open>C28. A new address space takes one fresh frame, has a well-formed tree, translates no address
  of the user half, and translates every address of the kernel half as the kernel's own space
  does.\<close>

theorem new_space_shares_kernel:
  fixes s :: vmm
  assumes "vmm_create_space s = Some (space, t)" and "space \<noteq> 0"
    and "paging_ok (hhdm_offset s) (kernel_state s)" and "heap_ok s" and "heap_above s"
    and "tables_below (hhdm_offset s) (kernel_state s)"
  shows "paging_ok (hhdm_offset s) (space_state space t)
    \<and> (\<exists>f. f \<notin> taken s \<and> used_frames t = insert f (used_frames s))
    \<and> (\<forall>va. leaf (kmem t) (hhdm_offset t) (space_pml4 (kmem t) space) va
          = (if pml4_index va < 256 then None else leaf (kmem s) (hhdm_offset s) (vs_pml4 (kernel_space s)) va))"
  using create_space_tree [OF assms] by auto

theorem new_space_shares_kernel_witness:
  "\<exists>space t. vmm_create_space sample_vmm = Some (space, t) \<and> space \<noteq> 0
     \<and> (\<forall>va. pml4_index va < 256 \<longrightarrow> leaf (kmem t) (hhdm_offset t) (space_pml4 (kmem t) space) va = None)"
proof -
  obtain space t where c: "vmm_create_space sample_vmm = Some (space, t)" "space \<noteq> 0" using sample_create by blast
  have h: "heap_ok sample_vmm" using sample_vmm_heap by (auto simp: heap_ok_def)
  from new_space_shares_kernel [OF c _ h sample_vmm_window] sample_vmm_tree c show ?thesis by auto
qed

text \<open>Mapping a page in a space changes the translations of that page in that space only, to
  the physical address with the flags and the present bit; it switches no space and invalidates no
  cached translation. It is refused for the null space, and otherwise only when no frame is
  left.\<close>

theorem map_in_space_translations:
  fixes s :: vmm
  assumes "space_above (hhdm_offset s) s space" and "paging_ok (hhdm_offset s) (space_state space s)"
    and "vmm_map_page space va pa flags s = (r, t)"
  shows "(\<forall>va'. leaf (kmem t) (hhdm_offset s) (space_pml4 (kmem s) space) va'
      = (if r \<and> same_page va' va then Some (pa OR flags OR PAGING_PRESENT)
         else leaf (kmem s) (hhdm_offset s) (space_pml4 (kmem s) space) va'))
    \<and> (\<not> r \<longrightarrow> taken t = UNIV) \<and> cr3 t = cr3 s \<and> invalidated t = invalidated s
    \<and> vmm_map_page 0 va pa flags s = (False, s)"
  using vmm_map_page_effect [OF assms] by (simp add: vmm_map_page_def)

theorem map_in_space_translations_witness:
  "\<exists>space s r t. vmm_create_space sample_vmm = Some (space, s)
     \<and> vmm_map_page space 0x400000 0x5000 PAGING_USER s = (r, t)
     \<and> (r \<longrightarrow> leaf (kmem t) sample_hhdm (space_pml4 (kmem s) space) 0x400FFF = Some 0x5005)
     \<and> leaf (kmem t) sample_hhdm (space_pml4 (kmem s) space) 0x401000 = None"
proof -
  obtain space s where c: "vmm_create_space sample_vmm = Some (space, s)" "space \<noteq> 0" using sample_create by blast
  obtain r t where m: "vmm_map_page space 0x400000 0x5000 PAGING_USER s = (r, t)" by fastforce
  have h: "heap_ok sample_vmm" using sample_vmm_heap by (auto simp: heap_ok_def)
  note e = create_space_tree [OF c _ h sample_vmm_window] 
  have p: "same_page 0x400FFF 0x400000" "\<not> same_page 0x401000 0x400000" "pml4_index 0x401000 < 256"
    by (simp_all add: same_page_def pt_path_def pml4_index_def pdp_index_def pd_index_def pt_index_def)
  have off: "hhdm_offset s = sample_hhdm" using e sample_vmm_tree by simp
  from map_in_space_translations [of s space, OF _ _ m] e sample_vmm_tree off p c m show ?thesis
    by (auto simp: PAGING_USER_def PAGING_PRESENT_def)
qed

text \<open>C29. Destroying a space frees the frames of the user half of its tree, every table after
  what is below it, then the top-level table, and releases the structure: when these pages are
  distinct frames in use, exactly they become free.\<close>

theorem destroy_space_frees_tree:
  fixes s :: vmm
  assumes "space \<noteq> 0" and "pmm_ok s" and "distinct (space_pages space s)"
    and "\<forall>a \<in> set (space_pages space s). unat a mod 4096 = 0 \<and> unat a div 4096 \<in> used_frames s"
  shows "vmm_destroy_space space s = kfree space (fold pmm_free_page (space_pages space s) s)
    \<and> pmm_ok (vmm_destroy_space space s)
    \<and> used_frames (vmm_destroy_space space s)
        = used_frames s - (\<lambda>a. unat a div 4096) ` set (space_pages space s)"
  using free_all_frames [OF assms(2) _ assms(3)] assms(4) vmm_destroy_pages [OF assms(1), of s]
  by (simp add: kfree_pmm)

theorem destroy_space_frees_tree_witness:
  "\<exists>space s. vmm_create_space sample_vmm = Some (space, s)
     \<and> used_frames s \<noteq> used_frames sample_vmm
     \<and> used_frames (vmm_destroy_space space s) = used_frames sample_vmm"
proof -
  obtain space s where c: "vmm_create_space sample_vmm = Some (space, s)" "space \<noteq> 0" using sample_create by blast
  have h: "heap_ok sample_vmm" using sample_vmm_heap by (auto simp: heap_ok_def)
  have k: "in_frame (hhdm_offset sample_vmm) 0 sample_hhdm" "0 \<in> taken sample_vmm" "0 < unat (total_pages sample_vmm)"
    "vs_pml4 (kernel_space sample_vmm) = sample_hhdm" "window_ok (hhdm_offset sample_vmm) sample_vmm"
    by (simp_all add: in_frame_def sample_vmm_pmm)
  obtain f a where f: "f \<notin> taken sample_vmm" "in_frame sample_hhdm f a" "space_pml4 (kmem s) space = a"
      "used_frames s = insert f (used_frames sample_vmm)" "pmm_ok s" "hhdm_offset s = sample_hhdm"
    and top: "\<And>i. i < 512 \<Longrightarrow> entry_get (kmem s) a i = (if 256 \<le> i then entry_get (kmem sample_heap) sample_hhdm i else 0)"
    using create_space_effect [OF c sample_vmm_pmm(1) k(5) h sample_vmm_window k(4,1-3)] by auto
  have "\<not> is_present (entry_get (kmem s) a (of_nat i))" if "i < 256" for i
    using that top [of "of_nat i"] by (simp add: word_less_nat_alt word_le_nat_alt wordnat is_present_bit)
  then have "slots (kmem s) a 256 = []" by (simp add: slots_def filter_empty_conv)
  then have sp: "space_pages space s = [a - sample_hhdm]" by (simp add: space_pages_def user_pages_def f(3,6))
  have fr: "unat (a - sample_hhdm) = f * 4096"
    using f(2) by (simp add: in_frame_def unat_sub_no_wrap word_le_nat_alt)
  have nf: "f \<notin> used_frames sample_vmm" using f(1) by (simp add: taken_def used_frames_def allocatable_def)
  from destroy_space_frees_tree [OF c(2) f(5)] sp fr f(4) nf have
    "used_frames (vmm_destroy_space space s) = used_frames sample_vmm" by auto
  with c f(4) nf show ?thesis by blast
qed

end
