(* ===== verification/Task.thy ===== *)
theory Task
  imports Vmm_Map
begin

text \<open>
  Tasks (task.c, task.h, context_switch.asm). A \<open>struct task\<close> lives in memory; the fields are read and
  written at their C offsets, so that tasks that share or overlap memory behave as in the machine.
  The two assembly routines are modelled instruction by instruction over the registers and memory:
  they use their own offsets, written in the head of context_switch.asm, which are not those of the C
  structure.
\<close>

section \<open>The task structure\<close>

definition TASK_STATE_READY :: u32 where "TASK_STATE_READY = 0"
definition TASK_STATE_RUNNING :: u32 where "TASK_STATE_RUNNING = 1"

definition TASK_SIZE :: u64 where "TASK_SIZE = 184"

definition load32 :: "bytes \<Rightarrow> u64 \<Rightarrow> u32" where
  "load32 m a = foldr (\<lambda>i w. push_bit 8 w OR ucast (m (a + of_nat i))) [0..<4] 0"

definition store32 :: "u64 \<Rightarrow> u32 \<Rightarrow> bytes \<Rightarrow> bytes" where
  "store32 a v m = (\<lambda>x. if x - a < 4 then ucast (drop_bit (8 * unat (x - a)) v) else m x)"

definition task_next :: "bytes \<Rightarrow> u64 \<Rightarrow> u64" where
  "task_next m t = load64 m (t + 160)"

definition set_task_next :: "u64 \<Rightarrow> u64 \<Rightarrow> bytes \<Rightarrow> bytes" where
  "set_task_next t v = store64 (t + 160) v"

definition task_state :: "bytes \<Rightarrow> u64 \<Rightarrow> u32" where
  "task_state m t = load32 m (t + 172)"

definition set_task_state :: "u64 \<Rightarrow> u32 \<Rightarrow> bytes \<Rightarrow> bytes" where
  "set_task_state t v = store32 (t + 172) v"

record tasking = vmm +
  task_list :: u64
  current_task :: u64
  next_task_id :: u32

section \<open>task.c\<close>

definition task_init :: "u64 \<Rightarrow> u64 \<Rightarrow> u64 \<Rightarrow> u32 \<Rightarrow> bytes \<Rightarrow> bytes" where
  "task_init t entry stack_top tid m =
     (let m1 = snd (memset t 0 TASK_SIZE m);
          m2 = store64 (t + 120) entry m1;
          m3 = store64 (t + 144) stack_top m2;
          m4 = store64 (t + 136) 0x202 m3;
          m5 = store64 (t + 128) 0x08 m4;
          m6 = store64 (t + 152) 0x10 m5;
          m7 = store32 (t + 168) tid m6;
          m8 = set_task_state t TASK_STATE_READY m7;
          m9 = store64 (t + 176) stack_top m8
      in set_task_next t 0 m9)"

partial_function (option) last_task :: "bytes \<Rightarrow> u64 \<Rightarrow> u64 option" where
  "last_task m t = (if task_next m t \<noteq> 0 then last_task m (task_next m t) else Some t)"

definition task_add :: "u64 \<Rightarrow> 'a tasking_scheme \<Rightarrow> 'a tasking_scheme option" where
  "task_add t s =
     (if task_list s = 0 then Some (s\<lparr>task_list := t\<rparr>)
      else case last_task (kmem s) (task_list s) of
             None \<Rightarrow> None
           | Some lst \<Rightarrow> Some (s\<lparr>kmem := set_task_next lst t (kmem s)\<rparr>))"

partial_function (option) ready_from :: "bytes \<Rightarrow> u64 \<Rightarrow> u64 option" where
  "ready_from m t =
     (if t = 0 then Some 0
      else if task_state m t = TASK_STATE_READY then Some t
      else ready_from m (task_next m t))"

partial_function (option) ready_until :: "bytes \<Rightarrow> u64 \<Rightarrow> u64 \<Rightarrow> u64 option" where
  "ready_until m cur t =
     (if t = 0 \<or> t = cur then Some 0
      else if task_state m t = TASK_STATE_READY then Some t
      else ready_until m cur (task_next m t))"

definition task_get_next_ready :: "'a tasking_scheme \<Rightarrow> u64 option" where
  "task_get_next_ready s =
     (if current_task s = 0 then Some (task_list s)
      else case ready_from (kmem s) (task_next (kmem s) (current_task s)) of
             None \<Rightarrow> None
           | Some t \<Rightarrow>
               if t \<noteq> 0 then Some t
               else ready_until (kmem s) (current_task s) (task_list s))"

definition tasking_init :: "'a tasking_scheme \<Rightarrow> 'a tasking_scheme" where
  "tasking_init s = klog ''[TASK] Tasking subsystem initialized\<newline>'' s"

section \<open>The assembly routines\<close>

datatype reg = R15 | R14 | R13 | R12 | R11 | R10 | R9 | R8 | RDI | RSI | RBP | RBX | RDX | RCX | RAX

record cpu =
  gpr :: "reg \<Rightarrow> u64"
  rip :: u64
  cs :: u64
  rflags :: u64
  rsp :: u64
  ss :: u64

definition push :: "u64 \<Rightarrow> u64 \<times> bytes \<Rightarrow> u64 \<times> bytes" where
  "push v st = (fst st - 8, store64 (fst st - 8) v (snd st))"

text \<open>The registers in the order of the pushes, and the order in which they are stored.\<close>

definition push_order :: "reg list" where
  "push_order = [RAX, RCX, RDX, RBX, RBP, RSI, RDI, R8, R9, R10, R11, R12, R13, R14, R15]"

definition reg_slots :: "(u64 \<times> reg) list" where
  "reg_slots = [(0, R15), (8, R14), (16, R13), (24, R12), (32, R11), (40, R10), (48, R9), (56, R8),
     (64, RDI), (72, RSI), (80, RBP), (88, RBX), (96, RDX), (104, RCX), (112, RAX)]"

text \<open>\<open>t\<close> is the argument in RDI, \<open>c\<close> the registers at the call, \<open>resume\<close> the address of the label
  \<open>.return\<close>. The routine leaves the stack pointer as it was and returns to its caller.\<close>

definition save_current_context :: "u64 \<Rightarrow> u64 \<Rightarrow> cpu \<Rightarrow> bytes \<Rightarrow> bytes" where
  "save_current_context resume t c m =
     (let r = (gpr c)(RDI := t);
          m1 = store64 (t + 136) (rsp c) m;
          st = fold (\<lambda>x. push (r x)) push_order (rsp c, m1);
          m2 = fold (\<lambda>(off, x). store64 (t + off) (r x)) reg_slots (snd st);
          m3 = snd (push (rflags c) (fst st, m2));
          m4 = store64 (t + 128) (rflags c) m3;
          m5 = store64 (t + 120) resume m4;
          m6 = store64 (t + 144) 0x10 m5
      in store64 (t + 152) 0x08 m6)"

definition iretq :: "cpu \<Rightarrow> bytes \<Rightarrow> cpu" where
  "iretq c m = c\<lparr>rip := load64 m (rsp c), cs := load64 m (rsp c + 8), rflags := load64 m (rsp c + 16),
     rsp := load64 m (rsp c + 24), ss := load64 m (rsp c + 32)\<rparr>"

text \<open>\<open>mov dx, 0x3F8\<close> and \<open>mov al, 'S'\<close> replace the low 16 and 8 bits of registers already restored.\<close>

definition mov_dx :: "u64 \<Rightarrow> u64 \<Rightarrow> u64" where
  "mov_dx v w = (w AND NOT 0xFFFF) OR v"

definition mov_al :: "u64 \<Rightarrow> u64 \<Rightarrow> u64" where
  "mov_al v w = (w AND NOT 0xFF) OR v"

definition switch_to_task :: "u64 \<Rightarrow> cpu \<Rightarrow> 'a tasking_scheme \<Rightarrow> cpu \<times> 'a tasking_scheme" where
  "switch_to_task t c s =
     (let m = kmem s;
          r = fold (\<lambda>(off, x) r. if x = R15 then r(R15 := t) else r(x := load64 m (t + off))) reg_slots (gpr c);
          r1 = r(RDX := mov_dx 0x3F8 (r RDX));
          r2 = r1(RAX := mov_al 0x53 (r1 RAX));
          st = fold (\<lambda>off st. push (load64 (snd st) (t + off)) st) [144, 136, 128, 152, 120] (rsp c, m)
      in (iretq (c\<lparr>gpr := r2, rsp := fst st\<rparr>) (snd st), klog ''S'' (s\<lparr>kmem := snd st\<rparr>)))"

section \<open>The scheduler\<close>

text \<open>
  The result is \<open>None\<close> when a walk along the list does not end. Otherwise the first component tells
  how the call ended: \<open>None\<close> when it returned to the timer handler, the registers loaded by \<open>iretq\<close>
  when it switched. The assignment after \<open>switch_to_task\<close> is not reached: \<open>switch_to_task\<close> leaves by
  \<open>iretq\<close> and never returns to its call.
\<close>

definition task_scheduler_tick ::
  "u64 \<Rightarrow> cpu \<Rightarrow> 'a tasking_scheme \<Rightarrow> (cpu option \<times> 'a tasking_scheme) option" where
  "task_scheduler_tick resume c s =
     (if current_task s = 0 then Some (None, s)
      else case task_get_next_ready s of
             None \<Rightarrow> None
           | Some nxt \<Rightarrow>
               if nxt = 0 \<or> nxt = current_task s then Some (None, s)
               else let m1 = save_current_context resume (current_task s) c (kmem s);
                        m2 = set_task_state (current_task s) TASK_STATE_READY m1;
                        m3 = set_task_state nxt TASK_STATE_RUNNING m2;
                        (c', s1) = switch_to_task nxt c (s\<lparr>kmem := m3\<rparr>)
                    in Some (Some c', s1))"

end
