(* ===== verification/Task_List.thy ===== *)
theory Task_List
  imports Task
begin

text \<open>
  The list of tasks in memory: which bytes each access touches, the chain of \<open>next\<close> pointers as a
  list of addresses, and the scheduler's choice as a search through that list.
\<close>

section \<open>Ranges of bytes\<close>

definition span_of :: "u64 \<Rightarrow> u64 \<Rightarrow> u64 set" where
  "span_of a n = {x. x - a < n}"

definition changes_in :: "u64 set \<Rightarrow> bytes \<Rightarrow> bytes \<Rightarrow> bool" where
  "changes_in S m m' \<longleftrightarrow> (\<forall>x. x \<notin> S \<longrightarrow> m' x = m x)"

lemma changes_in_refl [simp]: "changes_in S m m"
  by (simp add: changes_in_def)

lemma changes_in_trans: "changes_in S m m1 \<Longrightarrow> changes_in S m1 m2 \<Longrightarrow> changes_in S m m2"
  by (simp add: changes_in_def)

lemma changes_in_mono: "changes_in S m m' \<Longrightarrow> S \<subseteq> T \<Longrightarrow> changes_in T m m'"
  unfolding changes_in_def by blast

lemma changes_store64: "span_of a 8 \<subseteq> S \<Longrightarrow> changes_in S m (store64 a v m)"
  by (auto simp: changes_in_def span_of_def store64_def)

lemma changes_store32: "span_of a 4 \<subseteq> S \<Longrightarrow> changes_in S m (store32 a v m)"
  by (auto simp: changes_in_def span_of_def store32_def)

lemma word_offset_bound: "x - a < n \<Longrightarrow> (x::u64) - b = (x - a) + (a - b)"
  by simp

text \<open>A field of a structure lies within the structure.\<close>

lemma span_of_sub:
  assumes "k \<le> n" and "n - k \<ge> j"
  shows "span_of (a + k) j \<subseteq> span_of a (n :: u64)"
proof
  fix x assume "x \<in> span_of (a + k) j"
  then have lt: "x - (a + k) < j" by (simp add: span_of_def)
  define d where "d = x - (a + k)"
  have x: "x - a = k + d" by (simp add: d_def)
  have "unat d < unat (n - k)" using lt assms(2) by (simp add: d_def word_less_nat_alt word_le_nat_alt)
  moreover have "unat (n - k) = unat n - unat k" using assms(1) by (rule unat_sub_no_wrap)
  moreover have "unat k \<le> unat n" using assms(1) by (simp add: word_le_nat_alt)
  ultimately have "unat k + unat d < unat n" by linarith
  moreover have "unat n < 2 ^ LENGTH(64)" by (rule unsigned_less)
  ultimately have "unat (k + d) < unat n" by (subst unat_add_no_wrap) linarith+
  then show "x \<in> span_of a n" by (simp add: span_of_def x word_less_nat_alt)
qed

lemma span_of_apart:
  assumes "k \<le> j" and "j \<le> j + n"
  shows "span_of a k \<inter> span_of (a + j) (n :: u64) = {}"
proof (rule ccontr)
  assume "span_of a k \<inter> span_of (a + j) n \<noteq> {}"
  then obtain x where x: "x - a < k" "x - (a + j) < n" by (auto simp: span_of_def)
  define d where "d = x - (a + j)"
  have xa: "x - a = j + d" by (simp add: d_def)
  have "unat (j + n) = unat j + unat n" using assms(2) by (simp add: unat_plus_simple)
  then have "unat j + unat n < 2 ^ LENGTH(64)" by (metis unsigned_less)
  moreover have "unat d < unat n" using x(2) by (simp add: d_def word_less_nat_alt)
  ultimately have "unat (j + d) = unat j + unat d" by (intro unat_add_no_wrap) linarith
  with x(1) assms(1) show False by (simp add: xa word_less_nat_alt word_le_nat_alt)
qed

lemma load64_changes: "changes_in S m m' \<Longrightarrow> span_of a 8 \<inter> S = {} \<Longrightarrow> load64 m' a = load64 m a"
proof (rule load64_cong)
  fix i :: nat assume a: "changes_in S m m'" "span_of a 8 \<inter> S = {}" and i: "i < 8"
  then have "of_nat i < (8::u64)" by (simp add: word_less_nat_alt wordnat)
  then have "a + of_nat i \<in> span_of a 8" by (simp add: span_of_def)
  with a show "m' (a + of_nat i) = m (a + of_nat i)" unfolding changes_in_def by blast
qed

lemma load32_changes: "changes_in S m m' \<Longrightarrow> span_of a 4 \<inter> S = {} \<Longrightarrow> load32 m' a = load32 m a"
  unfolding load32_def
proof (rule foldr_cong)
  fix i :: nat and w :: u32 assume a: "changes_in S m m'" "span_of a 4 \<inter> S = {}" and i: "i \<in> set [0..<4]"
  then have "of_nat i < (4::u64)" by (simp add: word_less_nat_alt wordnat)
  then have "a + of_nat i \<in> span_of a 4" by (simp add: span_of_def)
  with a have "m' (a + of_nat i) = m (a + of_nat i)" unfolding changes_in_def by blast
  then show "push_bit 8 w OR ucast (m' (a + of_nat i)) = push_bit 8 w OR ucast (m (a + of_nat i))" by simp
qed simp_all

lemma load32_store32_same [simp]: "load32 (store32 a v m) a = v"
proof -
  have u: "[0..<4] = [0, 1, 2, 3::nat]" by (simp add: upt_rec)
  have "bit (load32 (store32 a v m) a) n = bit v n" if n: "n < 32" for n
  proof -
    consider "n < 8" | "8 \<le> n" "n < 16" | "16 \<le> n" "n < 24" | "24 \<le> n" "n < 32" using n by linarith
    then show ?thesis unfolding load32_def store32_def u by cases (auto simp: bit_simps)
  qed
  then show ?thesis by (intro bit_word_eqI) simp
qed


section \<open>The chain of tasks\<close>

primrec chain :: "bytes \<Rightarrow> u64 \<Rightarrow> u64 list \<Rightarrow> bool" where
  "chain m a [] = (a = 0)"
| "chain m a (t # ts) = (a = t \<and> t \<noteq> 0 \<and> chain m (task_next m t) ts)"

abbreviation is_ready :: "bytes \<Rightarrow> u64 \<Rightarrow> bool" where
  "is_ready m t \<equiv> task_state m t = TASK_STATE_READY"

lemma chain_nonzero: "chain m a ts \<Longrightarrow> t \<in> set ts \<Longrightarrow> t \<noteq> 0"
  by (induction ts arbitrary: a) auto

lemma chain_append:
  "chain m a (xs @ t # ys) \<Longrightarrow> chain m (task_next m t) ys"
  by (induction xs arbitrary: a) auto

lemma chain_cong:
  "(\<And>t. t \<in> set ts \<Longrightarrow> task_next m' t = task_next m t) \<Longrightarrow> chain m' a ts = chain m a ts"
  by (induction ts arbitrary: a) auto

lemma chain_next_neq_0: "chain m a (t # u # ts) \<Longrightarrow> task_next m t = u \<and> u \<noteq> 0"
  by simp

lemma last_task_chain: "chain m a (xs @ [t]) \<Longrightarrow> last_task m a = Some t"
proof (induction xs arbitrary: a)
  case Nil
  then show ?case by (simp add: last_task.simps [of m t])
next
  case (Cons x xs)
  then have "task_next m x \<noteq> 0" by (cases xs) simp_all
  with Cons show ?case by (simp add: last_task.simps [of m x])
qed

lemma ready_from_chain:
  "chain m a ts \<Longrightarrow> ready_from m a = Some (case find (is_ready m) ts of None \<Rightarrow> 0 | Some t \<Rightarrow> t)"
proof (induction ts arbitrary: a)
  case Nil
  then show ?case by (simp add: ready_from.simps)
next
  case (Cons t ts)
  then show ?case by (simp add: ready_from.simps [of m t])
qed

lemma ready_until_chain:
  "chain m a (xs @ cur # ys) \<Longrightarrow> cur \<notin> set xs
     \<Longrightarrow> ready_until m cur a = Some (case find (is_ready m) xs of None \<Rightarrow> 0 | Some t \<Rightarrow> t)"
proof (induction xs arbitrary: a)
  case Nil
  then show ?case by (simp add: ready_until.simps [of m cur])
next
  case (Cons t ts)
  then show ?case by (auto simp: ready_until.simps [of m cur t])
qed

lemma find_nonzero: "find P ts = Some t \<Longrightarrow> t \<in> set ts \<and> P t"
  by (auto simp: find_Some_iff)

lemma find_append: "find P (xs @ ys) = (case find P xs of None \<Rightarrow> find P ys | Some x \<Rightarrow> Some x)"
  by (induction xs) simp_all

text \<open>The choice: the first ready task after the current one, going round.\<close>

definition round_robin :: "bytes \<Rightarrow> u64 list \<Rightarrow> u64 \<Rightarrow> u64" where
  "round_robin m ts cur =
     (case find (is_ready m) (tl (dropWhile (\<lambda>t. t \<noteq> cur) ts) @ takeWhile (\<lambda>t. t \<noteq> cur) ts) of
        None \<Rightarrow> 0 | Some t \<Rightarrow> t)"

lemma split_at_current:
  assumes "cur \<in> set ts"
  shows "ts = takeWhile (\<lambda>t. t \<noteq> cur) ts @ cur # tl (dropWhile (\<lambda>t. t \<noteq> cur) ts)"
proof -
  from assms have "dropWhile (\<lambda>t. t \<noteq> cur) ts \<noteq> []" by (simp add: dropWhile_eq_Nil_conv)
  then have "dropWhile (\<lambda>t. t \<noteq> cur) ts = cur # tl (dropWhile (\<lambda>t. t \<noteq> cur) ts)"
    using hd_dropWhile [of "\<lambda>t. t \<noteq> cur" ts] by (cases "dropWhile (\<lambda>t. t \<noteq> cur) ts") auto
  then show ?thesis by (metis takeWhile_dropWhile_id)
qed

lemma next_ready_round_robin:
  assumes ch: "chain (kmem s) (task_list s) ts" and cur: "current_task s \<in> set ts"
  shows "task_get_next_ready s = Some (round_robin (kmem s) ts (current_task s))"
proof -
  let ?cur = "current_task s" and ?m = "kmem s"
  let ?xs = "takeWhile (\<lambda>t. t \<noteq> ?cur) ts" and ?ys = "tl (dropWhile (\<lambda>t. t \<noteq> ?cur) ts)"
  have ch': "chain ?m (task_list s) (?xs @ ?cur # ?ys)" using ch split_at_current [OF cur] by simp
  have nz: "?cur \<noteq> 0" by (rule chain_nonzero [OF ch cur])
  have ny: "t \<noteq> 0" if "t \<in> set ?ys" for t using chain_nonzero [OF ch', of t] that by simp
  have x: "?cur \<notin> set ?xs" using set_takeWhileD by fastforce
  note a = ready_from_chain [OF chain_append [OF ch']]
  note b = ready_until_chain [OF ch' x]
  show ?thesis
    using nz a b ny find_nonzero [of "is_ready ?m" ?ys]
    by (auto simp: task_get_next_ready_def round_robin_def find_append split: option.splits)
qed

section \<open>Adding a task\<close>

definition tasks_apart :: "u64 list \<Rightarrow> bool" where
  "tasks_apart ts \<longleftrightarrow> distinct ts
     \<and> (\<forall>t \<in> set ts. \<forall>u \<in> set ts. t \<noteq> u \<longrightarrow> span_of t TASK_SIZE \<inter> span_of u TASK_SIZE = {})"

lemma task_fields_sub:
  "span_of (t + 160) 8 \<subseteq> span_of t TASK_SIZE" "span_of (t + 172) 4 \<subseteq> span_of t TASK_SIZE"
  "span_of t 160 \<subseteq> span_of t TASK_SIZE"
  using span_of_sub [of 160 184 8 t] span_of_sub [of 172 184 4 t] span_of_sub [of 0 184 160 t]
  by (simp_all add: TASK_SIZE_def)

lemma task_next_changes:
  "changes_in S m m' \<Longrightarrow> span_of (t + 160) 8 \<inter> S = {} \<Longrightarrow> task_next m' t = task_next m t"
  by (simp add: task_next_def load64_changes)

lemma task_state_changes:
  "changes_in S m m' \<Longrightarrow> span_of (t + 172) 4 \<inter> S = {} \<Longrightarrow> task_state m' t = task_state m t"
  by (simp add: task_state_def load32_changes)

lemma set_next_same [simp]: "task_next (set_task_next t v m) t = v"
  by (simp add: task_next_def set_task_next_def)

lemma set_state_same [simp]: "task_state (set_task_state t v m) t = v"
  by (simp add: task_state_def set_task_state_def)

lemma set_next_changes: "changes_in (span_of (t + 160) 8) m (set_task_next t v m)"
  by (simp add: set_task_next_def changes_store64)

lemma set_state_changes: "changes_in (span_of (t + 172) 4) m (set_task_state t v m)"
  by (simp add: set_task_state_def changes_store32)

lemma chain_set_next:
  assumes "chain m a (ts @ [t])" and "tasks_apart (ts @ [t, u])" and "u \<noteq> 0" and "task_next m u = 0"
  shows "chain (set_task_next t u m) a (ts @ [t, u])"
proof -
  have nx: "task_next (set_task_next t u m) v = task_next m v" if "v \<in> set ts \<union> {u}" for v
  proof -
    from that assms(2) have "v \<noteq> t" "span_of v TASK_SIZE \<inter> span_of t TASK_SIZE = {}"
      by (auto simp: tasks_apart_def)
    then show ?thesis
      using task_next_changes [OF set_next_changes [of t m u], of v] task_fields_sub(1) by blast
  qed
  have "chain m a (ts @ [t]) \<Longrightarrow> set ts \<subseteq> set ts0 \<Longrightarrow> (\<And>v. v \<in> set ts0 \<Longrightarrow> task_next (set_task_next t u m) v = task_next m v)
      \<Longrightarrow> chain (set_task_next t u m) a (ts @ [t, u])" for a ts0
    using assms(3,4) nx [of u] by (induction ts arbitrary: a) auto
  with assms(1) nx show ?thesis by blast
qed

lemma task_add_chain:
  assumes "chain (kmem s) (task_list s) ts" and "tasks_apart (ts @ [u])" and "u \<noteq> 0" and "task_next (kmem s) u = 0"
  shows "\<exists>s'. task_add u s = Some s' \<and> chain (kmem s') (task_list s') (ts @ [u]) \<and> current_task s' = current_task s"
proof (cases ts rule: rev_cases)
  case Nil
  then show ?thesis using assms by (auto simp: task_add_def)
next
  case (snoc xs t)
  have "task_list s \<noteq> 0" using assms(1) snoc by (cases xs) auto
  moreover have "last_task (kmem s) (task_list s) = Some t" using last_task_chain assms(1) snoc by blast
  ultimately show ?thesis
    using chain_set_next [of "kmem s" "task_list s" xs t u] assms snoc by (auto simp: task_add_def)
qed

end
