(* ===== verification/Task_Switch.thy ===== *)
theory Task_Switch
  imports Task_List
begin

text \<open>
  The context switch and the timer tick: which memory the assembly routines write, the frame
  \<open>switch_to_task\<close> hands to \<open>iretq\<close>, and what a tick leaves in the list of tasks.
\<close>

lemma changes_then_store64:
  "changes_in S m m' \<Longrightarrow> span_of a 8 \<subseteq> S \<Longrightarrow> changes_in S m (store64 a v m')"
  by (rule changes_in_trans [OF _ changes_store64])

section \<open>Pushing\<close>

lemma push_simps [simp]: "fst (push v st) = fst st - 8" "snd (push v st) = store64 (fst st - 8) v (snd st)"
  by (simp_all add: push_def)

lemma fold_push:
  assumes "length xs = n" and "n < 2 ^ 32"
  shows "fst (fold (\<lambda>x st. push (f x st) st) xs st) = fst st - 8 * of_nat n
    \<and> changes_in (span_of (fst st - 8 * of_nat n) (8 * of_nat n)) (snd st)
         (snd (fold (\<lambda>x st. push (f x st) st) xs st))"
  using assms
proof (induction xs arbitrary: n st)
  case (Cons x xs)
  let ?b = "fst st - 8 * of_nat n" and ?N = "8 * of_nat n :: u64"
  let ?st = "push (f x st) st" and ?k = "8 * of_nat (length xs) :: u64"
  have n: "n = Suc (length xs)" using Cons.prems(1) by simp
  have u: "unat ?N = 8 * n" "unat ?k = 8 * length xs" using Cons.prems(2) n by (simp_all add: unat_word_ariths unat_of_nat)
  have kN: "?k \<le> ?N" unfolding word_le_nat_alt u using n by simp
  have "unat (?N - ?k) = 8" unfolding unat_sub_no_wrap [OF kN] u using n by simp
  then have "8 \<le> ?N - ?k" unfolding word_le_nat_alt by simp
  with kN have "span_of (?b + ?k) 8 \<subseteq> span_of ?b ?N" by (rule span_of_sub)
  moreover have "?b + ?k = fst st - 8" by (simp add: n algebra_simps)
  ultimately have first: "changes_in (span_of ?b ?N) (snd st) (snd ?st)" by (simp add: changes_store64)
  have e: "fst ?st - ?k = ?b" by (simp add: n algebra_simps)
  from kN have sub: "span_of ?b ?k \<subseteq> span_of ?b ?N" using span_of_sub [of 0 ?N ?k ?b] by simp
  have lt: "length xs < 2 ^ 32" using Cons.prems by simp
  note IH = Cons.IH [OF refl lt, of ?st, unfolded e]
  have "changes_in (span_of ?b ?N) (snd ?st) (snd (fold (\<lambda>x st. push (f x st) st) (x # xs) st))"
    using IH sub by (auto intro: changes_in_mono)
  moreover have "fst (fold (\<lambda>x st. push (f x st) st) (x # xs) st) = ?b" using IH by simp
  ultimately show ?case using first changes_in_trans by blast
qed simp

lemma stack_apart:
  assumes "j < k" and "k < 2 ^ 32"
  shows "apart8 (a - 8 * of_nat j) (a - 8 * of_nat k)"
proof -
  obtain d where d: "k = j + d" "0 < d" using assms(1) less_imp_add_positive by blast
  have u: "unat (8 * of_nat d :: u64) = 8 * d" using d assms(2) by (simp add: unat_word_ariths unat_of_nat)
  have e: "a - 8 * of_nat j - (a - 8 * of_nat k) = (8 * of_nat d :: u64)"
    "a - 8 * of_nat k - (a - 8 * of_nat j) = (- (8 * of_nat d) :: u64)"
    by (simp_all add: d algebra_simps)
  have "unat (- (8 * of_nat d) :: u64) = 2 ^ 64 - 8 * d"
    using u d(2) unat_sub_if' [of 0 "8 * of_nat d :: u64"] by (simp add: word_le_nat_alt)
  with u d assms(2) show ?thesis unfolding apart8_def e word_le_nat_alt by simp
qed

section \<open>Saving\<close>

text \<open>The memory a save writes: the first 160 bytes of the structure and the stack below RSP.\<close>

definition save_area :: "u64 \<Rightarrow> cpu \<Rightarrow> u64 set" where
  "save_area t c = span_of t 160 \<union> span_of (rsp c - 128) 128"

lemma slot_sub: "k \<le> 152 \<Longrightarrow> span_of (t + k) 8 \<subseteq> span_of t (160::u64)"
proof (rule span_of_sub)
  assume "k \<le> 152"
  then have k: "unat k \<le> 152" by (simp add: word_le_nat_alt)
  then show le: "k \<le> 160" by (simp add: word_le_nat_alt)
  show "8 \<le> 160 - k" using k by (simp add: word_le_nat_alt unat_sub_no_wrap [OF le])
qed

lemma fold_slots:
  "(\<And>off x. (off, x) \<in> set ls \<Longrightarrow> span_of (t + off) 8 \<subseteq> S)
    \<Longrightarrow> changes_in S m (fold (\<lambda>(off, x). store64 (t + off) (r x)) ls m)"
proof (induction ls arbitrary: m)
  case (Cons l ls)
  obtain off x where l: "l = (off, x)" by (cases l)
  have "changes_in S m (store64 (t + off) (r x) m)" using Cons.prems [of off x] l by (intro changes_store64) simp
  with Cons.IH [of "store64 (t + off) (r x) m"] Cons.prems show ?case by (auto simp: l intro: changes_in_trans)
qed simp

lemma save_changes: "changes_in (save_area t c) m (save_current_context resume t c m)"
proof -
  let ?S = "save_area t c" and ?r = "(gpr c)(RDI := t)"
  have slot: "span_of (t + k) 8 \<subseteq> ?S" if "k \<le> 152" for k
    using slot_sub [OF that] by (auto simp: save_area_def)
  define m1 where "m1 = store64 (t + 136) (rsp c) m"
  define st where "st = fold (\<lambda>x. push (?r x)) push_order (rsp c, m1)"
  define m2 where "m2 = fold (\<lambda>(off, x). store64 (t + off) (?r x)) reg_slots (snd st)"
  define m3 where "m3 = snd (push (rflags c) (fst st, m2))"
  have len: "length push_order = 15" by (simp add: push_order_def)
  have st': "fst st = rsp c - 120" "changes_in (span_of (rsp c - 120) 120) m1 (snd st)"
    using fold_push [OF len, of "\<lambda>x _. ?r x" "(rsp c, m1)"] by (simp_all add: st_def)
  have "span_of (rsp c - 128 + 8) 120 \<subseteq> span_of (rsp c - 128) 128" by (rule span_of_sub) simp_all
  then have stk: "span_of (rsp c - 120) 120 \<subseteq> ?S" by (auto simp: save_area_def)
  have "span_of (rsp c - 128 + 0) 8 \<subseteq> span_of (rsp c - 128) 128" by (rule span_of_sub) simp_all
  then have fl: "span_of (rsp c - 128) 8 \<subseteq> ?S" by (auto simp: save_area_def)
  have "changes_in ?S m m1" unfolding m1_def by (intro changes_store64 slot) simp_all
  moreover have "changes_in ?S m1 (snd st)" using st'(2) stk by (rule changes_in_mono)
  moreover have "changes_in ?S (snd st) m2"
    unfolding m2_def by (rule fold_slots) (rule slot, auto simp: reg_slots_def)
  moreover have "changes_in ?S m2 m3" using fl by (simp add: m3_def st'(1) changes_store64)
  ultimately have "changes_in ?S m m3" by (blast intro: changes_in_trans)
  moreover have "changes_in ?S m3 (save_current_context resume t c m)"
    unfolding save_current_context_def Let_def m3_def [symmetric] m2_def [symmetric] st_def [symmetric] m1_def [symmetric]
    by (intro changes_then_store64 changes_in_refl slot) simp_all
  ultimately show ?thesis by (rule changes_in_trans)
qed


section \<open>Switching\<close>

lemma frame_slots:
  "apart8 (a - 8) (a - 16)" "apart8 (a - 8) (a - 24)" "apart8 (a - 8) (a - 32)" "apart8 (a - 8) (a - 40)"
  "apart8 (a - 16) (a - 24)" "apart8 (a - 16) (a - 32)" "apart8 (a - 16) (a - 40)"
  "apart8 (a - 24) (a - 32)" "apart8 (a - 24) (a - 40)" "apart8 (a - 32) (a - 40)"
  by (simp_all add: apart8_def)

lemma apart8_sym: "apart8 a b \<Longrightarrow> apart8 b a"
  by (simp add: apart8_def)

definition switch_pushes :: "u64 \<Rightarrow> cpu \<Rightarrow> bytes \<Rightarrow> u64 \<times> bytes" where
  "switch_pushes t c m = fold (\<lambda>off st. push (load64 (snd st) (t + off)) st) [144, 136, 128, 152, 120] (rsp c, m)"

lemma switch_pushes_area:
  "fst (switch_pushes t c m) = rsp c - 40" "changes_in (span_of (rsp c - 40) 40) m (snd (switch_pushes t c m))"
  using fold_push [of "[144, 136, 128, 152, 120]" 5 "\<lambda>off st. load64 (snd st) (t + off)" "(rsp c, m)"]
  by (simp_all add: switch_pushes_def)

lemma switch_memory: "kmem (snd (switch_to_task t c s)) = snd (switch_pushes t c (kmem s))"
  by (simp add: switch_to_task_def switch_pushes_def Let_def klog_def)

lemma switch_fields [simp]:
  "task_list (snd (switch_to_task t c s)) = task_list s" "current_task (snd (switch_to_task t c s)) = current_task s"
  by (simp_all add: switch_to_task_def Let_def klog_def)

text \<open>What is on the stack when \<open>iretq\<close> runs, for a task outside the stack.\<close>

lemma switch_frame:
  fixes s :: "'a tasking_scheme"
  assumes t: "span_of t TASK_SIZE \<inter> span_of (rsp c - 40) 40 = {}"
  defines "c' \<equiv> fst (switch_to_task t c s)"
  shows "rip c' = load64 (kmem s) (t + 120)" "cs c' = load64 (kmem s) (t + 152)" "rflags c' = load64 (kmem s) (t + 128)"
    "rsp c' = load64 (kmem s) (t + 136)" "ss c' = load64 (kmem s) (t + 144)"
proof -
  let ?m = "kmem s" and ?sp = "rsp c"
  have rd: "load64 m' (t + k) = load64 ?m (t + k)"
    if m': "changes_in (span_of (?sp - 40) 40) ?m m'" and k: "k \<le> 152" for m' k
  proof -
    have "span_of (t + k) 8 \<subseteq> span_of t TASK_SIZE" using slot_sub [OF k] task_fields_sub(3) by blast
    with t show ?thesis by (intro load64_changes [OF m']) blast
  qed
  have pu: "changes_in (span_of (?sp - 40) 40) ?m (store64 (?sp - 40 + k) v m')"
    if "changes_in (span_of (?sp - 40) 40) ?m m'" "k \<le> 32" for k v m'
  proof (rule changes_then_store64 [OF that(1)], rule span_of_sub)
    have "unat k \<le> 32" using that(2) by (simp add: word_le_nat_alt)
    then show le: "k \<le> 40" by (simp add: word_le_nat_alt)
    show "8 \<le> 40 - k" using \<open>unat k \<le> 32\<close> by (simp add: word_le_nat_alt unat_sub_no_wrap [OF le])
  qed
  define m1 where "m1 = store64 (?sp - 8) (load64 ?m (t + 144)) ?m"
  define m2 where "m2 = store64 (?sp - 16) (load64 ?m (t + 136)) m1"
  define m3 where "m3 = store64 (?sp - 24) (load64 ?m (t + 128)) m2"
  define m4 where "m4 = store64 (?sp - 32) (load64 ?m (t + 152)) m3"
  define m5 where "m5 = store64 (?sp - 40) (load64 ?m (t + 120)) m4"
  have c1: "changes_in (span_of (?sp - 40) 40) ?m m1" using pu [OF changes_in_refl, of 32] by (simp add: m1_def)
  have c2: "changes_in (span_of (?sp - 40) 40) ?m m2" using pu [OF c1, of 24] by (simp add: m2_def)
  have c3: "changes_in (span_of (?sp - 40) 40) ?m m3" using pu [OF c2, of 16] by (simp add: m3_def)
  have c4: "changes_in (span_of (?sp - 40) 40) ?m m4" using pu [OF c3, of 8] by (simp add: m4_def)
  let ?P = "switch_pushes t c ?m"
  have raw: "rip c' = load64 (snd ?P) (fst ?P)" "cs c' = load64 (snd ?P) (fst ?P + 8)" "rflags c' = load64 (snd ?P) (fst ?P + 16)"
    "rsp c' = load64 (snd ?P) (fst ?P + 24)" "ss c' = load64 (snd ?P) (fst ?P + 32)"
    unfolding c'_def switch_to_task_def switch_pushes_def Let_def iretq_def by simp_all
  have "?P = (?sp - 40, m5)"
    using rd [OF c1, of 136] rd [OF c2, of 128] rd [OF c3, of 152] rd [OF c4, of 120]
    by (simp add: switch_pushes_def push_def m5_def m4_def m3_def m2_def m1_def)
  then have c': "rip c' = load64 m5 (?sp - 40)" "cs c' = load64 m5 (?sp - 32)" "rflags c' = load64 m5 (?sp - 24)"
    "rsp c' = load64 m5 (?sp - 16)" "ss c' = load64 m5 (?sp - 8)"
    by (simp_all add: raw)
  show "rip c' = load64 ?m (t + 120)" "cs c' = load64 ?m (t + 152)" "rflags c' = load64 ?m (t + 128)"
    "rsp c' = load64 ?m (t + 136)" "ss c' = load64 ?m (t + 144)"
    unfolding c' by (simp_all add: m5_def m4_def m3_def m2_def m1_def load64_store64_other frame_slots apart8_sym)
qed

text \<open>A task that \<open>task_init\<close> has just filled in: every field at the offset the C compiler gives it.\<close>

lemma task_init_fields:
  fixes t entry stack_top :: u64 and tid :: u32 and m :: bytes
  defines "m' \<equiv> task_init t entry stack_top tid m"
  shows "load64 m' (t + 120) = entry" "load64 m' (t + 128) = 0x08" "load64 m' (t + 136) = 0x202"
    "load64 m' (t + 144) = stack_top" "load64 m' (t + 152) = 0x10"
    "task_next m' t = 0" "task_state m' t = TASK_STATE_READY"
proof -
  have far: "load64 (store32 (t + 168) v m) (t + k) = load64 m (t + k)"
    "load64 (store32 (t + 172) v m) (t + k) = load64 m (t + k)" if k: "k \<le> 152" for v m k
    using span_of_apart [of 160 168 4 t] span_of_apart [of 160 172 4 t] slot_sub [OF k, of t]
    by (auto intro!: load64_changes [OF changes_store32 [OF subset_refl]])
  have a: "apart8 (t + j) (t + k)" if "8 \<le> k - j" "8 \<le> j - k" for j k :: u64
    using that by (simp add: apart8_def)
  show "load64 m' (t + 120) = entry" "load64 m' (t + 128) = 0x08" "load64 m' (t + 136) = 0x202"
    "load64 m' (t + 144) = stack_top" "load64 m' (t + 152) = 0x10"
    by (simp_all add: m'_def task_init_def Let_def set_task_next_def set_task_state_def load64_store64_other a far)
  show "task_next m' t = 0" by (simp add: m'_def task_init_def Let_def)
  have "span_of (t + 172) 4 \<inter> span_of (t + 160) 8 = {}"
    using span_of_apart [of 8 12 4 "t + 160"] by (auto simp: add.assoc)
  moreover have "span_of (t + 172) 4 \<inter> span_of (t + 176) 8 = {}"
    using span_of_apart [of 4 4 8 "t + 172"] by (simp add: add.assoc)
  ultimately show "task_state m' t = TASK_STATE_READY"
    unfolding m'_def task_init_def Let_def
    by (simp add: task_state_changes [OF set_next_changes] task_state_changes [OF changes_store64 [OF subset_refl]])
qed


section \<open>The tick\<close>

text \<open>A list of disjoint task structures with the current task among them, and the interrupted code's
  stack outside of them.\<close>

definition tasks_ok :: "cpu \<Rightarrow> u64 list \<Rightarrow> 'a tasking_scheme \<Rightarrow> bool" where
  "tasks_ok c ts s \<longleftrightarrow> chain (kmem s) (task_list s) ts \<and> tasks_apart ts \<and> current_task s \<in> set ts
     \<and> (\<forall>t \<in> set ts. span_of t TASK_SIZE \<inter> span_of (rsp c - 128) 128 = {})"

definition waiting :: "u64 list \<Rightarrow> 'a tasking_scheme \<Rightarrow> u64 set" where
  "waiting ts s = {t \<in> set ts. t \<noteq> current_task s \<and> is_ready (kmem s) t}"

lemma round_robin_waiting:
  assumes "tasks_ok c ts s"
  defines "n \<equiv> round_robin (kmem s) ts (current_task s)"
  shows "n = 0 \<longleftrightarrow> waiting ts s = {}" and "n \<noteq> 0 \<Longrightarrow> n \<in> waiting ts s"
proof -
  let ?cur = "current_task s" and ?m = "kmem s"
  let ?xs = "takeWhile (\<lambda>t. t \<noteq> ?cur) ts" and ?ys = "tl (dropWhile (\<lambda>t. t \<noteq> ?cur) ts)"
  have ts: "ts = ?xs @ ?cur # ?ys" using assms(1) by (intro split_at_current) (simp add: tasks_ok_def)
  have d: "distinct (?xs @ ?cur # ?ys)" using assms(1) ts by (simp add: tasks_ok_def tasks_apart_def)
  have S: "set (?ys @ ?xs) = set ts - {?cur}"
    using d arg_cong [OF ts, of set] by auto
  have nz: "t \<noteq> 0" if "t \<in> set ts" for t using chain_nonzero that assms(1) unfolding tasks_ok_def by blast
  have w: "waiting ts s = {t \<in> set (?ys @ ?xs). is_ready ?m t}" unfolding S by (auto simp: waiting_def)
  have n: "n = (case find (is_ready ?m) (?ys @ ?xs) of None \<Rightarrow> 0 | Some t \<Rightarrow> t)"
    by (simp add: n_def round_robin_def)
  show "n = 0 \<longleftrightarrow> waiting ts s = {}"
  proof (cases "find (is_ready ?m) (?ys @ ?xs)")
    case None
    from None [unfolded find_None_iff] show ?thesis unfolding w n None by auto
  next
    case (Some t)
    from find_nonzero [OF Some] nz [of t] S show ?thesis unfolding w n Some by auto
  qed
  show "n \<noteq> 0 \<Longrightarrow> n \<in> waiting ts s"
    unfolding w n using find_nonzero [of "is_ready ?m" "?ys @ ?xs"]
    by (cases "find (is_ready ?m) (?ys @ ?xs)") auto
qed

text \<open>Which ranges are apart on such a list.\<close>

lemma tasks_ok_apart:
  assumes ok: "tasks_ok c ts s" and t: "t \<in> set ts" and u: "u \<in> set ts"
  shows "t \<noteq> u \<Longrightarrow> span_of t TASK_SIZE \<inter> span_of u TASK_SIZE = {}"
    and "span_of (t + 160) 8 \<inter> span_of (u + 172) 4 = {}"
    and "t \<noteq> u \<Longrightarrow> span_of (t + 172) 4 \<inter> span_of (u + 172) 4 = {}"
    and "span_of (t + 172) 4 \<inter> save_area u c = {}" and "span_of (t + 160) 8 \<inter> save_area u c = {}"
    and "span_of t TASK_SIZE \<inter> span_of (rsp c - 128) 128 = {}"
    and "t \<noteq> u \<Longrightarrow> span_of t 160 \<inter> save_area u c = {}" and "span_of t 160 \<inter> span_of (u + 172) 4 = {}"
proof -
  show stk: "span_of t TASK_SIZE \<inter> span_of (rsp c - 128) 128 = {}" using ok t by (simp add: tasks_ok_def)
  have apart: "t \<noteq> u \<Longrightarrow> span_of t TASK_SIZE \<inter> span_of u TASK_SIZE = {}"
    using ok t u by (auto simp: tasks_ok_def tasks_apart_def)
  then show "t \<noteq> u \<Longrightarrow> span_of t TASK_SIZE \<inter> span_of u TASK_SIZE = {}" .
  note sub = task_fields_sub [of t] task_fields_sub [of u]
  show "span_of (t + 160) 8 \<inter> span_of (u + 172) 4 = {}"
    using span_of_apart [of 8 12 4 "t + 160"] apart sub by (cases "t = u") (simp add: add.assoc, blast)
  show "t \<noteq> u \<Longrightarrow> span_of (t + 172) 4 \<inter> span_of (u + 172) 4 = {}" using apart sub by blast
  show "span_of (t + 172) 4 \<inter> save_area u c = {}"
    using span_of_apart [of 160 172 4 t] apart stk sub unfolding save_area_def by (cases "t = u") (simp, blast)+
  show "span_of (t + 160) 8 \<inter> save_area u c = {}"
    using span_of_apart [of 160 160 8 t] apart stk sub unfolding save_area_def by (cases "t = u") (simp, blast)+
  show "t \<noteq> u \<Longrightarrow> span_of t 160 \<inter> save_area u c = {}" using apart stk sub unfolding save_area_def by blast
  show "span_of t 160 \<inter> span_of (u + 172) 4 = {}"
    using span_of_apart [of 160 172 4 t] apart sub by (cases "t = u") (simp, blast)
qed

text \<open>The memory of a tick: a save of the current task, the two state changes, and the frame.\<close>

lemma handover_memory:
  fixes s :: "'a tasking_scheme"
  assumes ok: "tasks_ok c ts s" and n: "n \<in> set ts" "n \<noteq> current_task s"
    and c1: "changes_in (save_area (current_task s) c) (kmem s) m1"
    and c4: "changes_in (span_of (rsp c - 128) 128) m3 m4"
  defines "m2 \<equiv> set_task_state (current_task s) TASK_STATE_READY m1"
  assumes m3: "m3 = set_task_state n TASK_STATE_RUNNING m2"
  shows "t \<in> set ts \<Longrightarrow> task_next m4 t = task_next (kmem s) t"
    and "t \<in> set ts \<Longrightarrow> task_state m4 t = (if t = current_task s then TASK_STATE_READY
            else if t = n then TASK_STATE_RUNNING else task_state (kmem s) t)"
    and "k \<le> 152 \<Longrightarrow> load64 m3 (n + k) = load64 (kmem s) (n + k)"
proof -
  let ?cur = "current_task s" and ?m = "kmem s"
  have cur: "?cur \<in> set ts" using ok by (simp add: tasks_ok_def)
  have c2: "changes_in (span_of (?cur + 172) 4) m1 m2" unfolding m2_def by (rule set_state_changes)
  have c3: "changes_in (span_of (n + 172) 4) m2 m3" unfolding m3 by (rule set_state_changes)
  note ap = tasks_ok_apart [OF ok]
  { assume t: "t \<in> set ts"
    have "task_next m4 t = task_next m3 t"
      using ap(6) [OF t t] task_fields_sub(1) [of t] by (intro task_next_changes [OF c4]) blast
    also have "\<dots> = task_next m2 t" by (rule task_next_changes [OF c3 ap(2) [OF t n(1)]])
    also have "\<dots> = task_next m1 t" by (rule task_next_changes [OF c2 ap(2) [OF t cur]])
    also have "\<dots> = task_next ?m t" by (rule task_next_changes [OF c1 ap(5) [OF t cur]])
    finally show "task_next m4 t = task_next ?m t" .
  next
    assume t: "t \<in> set ts"
    have "task_state m4 t = task_state m3 t"
      using ap(6) [OF t t] task_fields_sub(2) [of t] by (intro task_state_changes [OF c4]) blast
    moreover have "t \<noteq> n \<Longrightarrow> task_state m3 t = task_state m2 t"
      by (rule task_state_changes [OF c3 ap(3) [OF t n(1)]])
    moreover have "t \<noteq> ?cur \<Longrightarrow> task_state m2 t = task_state m1 t"
      by (rule task_state_changes [OF c2 ap(3) [OF t cur]])
    moreover have "task_state m1 t = task_state ?m t" by (rule task_state_changes [OF c1 ap(4) [OF t cur]])
    moreover have "task_state m2 ?cur = TASK_STATE_READY" "task_state m3 n = TASK_STATE_RUNNING"
      by (simp_all add: m2_def m3)
    ultimately show "task_state m4 t = (if t = ?cur then TASK_STATE_READY
        else if t = n then TASK_STATE_RUNNING else task_state ?m t)" using n(2) by auto
  next
    assume k: "k \<le> 152"
    note s1 = slot_sub [OF k, of n]
    have "load64 m3 (n + k) = load64 m2 (n + k)"
      using s1 ap(8) [OF n(1) n(1)] by (intro load64_changes [OF c3]) blast
    also have "\<dots> = load64 m1 (n + k)"
      using s1 ap(8) [OF n(1) cur] by (intro load64_changes [OF c2]) blast
    also have "\<dots> = load64 ?m (n + k)"
      using s1 ap(7) [OF n(1) cur n(2)] by (intro load64_changes [OF c1]) blast
    finally show "load64 m3 (n + k) = load64 ?m (n + k)" . }
qed

lemma tick_idle:
  assumes "tasks_ok c ts s" and "round_robin (kmem s) ts (current_task s) = 0"
  shows "task_scheduler_tick resume c s = Some (None, s)"
  using assms next_ready_round_robin [of s ts] by (simp add: task_scheduler_tick_def tasks_ok_def)

lemma tick_switches:
  fixes s :: "'a tasking_scheme"
  assumes ok: "tasks_ok c ts s" and n: "n = round_robin (kmem s) ts (current_task s)" "n \<noteq> 0"
  shows "\<exists>c' s'. task_scheduler_tick resume c s = Some (Some c', s') \<and> tasks_ok c ts s'
      \<and> current_task s' = current_task s \<and> task_list s' = task_list s
      \<and> rip c' = load64 (kmem s) (n + 120) \<and> rsp c' = load64 (kmem s) (n + 136)
      \<and> (\<forall>t \<in> set ts. task_state (kmem s') t = (if t = current_task s then TASK_STATE_READY
            else if t = n then TASK_STATE_RUNNING else task_state (kmem s) t))"
proof -
  let ?cur = "current_task s" and ?m = "kmem s"
  have ch: "chain ?m (task_list s) ts" and cur: "?cur \<in> set ts" using ok by (simp_all add: tasks_ok_def)
  have c0: "?cur \<noteq> 0" by (rule chain_nonzero [OF ch cur])
  note g = next_ready_round_robin [OF ch cur, folded n(1)]
  have nw: "n \<in> set ts" "n \<noteq> ?cur" using round_robin_waiting(2) [OF ok, folded n(1), OF n(2)] by (auto simp: waiting_def)
  define m1 where "m1 = save_current_context resume ?cur c ?m"
  define m3 where "m3 = set_task_state n TASK_STATE_RUNNING (set_task_state ?cur TASK_STATE_READY m1)"
  obtain c' s' where sw: "switch_to_task n c (s\<lparr>kmem := m3\<rparr>) = (c', s')" by fastforce
  have tick: "task_scheduler_tick resume c s = Some (Some c', s')"
    using c0 g n nw sw by (simp add: task_scheduler_tick_def m1_def m3_def Let_def)
  have m4: "kmem s' = snd (switch_pushes n c m3)" "task_list s' = task_list s" "current_task s' = ?cur"
    using switch_memory [of n c "s\<lparr>kmem := m3\<rparr>"] switch_fields [of n c "s\<lparr>kmem := m3\<rparr>"] sw by simp_all
  have sub: "span_of (rsp c - 40) 40 \<subseteq> span_of (rsp c - 128) 128"
    using span_of_sub [of 88 128 40 "rsp c - 128"] by simp
  have c1: "changes_in (save_area ?cur c) ?m m1" unfolding m1_def by (rule save_changes)
  have c4: "changes_in (span_of (rsp c - 128) 128) m3 (kmem s')"
    unfolding m4(1) using switch_pushes_area(2) sub by (rule changes_in_mono)
  note mem = handover_memory [OF ok nw c1 c4 m3_def]
  have "span_of n TASK_SIZE \<inter> span_of (rsp c - 40) 40 = {}" using tasks_ok_apart(6) [OF ok nw(1) nw(1)] sub by blast
  from switch_frame [OF this, of "s\<lparr>kmem := m3\<rparr>"] sw mem(3)
  have "rip c' = load64 ?m (n + 120)" "rsp c' = load64 ?m (n + 136)" by simp_all
  moreover have "chain (kmem s') (task_list s') ts" using chain_cong [of ts "kmem s'" ?m] mem(1) ch m4(2) by simp
  then have "tasks_ok c ts s'" using ok m4(3) by (simp add: tasks_ok_def)
  ultimately show ?thesis using tick m4(2,3) mem(2) by blast
qed

end
