(* ===== verification/Task_Resume.thy ===== *)
theory Task_Resume
  imports Task_Switch
begin

text \<open>
  The two halves of a context switch put together (context_switch.asm): what \<open>save_current_context\<close>
  has left in the structure of a task, what \<open>switch_to_task\<close> loads from it when the task is chosen
  again, and where the code at the label \<open>.return\<close> goes from there.
\<close>

section \<open>The code around the two routines\<close>

text \<open>\<open>.return\<close>: drop the fifteen words pushed and return. It is reached at the end of a save, and
  again when \<open>iretq\<close> enters a task that was saved.\<close>

definition context_return :: "bytes \<Rightarrow> cpu \<Rightarrow> cpu" where
  "context_return m c = c\<lparr>rip := load64 m (rsp c + 15 * 8), rsp := rsp c + 15 * 8 + 8\<rparr>"

text \<open>\<open>test_task_entry\<close>: one character to the serial port, then \<open>hlt\<close> for ever.\<close>

definition test_task_entry :: "cpu \<Rightarrow> 'a tasking_scheme \<Rightarrow> cpu \<times> 'a tasking_scheme" where
  "test_task_entry c s =
     (let r = (gpr c)(RDX := mov_dx 0x3F8 (gpr c RDX));
          r1 = r(RAX := mov_al 0x58 (r RAX))
      in (c\<lparr>gpr := r1\<rparr>, klog ''X'' s))"

section \<open>What a save leaves in the structure\<close>

definition saved_reg :: "u64 \<Rightarrow> cpu \<Rightarrow> reg \<Rightarrow> u64" where
  "saved_reg t c = (gpr c)(RDI := t)"

lemma stored_slots:
  "(off, x) \<in> set reg_slots \<Longrightarrow> load64 (fold (\<lambda>(off, x). store64 (t + off) (r x)) reg_slots m) (t + off) = r x"
  by (auto simp: reg_slots_def load64_store64_other apart8_def)

lemma slots_below: "(off, x) \<in> set reg_slots \<Longrightarrow> off \<le> 112"
  by (auto simp: reg_slots_def)


lemma saved_structure:
  fixes t resume :: u64 and c :: cpu and m :: bytes
  assumes t: "span_of t 160 \<inter> span_of (rsp c - 128) 128 = {}"
  defines "m' \<equiv> save_current_context resume t c m"
  shows "(off, x) \<in> set reg_slots \<Longrightarrow> load64 m' (t + off) = saved_reg t c x"
    and "load64 m' (t + 120) = resume" "load64 m' (t + 128) = rflags c" "load64 m' (t + 136) = rsp c"
      "load64 m' (t + 144) = 0x10" "load64 m' (t + 152) = 0x08"
proof -
  let ?r = "(gpr c)(RDI := t)"
  define m1 where "m1 = store64 (t + 136) (rsp c) m"
  define st where "st = fold (\<lambda>x. push (?r x)) push_order (rsp c, m1)"
  define m2 where "m2 = fold (\<lambda>(off, x). store64 (t + off) (?r x)) reg_slots (snd st)"
  define m3 where "m3 = snd (push (rflags c) (fst st, m2))"
  have m': "m' = store64 (t + 152) 0x08 (store64 (t + 144) 0x10 (store64 (t + 120) resume (store64 (t + 128) (rflags c) m3)))"
    by (simp add: m'_def save_current_context_def m1_def st_def m2_def m3_def Let_def)
  have len: "length push_order = 15" by (simp add: push_order_def)
  have st': "fst st = rsp c - 120" "changes_in (span_of (rsp c - 120) 120) m1 (snd st)"
    using fold_push [OF len, of "\<lambda>x _. ?r x" "(rsp c, m1)"] by (simp_all add: st_def)
  have stk: "span_of (rsp c - 120) 120 \<subseteq> span_of (rsp c - 128) 128" "span_of (rsp c - 128) 8 \<subseteq> span_of (rsp c - 128) 128"
    using span_of_sub [of 8 128 120 "rsp c - 128"] span_of_sub [of 0 128 8 "rsp c - 128"] by simp_all
  have c12: "load64 (snd st) (t + k) = load64 m1 (t + k)" if "k \<le> 152" for k
    using slot_sub [OF that, of t] t stk by (intro load64_changes [OF st'(2)]) blast
  have c3: "changes_in (span_of (rsp c - 128) 8) m2 m3" by (simp add: m3_def st'(1) changes_store64)
  have c23: "load64 m3 (t + k) = load64 m2 (t + k)" if "k \<le> 152" for k
    using slot_sub [OF that, of t] t stk by (intro load64_changes [OF c3]) blast
  have low: "load64 m' (t + off) = load64 m3 (t + off)" if "(off, x) \<in> set reg_slots" for off x
    using that by (auto simp: m' reg_slots_def load64_store64_other apart8_def)
  have "load64 m' (t + off) = ?r x" if i: "(off, x) \<in> set reg_slots" for off x
  proof -
    have "off \<le> 152" using i by (auto simp: reg_slots_def)
    then show ?thesis using low [OF i] c23 stored_slots [OF i, of t ?r "snd st"] by (simp add: m2_def)
  qed
  then show "(off, x) \<in> set reg_slots \<Longrightarrow> load64 m' (t + off) = saved_reg t c x" by (simp add: saved_reg_def)
  have "load64 m2 (t + 136) = load64 (snd st) (t + 136)"
    by (simp add: m2_def reg_slots_def load64_store64_other apart8_def)
  then have "load64 m3 (t + 136) = rsp c" using c23 [of 136] c12 [of 136] by (simp add: m1_def)
  then show "load64 m' (t + 136) = rsp c" by (simp add: m' load64_store64_other apart8_def)
  show "load64 m' (t + 120) = resume" "load64 m' (t + 128) = rflags c" "load64 m' (t + 144) = 0x10" "load64 m' (t + 152) = 0x08"
    by (simp_all add: m' load64_store64_other apart8_def)
qed

section \<open>Resuming a saved task\<close>

text \<open>The general registers after a switch.\<close>

lemma switch_registers:
  "gpr (fst (switch_to_task t d s)) R15 = t"
  "(off, x) \<in> set reg_slots \<Longrightarrow> x \<notin> {R15, RDX, RAX} \<Longrightarrow> gpr (fst (switch_to_task t d s)) x = load64 (kmem s) (t + off)"
  "gpr (fst (switch_to_task t d s)) RDX = mov_dx 0x3F8 (load64 (kmem s) (t + 96))"
  "gpr (fst (switch_to_task t d s)) RAX = mov_al 0x53 (load64 (kmem s) (t + 112))"
  by (auto simp: switch_to_task_def Let_def iretq_def reg_slots_def)

lemma resumed_registers:
  fixes s :: "'a tasking_scheme"
  assumes t: "span_of t 160 \<inter> span_of (rsp c - 128) 128 = {}" "span_of t TASK_SIZE \<inter> span_of (rsp d - 40) 40 = {}"
    and keep: "changes_in (- span_of t 160) (save_current_context resume t c m) (kmem s)"
  defines "c' \<equiv> fst (switch_to_task t d s)"
  shows "gpr c' = (gpr c)(R15 := t, RDI := t, RDX := mov_dx 0x3F8 (gpr c RDX), RAX := mov_al 0x53 (gpr c RAX))"
    and "rip c' = resume" "rsp c' = rsp c" "rflags c' = rflags c" "cs c' = 0x08" "ss c' = 0x10"
proof -
  have k: "load64 (kmem s) (t + k) = load64 (save_current_context resume t c m) (t + k)" if "k \<le> 152" for k
    using slot_sub [OF that, of t] by (intro load64_changes [OF keep]) blast
  note sv = saved_structure [OF t(1), where resume = resume and m = m]
  show "rip c' = resume" "rsp c' = rsp c" "rflags c' = rflags c" "cs c' = 0x08" "ss c' = 0x10"
    unfolding c'_def using switch_frame [OF t(2), of s] sv(2-6) by (simp_all add: k)
  show "gpr c' = (gpr c)(R15 := t, RDI := t, RDX := mov_dx 0x3F8 (gpr c RDX), RAX := mov_al 0x53 (gpr c RAX))"
  proof
    fix x
    obtain off where i: "(off, x) \<in> set reg_slots" by (cases x) (auto simp: reg_slots_def)
    then have "off \<le> 152" by (auto simp: reg_slots_def)
    then have e: "load64 (kmem s) (t + off) = saved_reg t c x" using k sv(1) [OF i] by simp
    show "gpr c' x = ((gpr c)(R15 := t, RDI := t, RDX := mov_dx 0x3F8 (gpr c RDX), RAX := mov_al 0x53 (gpr c RAX))) x"
      using switch_registers [where t = t and d = d and s = s, folded c'_def] i e
      by (cases x) (auto simp: saved_reg_def reg_slots_def)
  qed
qed

end
