(* ===== verification/Task_Properties.thy ===== *)
theory Task_Properties
  imports Task_Resume Sample_States
begin

text \<open>
  The properties of the scheduler (task.c, context_switch.asm): the choice goes round the list, a
  task is chosen at most once because the tick never records it as current, and a task prepared by
  \<open>task_init\<close> is entered with the fields of its structure in the wrong registers. The sample state
  has two tasks.
\<close>

definition sample_tasks :: tasking where
  "sample_tasks = vmm.extend
     ((heap.extend zero_state \<lparr>kernel_space = \<lparr>vs_pml4 = 0, vs_hhdm = 0\<rparr>, hhdm_offset = 0\<rparr>)
        \<lparr>kmem := set_task_next 0x1000 0x2000 (\<lambda>_. 0)\<rparr>)
     \<lparr>task_list = 0x1000, current_task = 0x1000, next_task_id = 1\<rparr>"

definition sample_cpu :: cpu where
  "sample_cpu = \<lparr>gpr = (\<lambda>_. 0), rip = 0, cs = 8, rflags = 0x202, rsp = 0x9000, ss = 0x10\<rparr>"

lemma sample_tasks_fields [simp]:
  "kmem sample_tasks = set_task_next 0x1000 0x2000 (\<lambda>_. 0)" "task_list sample_tasks = 0x1000"
  "current_task sample_tasks = 0x1000" "rsp sample_cpu = 0x9000"
  by (simp_all add: sample_tasks_def vmm.defs heap.defs sample_cpu_def)

lemma zero_fields: "load64 (\<lambda>_. 0) a = 0" "load32 (\<lambda>_. 0) a = 0"
proof -
  have "foldr (\<lambda>_. push_bit 8) xs (0 :: u32) = 0" for xs :: "nat list" by (induction xs) simp_all
  then show "load64 (\<lambda>_. 0) a = 0" "load32 (\<lambda>_. 0) a = 0"
    using load64_0 [of "\<lambda>_. 0" a] by (simp_all add: load32_def)
qed

lemma span_of_numeral_apart:
  assumes "a \<le> b" and "a + k \<le> b" and "a \<le> a + k" and "b \<le> b + n"
  shows "span_of a k \<inter> span_of b n = {}"
proof -
  have ab: "unat (b - a) = unat b - unat a" using assms(1) by (rule unat_sub_no_wrap)
  have "unat (a + k) = unat a + unat k" using assms(3) by (simp add: unat_plus_simple)
  with assms(2) ab have "k \<le> b - a" unfolding word_le_nat_alt by linarith
  moreover have "b - a \<le> b - a + n"
  proof -
    have "unat b + unat n < 2 ^ LENGTH(64)" using assms(4) unat_plus_simple [of b n] by (metis unsigned_less)
    then have "unat (b - a) + unat n < 2 ^ LENGTH(64)" using ab by linarith
    then have "unat (b - a + n) = unat (b - a) + unat n" by (rule unat_add_no_wrap)
    then show ?thesis unfolding word_le_nat_alt by linarith
  qed
  ultimately show ?thesis using span_of_apart [of k "b - a" n a] by simp
qed

lemma sample_tasks_ok: "tasks_ok sample_cpu [0x1000, 0x2000] sample_tasks"
proof -
  have "load64 (store64 0x10A0 0x2000 (\<lambda>_. 0)) 0x20A0 = load64 (\<lambda>_. 0) 0x20A0"
    by (rule load64_store64_other) (simp add: apart8_def)
  then have ch: "chain (kmem sample_tasks) 0x1000 [0x1000, 0x2000]"
    by (simp add: set_task_next_def task_next_def zero_fields)
  have ap: "span_of 0x1000 TASK_SIZE \<inter> span_of 0x2000 TASK_SIZE = {}"
    "span_of 0x1000 TASK_SIZE \<inter> span_of 0x8F80 128 = {}" "span_of 0x2000 TASK_SIZE \<inter> span_of 0x8F80 128 = {}"
    by (rule span_of_numeral_apart, simp_all add: TASK_SIZE_def)+
  then have "tasks_apart [0x1000, 0x2000]" by (auto simp: tasks_apart_def)
  with ch ap show ?thesis by (simp add: tasks_ok_def)
qed

lemma sample_task_states: "task_state (kmem sample_tasks) t = TASK_STATE_READY" if "t \<in> {0x1000, 0x2000}"
proof -
  have "span_of (t + 172) 4 \<inter> span_of 0x10A0 8 = {}"
    using that span_of_numeral_apart [of "0x10A0" "0x10AC" 8 4] span_of_numeral_apart [of "0x10A0" "0x20AC" 8 4] by auto
  then have "task_state (kmem sample_tasks) t = task_state (\<lambda>_. 0) t"
    using task_state_changes [OF set_next_changes [of "0x1000" "\<lambda>_. 0" "0x2000"], of t] by simp
  then show ?thesis by (simp add: task_state_def zero_fields TASK_STATE_READY_def)
qed

lemma sample_round_robin: "round_robin (kmem sample_tasks) [0x1000, 0x2000] 0x1000 = 0x2000"
  using sample_task_states [of "0x2000"] by (simp add: round_robin_def)

text \<open>C30. On a list of tasks the search for the next task returns, with the first ready task after
  the current one in the order of the list taken round, and with null exactly when no task other
  than the current one is ready.\<close>

theorem next_ready_goes_round:
  assumes "tasks_ok c ts s"
  shows "task_get_next_ready s = Some (round_robin (kmem s) ts (current_task s))
    \<and> (round_robin (kmem s) ts (current_task s) = 0 \<longleftrightarrow> waiting ts s = {})
    \<and> (round_robin (kmem s) ts (current_task s) \<noteq> 0 \<longrightarrow> round_robin (kmem s) ts (current_task s) \<in> waiting ts s)"
  using next_ready_round_robin [of s ts] round_robin_waiting [OF assms] assms by (simp add: tasks_ok_def)

theorem next_ready_goes_round_witness: "task_get_next_ready sample_tasks = Some 0x2000"
  using next_ready_goes_round [OF sample_tasks_ok] sample_round_robin by simp



text \<open>Entering a task that task_init has prepared: the assembly routine reads the structure at
  its own offsets, so that the frame given to iretq has the data selector as code segment, the code
  selector as flags (interrupts disabled), the flags word as stack pointer and the stack pointer as
  stack segment.\<close>

theorem fresh_task_frame_is_shifted:
  fixes s :: tasking
  assumes "span_of t TASK_SIZE \<inter> span_of (rsp c - 40) 40 = {}"
    and "switch_to_task t c (s\<lparr>kmem := task_init t entry stack_top tid (kmem s)\<rparr>) = (c', s')"
  shows "rip c' = entry \<and> cs c' = 0x10 \<and> rflags c' = 0x08 \<and> rsp c' = 0x202 \<and> ss c' = stack_top"
  using switch_frame [OF assms(1), of "s\<lparr>kmem := task_init t entry stack_top tid (kmem s)\<rparr>"] assms(2)
  by (simp add: task_init_fields)

theorem fresh_task_frame_is_shifted_witness:
  "\<exists>c' s'. switch_to_task 0x1000 sample_cpu
       (sample_tasks\<lparr>kmem := task_init 0x1000 0x400000 0x7000 1 (kmem sample_tasks)\<rparr>) = (c', s')
     \<and> rsp c' = 0x202 \<and> cs c' = 0x10"
proof -
  obtain c' s' where sw: "switch_to_task 0x1000 sample_cpu
       (sample_tasks\<lparr>kmem := task_init 0x1000 0x400000 0x7000 1 (kmem sample_tasks)\<rparr>) = (c', s')" by fastforce
  have "span_of 0x1000 TASK_SIZE \<inter> span_of (rsp sample_cpu - 40) 40 = {}"
    using span_of_numeral_apart [of "0x1000" "0x8FD8" TASK_SIZE 40] by (simp add: TASK_SIZE_def)
  from fresh_task_frame_is_shifted [OF this sw] sw show ?thesis by blast
qed

text \<open>C32. A task that was saved and whose structure nobody has touched since is entered again at the
  label after the save with its stack pointer, its flags, the kernel's selectors and its general
  registers, except that R15 and RDI hold the address of the structure and the debugging output has
  replaced the low parts of RDX and RAX. The stack pointer is the one before the fifteen pushes:
  where the save itself returns to the word at that pointer, the resumed task returns to the word
  120 bytes above it.\<close>

theorem saved_task_resumes:
  fixes s :: "'a tasking_scheme"
  assumes "span_of t 160 \<inter> span_of (rsp c - 128) 128 = {}" and "span_of t TASK_SIZE \<inter> span_of (rsp d - 40) 40 = {}"
    and "changes_in (- span_of t 160) (save_current_context resume t c m) (kmem s)"
  shows "let c' = fst (switch_to_task t d s)
    in gpr c' = (gpr c)(R15 := t, RDI := t, RDX := mov_dx 0x3F8 (gpr c RDX), RAX := mov_al 0x53 (gpr c RAX))
      \<and> rip c' = resume \<and> rsp c' = rsp c \<and> rflags c' = rflags c \<and> cs c' = 0x08 \<and> ss c' = 0x10
      \<and> rip (context_return n (c\<lparr>rsp := rsp c - 15 * 8\<rparr>)) = load64 n (rsp c)
      \<and> rip (context_return n c') = load64 n (rsp c + 120)"
  using resumed_registers [OF assms] by (simp add: context_return_def Let_def)

theorem saved_task_resumes_witness:
  "rip (fst (switch_to_task 0x1000 sample_cpu
       (sample_tasks\<lparr>kmem := save_current_context 0x1234 0x1000 sample_cpu (\<lambda>_. 0)\<rparr>))) = 0x1234
   \<and> rsp (fst (switch_to_task 0x1000 sample_cpu
       (sample_tasks\<lparr>kmem := save_current_context 0x1234 0x1000 sample_cpu (\<lambda>_. 0)\<rparr>))) = 0x9000"
proof -
  have sp: "span_of 0x1000 160 \<inter> span_of (rsp sample_cpu - 128) 128 = {}"
    "span_of 0x1000 TASK_SIZE \<inter> span_of (rsp sample_cpu - 40) 40 = {}"
    using span_of_numeral_apart [of "0x1000" "0x8F80" 160 128] span_of_numeral_apart [of "0x1000" "0x8FD8" TASK_SIZE 40]
    by (simp_all add: TASK_SIZE_def)
  let ?m = "save_current_context 0x1234 0x1000 sample_cpu (\<lambda>_. 0)"
  have "changes_in (- span_of 0x1000 160) ?m (kmem (sample_tasks\<lparr>kmem := ?m\<rparr>))" by simp
  from saved_task_resumes [OF sp this] show ?thesis by (simp add: Let_def)
qed

end
