(* ===== verification/Machine.thy ===== *)
theory Machine
  imports Task Printf
begin

text \<open>
  The state of the whole kernel: on top of memory and tasks, the descriptor tables, the tables of
  interrupt handlers, the state of acpi.c and apic.c, and the devices the kernel drives. The two
  interrupt controllers behind ports 0x20, 0x21, 0xA0 and 0xA1 are the 8259A as its data sheet
  documents it; every other port write is recorded in order, and so is every write to a
  memory-mapped device register. What such a register answers is a parameter, as are the values the
  processor returns and the addresses the linker chooses.
\<close>

section \<open>Descriptor tables\<close>

record table_ptr =
  tp_limit :: u16
  tp_base :: u64

record gdt_entry =
  limit_low :: u16
  gdt_base_low :: u16
  gdt_base_middle :: u8
  access :: u8
  granularity :: u8
  gdt_base_high :: u8

record idt_entry =
  idt_base_low :: u16
  selector :: u16
  ist :: u8
  type_attr :: u8
  idt_base_middle :: u16
  idt_base_high :: u32
  idt_zero :: u32

text \<open>The handlers the kernel installs, by the name of the C function.\<close>

datatype isr_handler_t = Exception_handler | Handle_page_fault | Handle_general_protection_fault
  | Handle_double_fault | Irq_default_handler | Lapic_timer_handler | Lapic_timer_handler_for_sleep
  | Pit_timer_handler

section \<open>Devices\<close>

record pic_chip =
  icws :: "nat list"
  vector_base :: u8
  imr :: u8
  eois :: nat

definition pic_command :: "u8 \<Rightarrow> pic_chip \<Rightarrow> pic_chip" where
  "pic_command v p =
     (if bit v 4
      then p\<lparr>icws := [2] @ (if bit v 1 then [] else [3]) @ (if bit v 0 then [4] else []), imr := 0\<rparr>
      else if v = 0x20 then p\<lparr>eois := Suc (eois p)\<rparr> else p)"

definition pic_data :: "u8 \<Rightarrow> pic_chip \<Rightarrow> pic_chip" where
  "pic_data v p =
     (case icws p of
        [] \<Rightarrow> p\<lparr>imr := v\<rparr>
      | k # ks \<Rightarrow> p\<lparr>icws := ks, vector_base := (if k = 2 then v AND 0xF8 else vector_base p)\<rparr>)"

section \<open>The state\<close>

record apic_state =
  lapic_base :: u64
  ioapic_base :: u64
  hpet_base :: u64
  hpet_frequency :: u64
  apic_on :: bool
  ioapic_on :: bool
  hpet_on :: bool
  bsp_lapic_id :: u32

record acpi_state =
  rsdp :: u64
  rsdt :: u64
  xsdt :: u64
  madt :: u64
  fadt :: u64
  mcfg :: u64
  hpet :: u64
  use_xsdt :: bool
  acpi_on :: bool

datatype segment = CS | DS | ES | FS | GS | SS

record machine = tasking +
  pic1 :: pic_chip
  pic2 :: pic_chip
  port_out :: "(u16 \<times> u16) list"
  mmio_out :: "(u64 \<times> u64) list"
  mmio_reads :: nat
  gdt :: "gdt_entry list"
  gdt_ptr :: table_ptr
  gdtr :: "table_ptr option"
  segs :: "segment \<Rightarrow> u16"
  idt :: "idt_entry list"
  idtp :: table_ptr
  idtr :: "table_ptr option"
  interrupts_on :: bool
  isr_handlers :: "isr_handler_t option list"
  irq_handlers :: "isr_handler_t option list"
  apic :: apic_state
  acpi :: acpi_state
  lapic_ticks :: u64
  lapic_sleeping :: bool
  sleep_end_ticks :: u64

text \<open>What the surroundings answer: processor, devices, boot loader, linker.\<close>

record env =
  cpuid1_edx :: u32
  apic_base_msr :: u32
  mmio_in :: "(u64 \<times> u64) list \<Rightarrow> nat \<Rightarrow> u64 \<Rightarrow> u64"
  isr_stub :: "u8 \<Rightarrow> u64"
  gdt_addr :: u64
  idt_addr :: u64
  resume_label :: u64

section \<open>Port input and output\<close>

definition outb_port :: "u16 \<Rightarrow> u8 \<Rightarrow> 'a machine_scheme \<Rightarrow> 'a machine_scheme" where
  "outb_port port v s =
     (if port = 0x20 then s\<lparr>pic1 := pic_command v (pic1 s)\<rparr>
      else if port = 0x21 then s\<lparr>pic1 := pic_data v (pic1 s)\<rparr>
      else if port = 0xA0 then s\<lparr>pic2 := pic_command v (pic2 s)\<rparr>
      else if port = 0xA1 then s\<lparr>pic2 := pic_data v (pic2 s)\<rparr>
      else s\<lparr>port_out := port_out s @ [(port, ucast v)]\<rparr>)"

definition outw :: "u16 \<Rightarrow> u16 \<Rightarrow> 'a machine_scheme \<Rightarrow> 'a machine_scheme" where
  "outw port v s = s\<lparr>port_out := port_out s @ [(port, v)]\<rparr>"

text \<open>Reading the data port of a controller answers its mask; no other port is read through this.\<close>

definition inb_pic :: "u16 \<Rightarrow> 'a machine_scheme \<Rightarrow> u8" where
  "inb_pic port s = (if port = 0x21 then imr (pic1 s) else imr (pic2 s))"

end
