(* ===== verification/Pic.thy ===== *)
theory Pic
  imports Machine
begin

text \<open>
  The legacy interrupt controllers (pic.c) and the timer stubs of pit.c.
\<close>

definition PIC1_COMMAND :: u16 where "PIC1_COMMAND = 0x20"
definition PIC1_DATA :: u16 where "PIC1_DATA = 0x21"
definition PIC2_COMMAND :: u16 where "PIC2_COMMAND = 0xA0"
definition PIC2_DATA :: u16 where "PIC2_DATA = 0xA1"
definition PIC_EOI :: u8 where "PIC_EOI = 0x20"
definition PIC_ICW1_INIT :: u8 where "PIC_ICW1_INIT = 0x10"
definition PIC_ICW1_ICW4 :: u8 where "PIC_ICW1_ICW4 = 0x01"
definition PIC_ICW4_8086 :: u8 where "PIC_ICW4_8086 = 0x01"
definition PIC1_OFFSET :: u8 where "PIC1_OFFSET = 0x20"
definition PIC2_OFFSET :: u8 where "PIC2_OFFSET = 0x28"

lemmas pic_ports = PIC1_COMMAND_def PIC1_DATA_def PIC2_COMMAND_def PIC2_DATA_def PIC_EOI_def
  PIC_ICW1_INIT_def PIC_ICW1_ICW4_def PIC_ICW4_8086_def PIC1_OFFSET_def PIC2_OFFSET_def

definition pic_remap :: "'a machine_scheme \<Rightarrow> 'a machine_scheme" where
  "pic_remap s =
     (let s1 = klog ''[PIC] Remapping PIC...\<newline>'' s;
          pic1_mask = inb_pic PIC1_DATA s1;
          pic2_mask = inb_pic PIC2_DATA s1;
          s2 = outb_port PIC1_COMMAND (PIC_ICW1_INIT OR PIC_ICW1_ICW4) s1;
          s3 = outb_port PIC2_COMMAND (PIC_ICW1_INIT OR PIC_ICW1_ICW4) s2;
          s4 = outb_port PIC1_DATA PIC1_OFFSET s3;
          s5 = outb_port PIC2_DATA PIC2_OFFSET s4;
          s6 = outb_port PIC1_DATA 0x04 s5;
          s7 = outb_port PIC2_DATA 0x02 s6;
          s8 = outb_port PIC1_DATA PIC_ICW4_8086 s7;
          s9 = outb_port PIC2_DATA PIC_ICW4_8086 s8;
          s10 = outb_port PIC1_DATA pic1_mask s9;
          s11 = outb_port PIC2_DATA pic2_mask s10
      in klog ''[PIC] PIC remapped to 0x20-0x2F\<newline>'' s11)"

definition pic_send_eoi :: "u8 \<Rightarrow> 'a machine_scheme \<Rightarrow> 'a machine_scheme" where
  "pic_send_eoi irq s =
     (let s1 = (if irq \<ge> 8 then outb_port PIC2_COMMAND PIC_EOI s else s)
      in outb_port PIC1_COMMAND PIC_EOI s1)"

definition pic_disable :: "'a machine_scheme \<Rightarrow> 'a machine_scheme" where
  "pic_disable s =
     klog ''[PIC] PIC disabled\<newline>'' (outb_port PIC2_DATA 0xFF (outb_port PIC1_DATA 0xFF s))"

text \<open>The shift is of an \<open>int\<close>; the result is converted to \<open>uint8_t\<close>.\<close>

definition pic_mask_irq :: "u8 \<Rightarrow> 'a machine_scheme \<Rightarrow> 'a machine_scheme" where
  "pic_mask_irq irq s =
     (let port = (if irq < 8 then PIC1_DATA else PIC2_DATA);
          irq = (if irq < 8 then irq else irq - 8);
          val = inb_pic port s OR ucast (push_bit (unat irq) (1 :: u32))
      in outb_port port val s)"

definition pic_unmask_irq :: "u8 \<Rightarrow> 'a machine_scheme \<Rightarrow> 'a machine_scheme" where
  "pic_unmask_irq irq s =
     (let port = (if irq < 8 then PIC1_DATA else PIC2_DATA);
          irq = (if irq < 8 then irq else irq - 8);
          val = ucast (ucast (inb_pic port s) AND NOT (push_bit (unat irq) (1 :: u32)))
      in outb_port port val s)"

section \<open>pit.c\<close>

definition pit_init :: "'a machine_scheme \<Rightarrow> 'a machine_scheme" where
  "pit_init s = klog ''[PIT] PIT initialization logic moved to LAPIC timer.\<newline>''
     (klog ''[PIT] Initializing PIT...'' s)"

definition pit_set_frequency :: "u32 \<Rightarrow> 'a machine_scheme \<Rightarrow> 'a machine_scheme" where
  "pit_set_frequency divider s =
     klog ''[PIT] pit_set_frequency is deprecated, using LAPIC timer.\<newline>'' s"

definition pit_get_ticks :: "'a machine_scheme \<Rightarrow> u64" where
  "pit_get_ticks s = lapic_ticks s"

definition pit_timer_handler :: "'a machine_scheme \<Rightarrow> 'a machine_scheme" where
  "pit_timer_handler s = s"

section \<open>What the controllers are left with\<close>

definition irq_masked :: "u8 \<Rightarrow> 'a machine_scheme \<Rightarrow> bool" where
  "irq_masked irq s = (if irq < 8 then bit (imr (pic1 s)) (unat irq) else bit (imr (pic2 s)) (unat irq - 8))"

lemma pic_klog [simp]:
  "pic1 (klog m s) = pic1 s" "pic2 (klog m s) = pic2 s"
  "pic1 (klog_num a b v c s) = pic1 s" "pic2 (klog_num a b v c s) = pic2 s"
  by (simp_all add: klog_def klog_num_def)

lemma outb_pics [simp]:
  "pic1 (outb_port port v s) = (if port = 0x20 then pic_command v (pic1 s)
     else if port = 0x21 then pic_data v (pic1 s) else pic1 s)"
  "pic2 (outb_port port v s) = (if port = 0xA0 then pic_command v (pic2 s)
     else if port = 0xA1 then pic_data v (pic2 s) else pic2 s)"
  by (simp_all add: outb_port_def)

text \<open>Remapping moves the two controllers to vectors 0x20 and 0x28 and keeps both masks.\<close>

lemma pic_remap_chips:
  "pic1 (pic_remap s) = (pic1 s)\<lparr>icws := [], vector_base := 0x20\<rparr>"
  "pic2 (pic_remap s) = (pic2 s)\<lparr>icws := [], vector_base := 0x28\<rparr>"
proof -
  have init: "pic_data m (pic_data 1 (pic_data c (pic_data v (pic_command 0x11 p))))
      = p\<lparr>icws := [], vector_base := v AND 0xF8, imr := m\<rparr>" for m c v p
    by (simp add: pic_command_def pic_data_def bit_numeral_rec)
  show "pic1 (pic_remap s) = (pic1 s)\<lparr>icws := [], vector_base := 0x20\<rparr>"
    "pic2 (pic_remap s) = (pic2 s)\<lparr>icws := [], vector_base := 0x28\<rparr>"
    unfolding pic_remap_def pic_ports Let_def by (simp_all add: init inb_pic_def)
qed

definition pics_ready :: "'a machine_scheme \<Rightarrow> bool" where
  "pics_ready s \<longleftrightarrow> icws (pic1 s) = [] \<and> icws (pic2 s) = []"

lemma mask_bits:
  "bit (w OR ucast (2 ^ n :: u32) :: u8) k \<longleftrightarrow> bit w k \<or> k = n \<and> n < 8"
  "bit (ucast (ucast w AND NOT (2 ^ n :: u32)) :: u8) k \<longleftrightarrow> bit (w :: u8) k \<and> k \<noteq> n"
proof -
  show "bit (w OR ucast (2 ^ n :: u32) :: u8) k \<longleftrightarrow> bit w k \<or> k = n \<and> n < 8"
    by (auto simp: bit_simps)
  show "bit (ucast (ucast w AND NOT (2 ^ n :: u32)) :: u8) k \<longleftrightarrow> bit (w :: u8) k \<and> k \<noteq> n"
    using bit_imp_le_length [of w k] by (auto simp: bit_simps)
qed

lemma irq_mask_effect:
  assumes "pics_ready s" and "irq < 16"
  shows "irq_masked k (pic_mask_irq irq s) \<longleftrightarrow> k = irq \<or> irq_masked k s"
    and "irq_masked k (pic_unmask_irq irq s) \<longleftrightarrow> k \<noteq> irq \<and> irq_masked k s"
proof -
  have n: "unat irq < 16" using assms(2) by (simp add: word_less_nat_alt)
  have lt: "w < 8 \<longleftrightarrow> unat w < 8" "\<not> unat w < 8 \<Longrightarrow> unat (w - 8) = unat w - 8" for w :: u8
    by (simp_all add: word_less_nat_alt unat_sub_no_wrap word_le_nat_alt)
  have k_eq: "k = irq \<longleftrightarrow> unat k = unat irq" by (simp add: word_unat_eq_iff)
  show "irq_masked k (pic_mask_irq irq s) \<longleftrightarrow> k = irq \<or> irq_masked k s"
    "irq_masked k (pic_unmask_irq irq s) \<longleftrightarrow> k \<noteq> irq \<and> irq_masked k s"
    using assms(1) n k_eq
    by (simp_all add: irq_masked_def pic_mask_irq_def pic_unmask_irq_def pics_ready_def pic_ports pic_data_def
        inb_pic_def mask_bits lt Let_def) auto
qed

lemma pic_send_eoi_effect:
  "eois (pic1 (pic_send_eoi irq s)) = Suc (eois (pic1 s))"
  "eois (pic2 (pic_send_eoi irq s)) = (if irq \<ge> 8 then Suc (eois (pic2 s)) else eois (pic2 s))"
  by (simp_all add: pic_send_eoi_def pic_command_def pic_ports Let_def bit_numeral_rec)

end
