(* ===== verification/Apic.thy ===== *)
theory Apic
  imports Pic
begin

text \<open>
  The local APIC, the I/O APIC and the HPET (apic.c). Their registers are memory mapped: a read asks
  the environment, which sees the writes and the number of reads so far; a write is appended to the
  list of writes. A loop that polls a register is a partial function, \<open>None\<close> when it polls for ever.
\<close>

section \<open>Memory-mapped registers\<close>

definition mmio_read :: "env \<Rightarrow> u64 \<Rightarrow> 'a machine_scheme \<Rightarrow> u64 \<times> 'a machine_scheme" where
  "mmio_read e a s = (mmio_in e (mmio_out s) (mmio_reads s) a, s\<lparr>mmio_reads := Suc (mmio_reads s)\<rparr>)"

definition mmio_write :: "u64 \<Rightarrow> u64 \<Rightarrow> 'a machine_scheme \<Rightarrow> 'a machine_scheme" where
  "mmio_write a v s = s\<lparr>mmio_out := mmio_out s @ [(a, v)]\<rparr>"

definition LAPIC_EOI_REG :: u32 where "LAPIC_EOI_REG = 0xB0"
definition LAPIC_SIV_REG :: u32 where "LAPIC_SIV_REG = 0xF0"
definition LAPIC_LVT_TIMER :: u32 where "LAPIC_LVT_TIMER = 0x320"
definition LAPIC_TIMER_INITIAL :: u32 where "LAPIC_TIMER_INITIAL = 0x380"
definition LAPIC_TIMER_DIVIDER :: u32 where "LAPIC_TIMER_DIVIDER = 0x3E0"
definition LAPIC_SIV_ENABLE :: u32 where "LAPIC_SIV_ENABLE = 0x100"
definition LAPIC_TIMER_PERIODIC :: u32 where "LAPIC_TIMER_PERIODIC = 0x20000"
definition IOAPIC_REDTBL_BASE :: u32 where "IOAPIC_REDTBL_BASE = 0x10"
definition APIC_ICR1 :: u64 where "APIC_ICR1 = 0x310"
definition APIC_ICR2 :: u64 where "APIC_ICR2 = 0x300"
definition APIC_ICR_DELIVERY_MODE_SHIFT :: nat where "APIC_ICR_DELIVERY_MODE_SHIFT = 8"
definition APIC_ICR_LEVEL_SHIFT :: nat where "APIC_ICR_LEVEL_SHIFT = 14"
definition APIC_ICR_TRIGGER_MODE_SHIFT :: nat where "APIC_ICR_TRIGGER_MODE_SHIFT = 15"
definition APIC_ICR_DEST_SHORTHAND_SHIFT :: nat where "APIC_ICR_DEST_SHORTHAND_SHIFT = 18"
definition APIC_ICR_DELIVERY_STATUS_BIT :: nat where "APIC_ICR_DELIVERY_STATUS_BIT = 12"
definition APIC_DELIVERY_MODE_INIT :: u32 where "APIC_DELIVERY_MODE_INIT = 5"
definition APIC_DELIVERY_MODE_SIPI :: u32 where "APIC_DELIVERY_MODE_SIPI = 6"
definition APIC_LEVEL_ASSERT :: u32 where "APIC_LEVEL_ASSERT = 1"
definition APIC_TRIGGER_MODE_EDGE :: u32 where "APIC_TRIGGER_MODE_EDGE = 0"
definition APIC_DEST_SHORTHAND_NONE :: u32 where "APIC_DEST_SHORTHAND_NONE = 0"

section \<open>Sleeping\<close>

definition lapic_get_ticks :: "'a machine_scheme \<Rightarrow> u64" where
  "lapic_get_ticks s = lapic_ticks s"

text \<open>\<open>wake\<close> is what the interrupts taken during one \<open>hlt\<close> do to the state.\<close>

partial_function (option) sleep_loop ::
  "('a machine_scheme \<Rightarrow> 'a machine_scheme) \<Rightarrow> u64 \<Rightarrow> 'a machine_scheme \<Rightarrow> 'a machine_scheme option" where
  "sleep_loop wake target s =
     (if lapic_sleeping s \<and> lapic_get_ticks s < target then sleep_loop wake target (wake s) else Some s)"

definition lapic_sleep_ms ::
  "('a machine_scheme \<Rightarrow> 'a machine_scheme) \<Rightarrow> u64 \<Rightarrow> 'a machine_scheme \<Rightarrow> 'a machine_scheme option" where
  "lapic_sleep_ms wake ms s =
     (if \<not> apic_on (apic s) then Some s
      else let current_ticks = lapic_get_ticks s;
               target_ticks = current_ticks + ms
           in if target_ticks \<le> current_ticks then Some s
              else map_option (\<lambda>t. t\<lparr>lapic_sleeping := False\<rparr>)
                     (sleep_loop wake target_ticks (s\<lparr>lapic_sleeping := True, sleep_end_ticks := target_ticks\<rparr>)))"

definition lapic_sleep_us ::
  "('a machine_scheme \<Rightarrow> 'a machine_scheme) \<Rightarrow> u64 \<Rightarrow> 'a machine_scheme \<Rightarrow> 'a machine_scheme option" where
  "lapic_sleep_us wake us s = lapic_sleep_ms wake ((us + 999) div 1000) s"

definition lapic_timer_handler_for_sleep :: "'a machine_scheme \<Rightarrow> 'a machine_scheme" where
  "lapic_timer_handler_for_sleep s =
     (let s1 = s\<lparr>lapic_ticks := lapic_ticks s + 1\<rparr>
      in if lapic_sleeping s1 \<and> lapic_ticks s1 \<ge> sleep_end_ticks s1 then s1\<lparr>lapic_sleeping := False\<rparr> else s1)"

definition pit_sleep ::
  "('a machine_scheme \<Rightarrow> 'a machine_scheme) \<Rightarrow> u64 \<Rightarrow> 'a machine_scheme \<Rightarrow> 'a machine_scheme option" where
  "pit_sleep wake ms s = lapic_sleep_ms wake ms s"

section \<open>The local APIC\<close>

definition apic_available :: "env \<Rightarrow> bool" where
  "apic_available e = (cpuid1_edx e AND push_bit 9 1 \<noteq> 0)"

definition lapic_reg :: "'a machine_scheme \<Rightarrow> u32 \<Rightarrow> u64" where
  "lapic_reg s reg = lapic_base (apic s) + 4 * (ucast reg div 4)"

definition lapic_read :: "env \<Rightarrow> u32 \<Rightarrow> 'a machine_scheme \<Rightarrow> u32 \<times> 'a machine_scheme" where
  "lapic_read e reg s =
     (if lapic_base (apic s) = 0 \<or> \<not> apic_on (apic s)
      then (0, klog ''[APIC] ERROR: Attempt to read LAPIC when not initialized\<newline>'' s)
      else let (v, s1) = mmio_read e (lapic_reg s reg) s in (ucast v, s1))"

definition lapic_write :: "u32 \<Rightarrow> u32 \<Rightarrow> 'a machine_scheme \<Rightarrow> 'a machine_scheme" where
  "lapic_write reg v s =
     (if lapic_base (apic s) = 0 \<or> \<not> apic_on (apic s)
      then klog ''[APIC] ERROR: Attempt to write LAPIC when not initialized\<newline>'' s
      else mmio_write (lapic_reg s reg) (ucast v) s)"

definition lapic_eoi :: "'a machine_scheme \<Rightarrow> 'a machine_scheme" where
  "lapic_eoi s = lapic_write LAPIC_EOI_REG 0 s"

definition lapic_init :: "env \<Rightarrow> u64 option \<Rightarrow> 'a machine_scheme \<Rightarrow> 'a machine_scheme" where
  "lapic_init e hhdm_response s =
     (if \<not> apic_on (apic s) then klog ''[APIC] APIC not available, falling back to PIC\<newline>'' s
      else case hhdm_response of
        None \<Rightarrow> (klog ''[APIC] ERROR: No HHDM response provided!\<newline>'' s)\<lparr>apic := (apic s)\<lparr>apic_on := False\<rparr>\<rparr>
      | Some offset \<Rightarrow>
          let s1 = klog_num ''[APIC] HHDM offset: 0x'' 16 offset ''\<newline>''
                     (klog ''[APIC] APIC supported, initializing components...\<newline>'' s);
              lapic_physical_base = (apic_base_msr e AND 0xFFFFF000 :: u32);
              s2 = klog_num ''[APIC] LAPIC physical base from MSR: 0x'' 16 (ucast lapic_physical_base) ''\<newline>'' s1;
              phys = (ucast lapic_physical_base AND PAGE_MASK :: u64);
              virt = phys + offset;
              s3 = klog_num ''  Physical: 0x'' 16 phys '''' (klog ''[APIC] Attempting to map LAPIC page:\<newline>'' s2);
              s4 = klog_num ''\<newline>  Virtual:  0x'' 16 virt ''\<newline>'' s3;
              (mapped, s5) = paging_map_page virt phys (PAGING_PRESENT OR PAGING_WRITABLE OR PAGING_NO_EXECUTE) s4
          in if \<not> mapped
             then (klog ''[APIC] ERROR: Failed to map LAPIC physical page to virtual memory!\<newline>'' s5)
                    \<lparr>apic := (apic s5)\<lparr>apic_on := False\<rparr>\<rparr>
             else let s6 = klog ''[APIC] LAPIC page mapped successfully.\<newline>'' s5;
                      s7 = s6\<lparr>apic := (apic s6)\<lparr>lapic_base := virt + (ucast lapic_physical_base AND 0xFFF)\<rparr>\<rparr>;
                      s8 = klog_num ''[APIC] LAPIC virtual base: 0x'' 16 (lapic_base (apic s7)) ''\<newline>'' s7;
                      (siv, s9) = lapic_read e LAPIC_SIV_REG s8;
                      s10 = lapic_write LAPIC_SIV_REG (siv OR LAPIC_SIV_ENABLE OR 0xFF) s9
                  in klog ''[APIC] LAPIC initialized and enabled\<newline>'' s10)"

section \<open>The I/O APIC\<close>

text \<open>The index register is at offset 0 of \<open>struct ioapic_regs\<close>, the window at offset 16.\<close>

definition ioapic_read :: "env \<Rightarrow> u32 \<Rightarrow> 'a machine_scheme \<Rightarrow> u32 \<times> 'a machine_scheme" where
  "ioapic_read e reg s =
     (if ioapic_base (apic s) = 0 then (0, s)
      else let s1 = mmio_write (ioapic_base (apic s)) (ucast reg) s;
               (v, s2) = mmio_read e (ioapic_base (apic s1) + 16) s1
           in (ucast v, s2))"

definition ioapic_write :: "u32 \<Rightarrow> u32 \<Rightarrow> 'a machine_scheme \<Rightarrow> 'a machine_scheme" where
  "ioapic_write reg v s =
     (if ioapic_base (apic s) = 0 then s
      else mmio_write (ioapic_base (apic s) + 16) (ucast v) (mmio_write (ioapic_base (apic s)) (ucast reg) s))"

definition ioapic_redirect_irq :: "u8 \<Rightarrow> u8 \<Rightarrow> u32 \<Rightarrow> 'a machine_scheme \<Rightarrow> 'a machine_scheme" where
  "ioapic_redirect_irq irq vec delivery_mode s =
     (if \<not> ioapic_on (apic s) then s
      else let low_index = IOAPIC_REDTBL_BASE + ucast irq * 2;
               high_index = low_index + 1;
               v = ucast vec OR delivery_mode
           in ioapic_write high_index 0 (ioapic_write low_index v s))"

text \<open>The walk along the MADT, up to the first I/O APIC entry; an entry of length 0 makes it run for ever.\<close>

definition MADT_ENTRY_IOAPIC :: u8 where "MADT_ENTRY_IOAPIC = 1"

partial_function (option) find_ioapic :: "bytes \<Rightarrow> u64 \<Rightarrow> u64 \<Rightarrow> u64 option option" where
  "find_ioapic m madt_end ptr =
     (if \<not> ptr < madt_end then Some None
      else if m ptr = MADT_ENTRY_IOAPIC then Some (Some ptr)
      else find_ioapic m madt_end (ptr + ucast (m (ptr + 1))))"

definition ioapic_init :: "u64 option \<Rightarrow> 'a machine_scheme \<Rightarrow> 'a machine_scheme option" where
  "ioapic_init hhdm_response s =
     (let madt_start = madt (acpi s)
      in if madt_start = 0 then Some (klog ''[APIC] No MADT found, cannot initialize IOAPIC\<newline>'' s)
         else case find_ioapic (kmem s) (madt_start + ucast (load32 (kmem s) (madt_start + 4))) (madt_start + 44) of
                None \<Rightarrow> None
              | Some found \<Rightarrow>
                  let s1 = (case found of
                        None \<Rightarrow> s
                      | Some ptr \<Rightarrow>
                          (case hhdm_response of
                             None \<Rightarrow> klog ''[APIC] ERROR: No HHDM response for IOAPIC mapping!\<newline>'' s
                           | Some offset \<Rightarrow>
                               let addr = load32 (kmem s) (ptr + 4);
                                   t = s\<lparr>apic := (apic s)\<lparr>ioapic_base := ucast addr + offset, ioapic_on := True\<rparr>\<rparr>
                               in klog_num '', virtual: 0x'' 16 (ioapic_base (apic t)) ''\<newline>''
                                    (klog_num ''[APIC] Found IOAPIC at physical: 0x'' 16 (ucast addr) '''' t)))
                  in if \<not> ioapic_on (apic s1) then Some (klog ''[APIC] No IOAPIC found in MADT\<newline>'' s1)
                     else Some (klog ''[APIC] IOAPIC initialized\<newline>'' s1))"


section \<open>The HPET\<close>

definition hpet_read :: "env \<Rightarrow> u64 \<Rightarrow> 'a machine_scheme \<Rightarrow> u64 \<times> 'a machine_scheme" where
  "hpet_read e reg s = (if hpet_base (apic s) = 0 then (0, s) else mmio_read e (hpet_base (apic s) + reg) s)"

definition hpet_write :: "u64 \<Rightarrow> u64 \<Rightarrow> 'a machine_scheme \<Rightarrow> 'a machine_scheme" where
  "hpet_write reg v s = (if hpet_base (apic s) = 0 then s else mmio_write (hpet_base (apic s) + reg) v s)"

definition hpet_get_frequency :: "'a machine_scheme \<Rightarrow> u64" where
  "hpet_get_frequency s = hpet_frequency (apic s)"

definition HPET_CONFIG :: u64 where "HPET_CONFIG = 0x10"
definition HPET_MAIN_COUNTER :: u64 where "HPET_MAIN_COUNTER = 0xF0"

definition hpet_init :: "env \<Rightarrow> u64 option \<Rightarrow> 'a machine_scheme \<Rightarrow> 'a machine_scheme" where
  "hpet_init e hhdm_response s =
     (if hpet (acpi s) = 0 then klog ''[HPET] No HPET table found\<newline>'' s
      else case hhdm_response of
        None \<Rightarrow> klog ''[HPET] ERROR: No HHDM response for HPET mapping!\<newline>'' s
      | Some offset \<Rightarrow>
          let addr = load64 (kmem s) (hpet (acpi s) + 40);
              s1 = s\<lparr>apic := (apic s)\<lparr>hpet_base := addr + offset\<rparr>\<rparr>;
              s2 = klog_num '', virtual: 0x'' 16 (hpet_base (apic s1)) ''\<newline>''
                     (klog_num ''[HPET] HPET at physical: 0x'' 16 addr '''' s1);
              (capabilities, s3) = hpet_read e 0 s2;
              s4 = s3\<lparr>apic := (apic s3)\<lparr>hpet_frequency := drop_bit 32 capabilities AND 0xFFFFFFFF\<rparr>\<rparr>;
              s5 = klog_num ''[HPET] HPET frequency: '' 10 (hpet_frequency (apic s4)) '' femtoseconds per tick\<newline>'' s4;
              (config, s6) = hpet_read e HPET_CONFIG s5;
              s7 = hpet_write HPET_CONFIG (config OR 1) s6;
              s8 = hpet_write HPET_MAIN_COUNTER 0 s7
          in klog ''[HPET] HPET initialized and enabled\<newline>'' (s8\<lparr>apic := (apic s8)\<lparr>hpet_on := True\<rparr>\<rparr>))"

partial_function (option) hpet_wait :: "env \<Rightarrow> u64 \<Rightarrow> 'a machine_scheme \<Rightarrow> 'a machine_scheme option" where
  "hpet_wait e target s =
     (let (now, s1) = hpet_read e HPET_MAIN_COUNTER s
      in if now < target then hpet_wait e target s1 else Some s1)"

text \<open>The wait for \<open>amount * scale\<close> femtoseconds; dividing by a frequency of 0 traps and does not return.\<close>

definition hpet_sleep :: "env \<Rightarrow> u64 \<Rightarrow> u64 \<Rightarrow> 'a machine_scheme \<Rightarrow> 'a machine_scheme option" where
  "hpet_sleep e scale amount s =
     (if \<not> hpet_on (apic s) then Some s
      else let (now, s1) = hpet_read e HPET_MAIN_COUNTER s
           in if hpet_frequency (apic s1) = 0 then None
              else hpet_wait e (now + (amount * scale) div hpet_frequency (apic s1)) s1)"

definition hpet_sleep_ms :: "env \<Rightarrow> u64 \<Rightarrow> 'a machine_scheme \<Rightarrow> 'a machine_scheme option" where
  "hpet_sleep_ms e milliseconds s = hpet_sleep e 1000000000000 milliseconds s"

definition hpet_sleep_us :: "env \<Rightarrow> u64 \<Rightarrow> 'a machine_scheme \<Rightarrow> 'a machine_scheme option" where
  "hpet_sleep_us e microseconds s = hpet_sleep e 1000000000 microseconds s"

section \<open>Interprocessor interrupts\<close>

definition apic_disable_pic :: "'a machine_scheme \<Rightarrow> 'a machine_scheme" where
  "apic_disable_pic s = klog ''[APIC] PIC disabled\<newline>'' (outb_port 0x21 0xFF (outb_port 0xA1 0xFF s))"

partial_function (option) icr_idle :: "env \<Rightarrow> 'a machine_scheme \<Rightarrow> 'a machine_scheme option" where
  "icr_idle e s =
     (let (v, s1) = mmio_read e (lapic_base (apic s) + APIC_ICR1) s
      in if (ucast v :: u32) AND push_bit APIC_ICR_DELIVERY_STATUS_BIT 1 \<noteq> 0 then icr_idle e s1 else Some s1)"

definition lapic_send_ipi :: "env \<Rightarrow> u32 \<Rightarrow> u32 \<Rightarrow> 'a machine_scheme \<Rightarrow> 'a machine_scheme option" where
  "lapic_send_ipi e icr1_val icr2_val s =
     map_option (\<lambda>t. mmio_write (lapic_base (apic t) + APIC_ICR1) (ucast icr1_val)
                       (mmio_write (lapic_base (apic t) + APIC_ICR2) (ucast icr2_val) t)) (icr_idle e s)"

definition lapic_send_init :: "env \<Rightarrow> u32 \<Rightarrow> 'a machine_scheme \<Rightarrow> 'a machine_scheme option" where
  "lapic_send_init e lapic_id s =
     (let icr1 = push_bit APIC_ICR_DELIVERY_MODE_SHIFT APIC_DELIVERY_MODE_INIT
             OR push_bit APIC_ICR_LEVEL_SHIFT APIC_LEVEL_ASSERT
             OR push_bit APIC_ICR_TRIGGER_MODE_SHIFT APIC_TRIGGER_MODE_EDGE
             OR push_bit APIC_ICR_DEST_SHORTHAND_SHIFT APIC_DEST_SHORTHAND_NONE;
          icr2 = push_bit 24 (lapic_id AND 0xFF)
      in lapic_send_ipi e icr1 icr2
           (klog_num ''[APIC] Sending INIT IPI to LAPIC ID '' 10 (ucast lapic_id) ''\<newline>'' s))"

definition hex8_text :: "u8 \<Rightarrow> string" where
  "hex8_text v = ''0x'' @ map (\<lambda>n. ''0123456789ABCDEF'' ! unat n) [drop_bit 4 v AND 0xF, v AND 0xF]"

definition lapic_send_startup :: "env \<Rightarrow> u32 \<Rightarrow> u8 \<Rightarrow> 'a machine_scheme \<Rightarrow> 'a machine_scheme option" where
  "lapic_send_startup e lapic_id vec s =
     (let icr1 = push_bit APIC_ICR_DELIVERY_MODE_SHIFT APIC_DELIVERY_MODE_SIPI
             OR push_bit APIC_ICR_LEVEL_SHIFT APIC_LEVEL_ASSERT
             OR push_bit APIC_ICR_TRIGGER_MODE_SHIFT APIC_TRIGGER_MODE_EDGE
             OR push_bit APIC_ICR_DEST_SHORTHAND_SHIFT APIC_DEST_SHORTHAND_NONE OR (ucast vec AND 0xFF);
          icr2 = push_bit 24 (lapic_id AND 0xFF);
          s1 = klog_num ''[APIC] Sending SIPI IPI to LAPIC ID '' 10 (ucast lapic_id) '' with vector 0x'' s
      in lapic_send_ipi e icr1 icr2 (klog ''\<newline>'' (klog (hex8_text vec) s1)))"

section \<open>The timer, and the initialisation\<close>

definition lapic_timer_init :: "u8 \<Rightarrow> u32 \<Rightarrow> 'a machine_scheme \<Rightarrow> 'a machine_scheme" where
  "lapic_timer_init vec frequency s =
     (if \<not> apic_on (apic s) then s
      else let s1 = klog_num ''[APIC] Configuring LAPIC timer for '' 10 (ucast frequency) '' Hz...\<newline>'' s;
               s2 = lapic_write LAPIC_TIMER_DIVIDER 0x3 s1;
               s3 = lapic_write LAPIC_LVT_TIMER (ucast vec OR LAPIC_TIMER_PERIODIC) s2;
               assumed_lapic_freq = (1000000000 :: u32);
               divisor = (16 :: u32);
               temp_calc = (ucast assumed_lapic_freq div ucast divisor :: u64)
           in if frequency = 0 \<or> temp_calc div ucast frequency = 0
              then klog ''[APIC] ERROR: Invalid frequency for LAPIC timer!\<newline>'' s3
              else let initial_count = (ucast (temp_calc div ucast frequency) - 1 :: u32)
                   in if initial_count = 0
                      then klog ''[APIC] ERROR: Calculated initial count is zero, frequency too high!\<newline>'' s3
                      else let s4 = lapic_write LAPIC_TIMER_INITIAL initial_count s3
                           in klog_num '''' 10 (ucast frequency) '' Hz)\<newline>''
                                (klog_num ''[APIC] LAPIC timer configured with initial count: '' 10
                                   (ucast initial_count) '' (for ~'' s4))"

definition lapic_timer_stop :: "'a machine_scheme \<Rightarrow> 'a machine_scheme" where
  "lapic_timer_stop s = (if \<not> apic_on (apic s) then s else lapic_write LAPIC_LVT_TIMER 0x10000 s)"

definition zero_apic :: apic_state where
  "zero_apic = \<lparr>lapic_base = 0, ioapic_base = 0, hpet_base = 0, hpet_frequency = 0, apic_on = False,
     ioapic_on = False, hpet_on = False, bsp_lapic_id = 0\<rparr>"

definition apic_init :: "env \<Rightarrow> u64 option \<Rightarrow> 'a machine_scheme \<Rightarrow> 'a machine_scheme option" where
  "apic_init e hhdm_response s =
     (let s1 = klog ''[APIC] Initializing APIC subsystem...\<newline>'' (s\<lparr>apic := zero_apic\<rparr>);
          s2 = s1\<lparr>apic := (apic s1)\<lparr>apic_on := apic_available e\<rparr>\<rparr>
      in if \<not> apic_on (apic s2) then Some (klog ''[APIC] APIC not supported, using PIC mode\<newline>'' s2)
         else if hhdm_response = None
         then Some ((klog ''[APIC] ERROR: No HHDM response provided!\<newline>'' s2)\<lparr>apic := (apic s2)\<lparr>apic_on := False\<rparr>\<rparr>)
         else let s3 = lapic_init e hhdm_response s2
              in map_option (klog ''[APIC] APIC initialization complete\<newline>'')
                   (if acpi_on (acpi s3)
                    then map_option (\<lambda>t. let u = hpet_init e hhdm_response t
                           in if ioapic_on (apic u)
                              then klog ''[APIC] APIC mode enabled, PIC disabled\<newline>'' (apic_disable_pic u)
                              else klog ''[APIC] Using hybrid mode (PIC + LAPIC)\<newline>'' u)
                         (ioapic_init hhdm_response s3)
                    else Some (klog ''[APIC] ACPI not available, using PIC mode\<newline>'' s3)))"

end
