(* ===== verification/Interrupts.thy ===== *)
theory Interrupts
  imports Apic
begin

text \<open>
  Interrupts: the descriptor table and the dispatcher (idt.c), the exception handlers (isr.c and the
  fault handlers of paging.c), the device interrupts (irq.c) and the timer handler of apic.c. A
  handler ends in one of three ways: it returns to the interrupted code, it stops the processor for
  good, or, in the timer tick, it leaves for another task and never returns to its caller.
\<close>

section \<open>The interrupt descriptor table\<close>

definition IDT_PRESENT :: u8 where "IDT_PRESENT = push_bit 7 1"
definition IDT_RING0 :: u8 where "IDT_RING0 = push_bit 5 0"
definition IDT_RING3 :: u8 where "IDT_RING3 = push_bit 5 3"
definition IDT_TYPE_INT :: u8 where "IDT_TYPE_INT = 0x0E"

definition EXCEPTION_BREAKPOINT :: u64 where "EXCEPTION_BREAKPOINT = 3"
definition EXCEPTION_OVERFLOW :: u64 where "EXCEPTION_OVERFLOW = 4"
definition EXCEPTION_DOUBLE_FAULT :: u8 where "EXCEPTION_DOUBLE_FAULT = 8"
definition EXCEPTION_GPF :: u8 where "EXCEPTION_GPF = 13"
definition EXCEPTION_PAGE_FAULT :: u8 where "EXCEPTION_PAGE_FAULT = 14"

definition idt_entry_of :: "u64 \<Rightarrow> u16 \<Rightarrow> u8 \<Rightarrow> idt_entry" where
  "idt_entry_of base sel attr =
     \<lparr>idt_base_low = ucast (base AND 0xFFFF), selector = sel, ist = 0, type_attr = attr,
      idt_base_middle = ucast (drop_bit 16 base AND 0xFFFF),
      idt_base_high = ucast (drop_bit 32 base AND 0xFFFFFFFF), idt_zero = 0\<rparr>"

definition idt_set_entry :: "u8 \<Rightarrow> u64 \<Rightarrow> u16 \<Rightarrow> u8 \<Rightarrow> 'a machine_scheme \<Rightarrow> 'a machine_scheme" where
  "idt_set_entry index base sel attr s = s\<lparr>idt := (idt s)[unat index := idt_entry_of base sel attr]\<rparr>"

definition isr_install_handler :: "u8 \<Rightarrow> isr_handler_t \<Rightarrow> 'a machine_scheme \<Rightarrow> 'a machine_scheme" where
  "isr_install_handler num handler s =
     klog_num ''[IDT] Installed handler for interrupt '' 10 (ucast num) ''\<newline>''
       (s\<lparr>isr_handlers := (isr_handlers s)[unat num := Some handler]\<rparr>)"

definition isr_uninstall_handler :: "u8 \<Rightarrow> 'a machine_scheme \<Rightarrow> 'a machine_scheme" where
  "isr_uninstall_handler num s = s\<lparr>isr_handlers := (isr_handlers s)[unat num := None]\<rparr>"

text \<open>The 48 calls of \<open>idt_init\<close>, one for each vector with a stub; breakpoint and overflow are the two
  gates that ring 3 may use.\<close>

definition gate_attr :: "nat \<Rightarrow> u8" where
  "gate_attr v = IDT_PRESENT OR (if v = 3 \<or> v = 4 then IDT_RING3 else IDT_RING0) OR IDT_TYPE_INT"

definition idt_init :: "env \<Rightarrow> 'a machine_scheme \<Rightarrow> 'a machine_scheme" where
  "idt_init e s =
     (let s1 = klog ''[IDT] Initializing IDT...\<newline>'' s;
          s2 = fold (\<lambda>i. idt_set_entry (of_nat i) 0 0 0) [0..<256] s1;
          s3 = fold (\<lambda>v. idt_set_entry (of_nat v) (isr_stub e (of_nat v)) 0x08 (gate_attr v)) [0..<48] s2;
          s4 = s3\<lparr>idtp := \<lparr>tp_limit = 256 * 16 - 1, tp_base = idt_addr e\<rparr>\<rparr>;
          s5 = fold (\<lambda>i. isr_install_handler (of_nat i) Exception_handler) [0..<32] s4;
          s6 = isr_install_handler EXCEPTION_PAGE_FAULT Handle_page_fault s5;
          s7 = isr_install_handler EXCEPTION_GPF Handle_general_protection_fault s6;
          s8 = isr_install_handler EXCEPTION_DOUBLE_FAULT Handle_double_fault s7
      in klog ''[IDT] IDT entries set up (0-31: exceptions)\<newline>'' s8)"

text \<open>\<open>lidt\<close> on the structure at the address in RDI.\<close>

definition idt_flush :: "table_ptr \<Rightarrow> 'a machine_scheme \<Rightarrow> 'a machine_scheme" where
  "idt_flush p s = s\<lparr>idtr := Some p\<rparr>"

definition idt_load :: "'a machine_scheme \<Rightarrow> 'a machine_scheme" where
  "idt_load s =
     (let s1 = klog ''[IDT] Loading IDT...\<newline>'' s;
          s2 = idt_flush (idtp s1) s1;
          s3 = s2\<lparr>interrupts_on := True\<rparr>
      in klog ''[IDT] Interrupts enabled\<newline>'' s3)"

section \<open>Outcomes\<close>

datatype 'm outcome = Resumed 'm | Halted 'm | Switched cpu 'm

record registers =
  int_no :: u64
  err_code :: u64
  reg_rip :: u64

text \<open>\<open>printf\<close> calls in a row.\<close>

primrec prints :: "(string \<times> vararg list) list \<Rightarrow> 'a machine_scheme \<Rightarrow> 'a machine_scheme option" where
  "prints [] s = Some s"
| "prints (p # ps) s = (case printf (fst p) (snd p) s of None \<Rightarrow> None | Some (_, t) \<Rightarrow> prints ps t)"

section \<open>Exceptions\<close>

definition exception_messages :: "string list" where
  "exception_messages = [''Division By Zero'', ''Debug'', ''Non Maskable Interrupt'', ''Breakpoint'',
     ''Into Detected Overflow'', ''Out of Bounds'', ''Invalid Opcode'', ''No Coprocessor'', ''Double Fault'',
     ''Coprocessor Segment Overrun'', ''Bad TSS'', ''Segment Not Present'', ''Stack Fault'',
     ''General Protection Fault'', ''Page Fault'', ''Unknown Interrupt'', ''Coprocessor Fault'',
     ''Alignment Check'', ''Machine Check''] @ replicate 13 ''Reserved''"

definition exception_handler :: "registers \<Rightarrow> 'a machine_scheme \<Rightarrow> 'a machine_scheme outcome option" where
  "exception_handler r s =
     (if int_no r < 32
      then case prints ([(''\<newline>=== EXCEPTION %d ===\<newline>'', [IntArg (int_no r)]),
              (''%s\<newline>'', [StrArg (Some (exception_messages ! unat (int_no r)))]),
              (''Error Code: 0x%x\<newline>'', [IntArg (err_code r)]),
              (''RIP: 0x%x\<newline>'', [IntArg (reg_rip r)])]
             @ (if int_no r = ucast EXCEPTION_PAGE_FAULT then [(''Fault Address: 0x%x\<newline>'', [IntArg (cr2 s)])] else [])) s of
             None \<Rightarrow> None
           | Some t \<Rightarrow>
               if int_no r = EXCEPTION_BREAKPOINT \<or> int_no r = EXCEPTION_OVERFLOW
               then map_option Resumed (prints [(''Non-critical exception, continuing...\<newline>'', [])] t)
               else map_option Halted (prints [(''System Halted.\<newline>'', [])] t)
      else Some (Halted s))"

definition handle_double_fault :: "'a machine_scheme \<Rightarrow> 'a machine_scheme outcome" where
  "handle_double_fault s = Halted (klog ''\<newline>[EXCEPTION] DOUBLE FAULT! System halted.\<newline>'' s)"

definition page_fault_report :: "registers \<Rightarrow> 'a machine_scheme \<Rightarrow> 'a machine_scheme outcome option" where
  "page_fault_report r s =
     map_option Halted (prints [(''\<newline>PAGE FAULT\<newline>'', []), (''Fault Address: 0x%x\<newline>'', [IntArg (cr2 s)]),
       (''Error Code: 0x%x\<newline>'', [IntArg (err_code r)]),
       (if err_code r AND 0x1 \<noteq> 0 then ''Type: Protection Violation\<newline>'' else ''Type: Page Not Present\<newline>'', []),
       (''Unrecoverable page fault - System Halted\<newline>'', [])] s)"

definition handle_page_fault :: "registers \<Rightarrow> 'a machine_scheme \<Rightarrow> 'a machine_scheme outcome option" where
  "handle_page_fault r s =
     (let fault_address = cr2 s
      in if err_code r AND 0x1 = 0 \<and> HEAP_START \<le> fault_address \<and> fault_address < HEAP_START + HEAP_MAX_SIZE
         then let page_base = fault_address AND PAGE_MASK;
                  (phys, s1) = pmm_alloc_page s
              in if phys = 0 then page_fault_report r s1
                 else let (mapped, s2) = paging_map_page page_base phys (PAGING_PRESENT OR PAGING_WRITABLE) s1
                      in if \<not> mapped then page_fault_report r s2
                         else let s3 = klog_num ''[PAGING] Auto-mapped heap page at 0x'' 16 page_base ''\<newline>'' s2
                              in Some (Resumed (s3\<lparr>kmem := snd (memset page_base 0 PAGE_SIZE (kmem s3))\<rparr>))
         else page_fault_report r s)"

definition handle_general_protection_fault ::
  "registers \<Rightarrow> 'a machine_scheme \<Rightarrow> 'a machine_scheme outcome option" where
  "handle_general_protection_fault r s =
     (case prints [(''\<newline>!!! GENERAL PROTECTION FAULT !!!\<newline>'', []), (''Error Code: 0x%x\<newline>'', [IntArg (err_code r)])] s of
        None \<Rightarrow> None
      | Some t \<Rightarrow>
          if err_code r = 0 then map_option Resumed (prints [(''Non-critical GPF - continuing...\<newline>'', [])] t)
          else map_option Halted (prints [(''Critical GPF - System Halted\<newline>'', [])] t))"

section \<open>Device interrupts\<close>

definition irq_default_handler :: "registers \<Rightarrow> 'a machine_scheme \<Rightarrow> 'a machine_scheme" where
  "irq_default_handler r s = klog_num ''[IRQ] Default handler for IRQ'' 10 (int_no r - 32) ''\<newline>'' s"

definition irq_install_handler :: "u8 \<Rightarrow> isr_handler_t \<Rightarrow> 'a machine_scheme \<Rightarrow> 'a machine_scheme" where
  "irq_install_handler irq handler s =
     (if irq < 16
      then pic_unmask_irq irq (klog_num ''[IRQ] Installed handler for IRQ'' 10 (ucast irq) ''\<newline>''
             (s\<lparr>irq_handlers := (irq_handlers s)[unat irq := Some handler]\<rparr>))
      else s)"

definition irq_uninstall_handler :: "u8 \<Rightarrow> 'a machine_scheme \<Rightarrow> 'a machine_scheme" where
  "irq_uninstall_handler irq s =
     (if irq < 16 then pic_mask_irq irq (s\<lparr>irq_handlers := (irq_handlers s)[unat irq := None]\<rparr>) else s)"

definition irq_init :: "'a machine_scheme \<Rightarrow> 'a machine_scheme" where
  "irq_init s =
     klog ''[IRQ] IRQ handlers initialized\<newline>''
       (fold (\<lambda>i. irq_install_handler (of_nat i) Irq_default_handler) [0..<16]
         (klog ''[IRQ] Initializing IRQ handlers...\<newline>'' s))"

text \<open>Every tenth timer interrupt calls the scheduler, with the registers \<open>c\<close> at that call.\<close>

definition lapic_timer_handler :: "env \<Rightarrow> cpu \<Rightarrow> 'a machine_scheme \<Rightarrow> 'a machine_scheme outcome option" where
  "lapic_timer_handler e c s =
     (let s1 = s\<lparr>lapic_ticks := lapic_ticks s + 1\<rparr>
      in if lapic_ticks s1 mod 10 = 0
         then map_option (\<lambda>(sw, t). case sw of None \<Rightarrow> Resumed t | Some c' \<Rightarrow> Switched c' t)
                (task_scheduler_tick (resume_label e) c s1)
         else Some (Resumed s1))"

section \<open>Dispatch\<close>

definition run_handler ::
  "env \<Rightarrow> cpu \<Rightarrow> isr_handler_t \<Rightarrow> registers \<Rightarrow> 'a machine_scheme \<Rightarrow> 'a machine_scheme outcome option" where
  "run_handler e c h r s =
     (case h of
        Exception_handler \<Rightarrow> exception_handler r s
      | Handle_page_fault \<Rightarrow> handle_page_fault r s
      | Handle_general_protection_fault \<Rightarrow> handle_general_protection_fault r s
      | Handle_double_fault \<Rightarrow> Some (handle_double_fault s)
      | Irq_default_handler \<Rightarrow> Some (Resumed (irq_default_handler r s))
      | Lapic_timer_handler \<Rightarrow> lapic_timer_handler e c s
      | Lapic_timer_handler_for_sleep \<Rightarrow> Some (Resumed (lapic_timer_handler_for_sleep s))
      | Pit_timer_handler \<Rightarrow> Some (Resumed (pit_timer_handler s)))"

definition send_eoi :: "env \<Rightarrow> u8 \<Rightarrow> 'a machine_scheme \<Rightarrow> 'a machine_scheme" where
  "send_eoi e irq_num s = (if apic_available e then lapic_eoi s else pic_send_eoi irq_num s)"

definition irq_handler :: "env \<Rightarrow> cpu \<Rightarrow> registers \<Rightarrow> 'a machine_scheme \<Rightarrow> 'a machine_scheme outcome option" where
  "irq_handler e c r s =
     (let irq_num = (ucast (int_no r - 32) :: u8)
      in map_option (\<lambda>res. case res of Resumed t \<Rightarrow> Resumed (send_eoi e irq_num t) | other \<Rightarrow> other)
           (case irq_handlers s ! unat irq_num of
              Some h \<Rightarrow> run_handler e c h r s
            | None \<Rightarrow> Some (Resumed (irq_default_handler r s))))"

definition isr_handler :: "env \<Rightarrow> cpu \<Rightarrow> registers \<Rightarrow> 'a machine_scheme \<Rightarrow> 'a machine_scheme outcome option" where
  "isr_handler e c r s =
     (case isr_handlers s ! unat (int_no r) of
        Some h \<Rightarrow> run_handler e c h r s
      | None \<Rightarrow>
          if 32 \<le> int_no r \<and> int_no r < 48 then irq_handler e c r s
          else let s1 = klog_num ''[ISR] No handler for interrupt '' 10 (int_no r) ''\<newline>'' s
               in if int_no r < 32
                  then Some (Halted (klog ''[ISR] Unhandled exception! System halted.\<newline>'' s1))
                  else Some (Resumed s1))"

end
