(* ===== verification/Gdt.thy ===== *)
theory Gdt
  imports Machine
begin

text \<open>
  The segment descriptor table (gdt.c): entries packed into the fields of a descriptor, the five
  entries of the kernel, and the loading of the segment registers.
\<close>

definition GDT_ACCESS_PRESENT :: u8 where "GDT_ACCESS_PRESENT = push_bit 7 1"
definition GDT_ACCESS_RING0 :: u8 where "GDT_ACCESS_RING0 = push_bit 5 0"
definition GDT_ACCESS_SEGMENT :: u8 where "GDT_ACCESS_SEGMENT = push_bit 4 1"
definition GDT_ACCESS_EXECUTABLE :: u8 where "GDT_ACCESS_EXECUTABLE = push_bit 3 1"
definition GDT_ACCESS_READ_WRITE :: u8 where "GDT_ACCESS_READ_WRITE = push_bit 1 1"
definition GDT_GRANULARITY_4K :: u8 where "GDT_GRANULARITY_4K = push_bit 7 1"
definition GDT_GRANULARITY_LONG :: u8 where "GDT_GRANULARITY_LONG = push_bit 5 1"

lemmas gdt_flags = GDT_ACCESS_PRESENT_def GDT_ACCESS_RING0_def GDT_ACCESS_SEGMENT_def
  GDT_ACCESS_EXECUTABLE_def GDT_ACCESS_READ_WRITE_def GDT_GRANULARITY_4K_def GDT_GRANULARITY_LONG_def

definition gdt_entry_of :: "u32 \<Rightarrow> u32 \<Rightarrow> u8 \<Rightarrow> u8 \<Rightarrow> gdt_entry" where
  "gdt_entry_of base lim acc gran =
     \<lparr>limit_low = ucast (lim AND 0xFFFF),
      gdt_base_low = ucast (base AND 0xFFFF),
      gdt_base_middle = ucast (drop_bit 16 base AND 0xFF),
      access = acc,
      granularity = ucast (drop_bit 16 lim AND 0x0F) OR (gran AND 0xF0),
      gdt_base_high = ucast (drop_bit 24 base AND 0xFF)\<rparr>"

definition gdt_set_entry :: "nat \<Rightarrow> u32 \<Rightarrow> u32 \<Rightarrow> u8 \<Rightarrow> u8 \<Rightarrow> 'a machine_scheme \<Rightarrow> 'a machine_scheme" where
  "gdt_set_entry index base lim acc gran s = s\<lparr>gdt := (gdt s)[index := gdt_entry_of base lim acc gran]\<rparr>"

definition gdt_init :: "env \<Rightarrow> 'a machine_scheme \<Rightarrow> 'a machine_scheme" where
  "gdt_init e s =
     (let s1 = klog ''[GDT] Initializing GDT...\<newline>'' s;
          s2 = gdt_set_entry 0 0 0 0 0 s1;
          s3 = gdt_set_entry 1 0 0xFFFFF
                 (GDT_ACCESS_PRESENT OR GDT_ACCESS_RING0 OR GDT_ACCESS_SEGMENT OR GDT_ACCESS_EXECUTABLE OR GDT_ACCESS_READ_WRITE)
                 (GDT_GRANULARITY_4K OR GDT_GRANULARITY_LONG) s2;
          s4 = gdt_set_entry 2 0 0xFFFFF
                 (GDT_ACCESS_PRESENT OR GDT_ACCESS_RING0 OR GDT_ACCESS_SEGMENT OR GDT_ACCESS_READ_WRITE)
                 GDT_GRANULARITY_4K s3;
          s5 = gdt_set_entry 3 0 0 0 0 s4;
          s6 = gdt_set_entry 4 0 0 0 0 s5;
          s7 = s6\<lparr>gdt_ptr := \<lparr>tp_limit = 5 * 8 - 1, tp_base = gdt_addr e\<rparr>\<rparr>
      in klog ''[GDT] GDT entries set up\<newline>'' s7)"

definition gdt_load :: "'a machine_scheme \<Rightarrow> 'a machine_scheme" where
  "gdt_load s =
     (let s1 = klog ''[GDT] Loading GDT...\<newline>'' s;
          s2 = s1\<lparr>gdtr := Some (gdt_ptr s1)\<rparr>;
          s3 = s2\<lparr>segs := (\<lambda>_. 0x10)(CS := 0x08)\<rparr>
      in klog ''[GDT] GDT loaded successfully\<newline>'' s3)"

definition gdt_get_descriptor :: "int \<Rightarrow> 'a machine_scheme \<Rightarrow> gdt_entry option" where
  "gdt_get_descriptor index s = (if 0 \<le> index \<and> index < 5 then Some (gdt s ! nat index) else None)"

section \<open>Decoding\<close>

text \<open>How the processor reads a descriptor.\<close>

definition gdt_base :: "gdt_entry \<Rightarrow> u32" where
  "gdt_base g = ucast (gdt_base_low g) OR push_bit 16 (ucast (gdt_base_middle g)) OR push_bit 24 (ucast (gdt_base_high g))"

definition gdt_limit :: "gdt_entry \<Rightarrow> u32" where
  "gdt_limit g = ucast (limit_low g) OR push_bit 16 (ucast (granularity g AND 0x0F))"

lemma bit_low_mask:
  "bit (0x0F :: 'a::semiring_bit_operations) n \<longleftrightarrow> possible_bit TYPE('a) n \<and> n < 4"
  "bit (0xFF :: 'a) n \<longleftrightarrow> possible_bit TYPE('a) n \<and> n < 8"
  "bit (0xFFFF :: 'a) n \<longleftrightarrow> possible_bit TYPE('a) n \<and> n < 16"
proof -
  have "(0x0F :: 'a) = mask 4" "(0xFF :: 'a) = mask 8" "(0xFFFF :: 'a) = mask 16"
    by (simp_all add: mask_numeral)
  then show "bit (0x0F :: 'a::semiring_bit_operations) n \<longleftrightarrow> possible_bit TYPE('a) n \<and> n < 4"
    "bit (0xFF :: 'a) n \<longleftrightarrow> possible_bit TYPE('a) n \<and> n < 8"
    "bit (0xFFFF :: 'a) n \<longleftrightarrow> possible_bit TYPE('a) n \<and> n < 16"
    by (simp_all only: bit_mask_iff)
qed

lemma bit_F0: "bit (0xF0 :: 'a::semiring_bit_operations) n \<longleftrightarrow> possible_bit TYPE('a) n \<and> 4 \<le> n \<and> n < 8"
proof -
  have "(0xF0 :: 'a) = push_bit 4 0x0F" by (simp add: push_bit_eq_mult)
  then show ?thesis by (simp only: bit_push_bit_iff bit_low_mask) (auto intro: possible_bit_less_imp)
qed

lemma gdt_entry_decodes:
  "gdt_base (gdt_entry_of base lim acc gran) = base"
  "gdt_limit (gdt_entry_of base lim acc gran) = take_bit 20 lim"
  "access (gdt_entry_of base lim acc gran) = acc"
  "granularity (gdt_entry_of base lim acc gran) AND 0xF0 = gran AND 0xF0"
proof -
  show "gdt_base (gdt_entry_of base lim acc gran) = base"
  proof (rule bit_word_eqI)
    fix n assume "n < LENGTH(32)"
    then consider "n < 16" | "16 \<le> n" "n < 24" | "24 \<le> n" "n < 32" by force
    then show "bit (gdt_base (gdt_entry_of base lim acc gran)) n = bit base n"
      by cases (auto simp: gdt_base_def gdt_entry_of_def bit_simps bit_low_mask)
  qed
  show "gdt_limit (gdt_entry_of base lim acc gran) = take_bit 20 lim"
  proof (rule bit_word_eqI)
    fix n assume "n < LENGTH(32)"
    then consider "n < 16" | "16 \<le> n" "n < 20" | "20 \<le> n" "n < 32" by force
    then show "bit (gdt_limit (gdt_entry_of base lim acc gran)) n = bit (take_bit 20 lim) n"
      by cases (auto simp: gdt_limit_def gdt_entry_of_def bit_simps bit_low_mask bit_F0)
  qed
  show "granularity (gdt_entry_of base lim acc gran) AND 0xF0 = gran AND 0xF0"
    by (rule bit_word_eqI) (auto simp: gdt_entry_of_def bit_simps bit_low_mask bit_F0)
qed (simp add: gdt_entry_of_def)

text \<open>The table that \<open>gdt_init\<close> leaves.\<close>

lemma gdt_klog [simp]: "gdt (klog m s) = gdt s" "gdt_ptr (klog m s) = gdt_ptr s"
  by (simp_all add: klog_def)

lemma gdt_init_table:
  assumes "length (gdt s) = 5"
  shows "gdt (gdt_init e s) = [gdt_entry_of 0 0 0 0, gdt_entry_of 0 0xFFFFF 0x9A 0xA0,
      gdt_entry_of 0 0xFFFFF 0x92 0x80, gdt_entry_of 0 0 0 0, gdt_entry_of 0 0 0 0]"
proof -
  obtain a b c d f where g: "gdt s = [a, b, c, d, f]"
    using assms by (auto simp: numeral_eq_Suc length_Suc_conv)
  have k: "GDT_ACCESS_PRESENT OR GDT_ACCESS_RING0 OR GDT_ACCESS_SEGMENT OR GDT_ACCESS_EXECUTABLE OR GDT_ACCESS_READ_WRITE = 0x9A"
    "GDT_ACCESS_PRESENT OR GDT_ACCESS_RING0 OR GDT_ACCESS_SEGMENT OR GDT_ACCESS_READ_WRITE = 0x92"
    "GDT_GRANULARITY_4K OR GDT_GRANULARITY_LONG = 0xA0"
    by (simp_all add: gdt_flags)
  show ?thesis unfolding gdt_init_def Let_def k by (simp add: gdt_set_entry_def g numeral_2_eq_2 numeral_3_eq_3 numeral_eq_Suc GDT_GRANULARITY_4K_def)
qed

section \<open>gdt_asm.asm\<close>

text \<open>
  The routine of gdt_asm.asm, which nothing calls: the same sequence as in \<open>gdt_load\<close>, here with the
  far return through the stack. \<open>p\<close> is the structure at the address in RDI and \<open>here\<close> the address of
  the label \<open>.flush_here\<close>; the \<open>ret\<close> after the label is not part of the model.
\<close>

definition gdt_flush :: "u64 \<Rightarrow> table_ptr \<Rightarrow> cpu \<Rightarrow> 'a machine_scheme \<Rightarrow> cpu \<times> 'a machine_scheme" where
  "gdt_flush here p c s =
     (let s1 = s\<lparr>gdtr := Some p, segs := (segs s)(DS := 0x10, ES := 0x10, FS := 0x10, GS := 0x10, SS := 0x10)\<rparr>;
          (sp1, m1) = push 0x08 (rsp c, kmem s1);
          (sp2, m2) = push here (sp1, m1);
          far_cs = load64 m2 (sp2 + 8)
      in (c\<lparr>gpr := (gpr c)(RAX := here), rip := load64 m2 sp2, cs := far_cs, ss := 0x10, rsp := sp2 + 16\<rparr>,
          s1\<lparr>kmem := m2, segs := (segs s1)(CS := ucast far_cs)\<rparr>))"

lemma gdt_flush_registers:
  "rip (fst (gdt_flush here p c s)) = here" "rsp (fst (gdt_flush here p c s)) = rsp c"
  "cs (fst (gdt_flush here p c s)) = 0x08"
  by (simp_all add: gdt_flush_def push_def Let_def load64_store64_other apart8_def)

lemma gdt_flush_loads_as_gdt_load:
  "gdtr (snd (gdt_flush here (gdt_ptr s) c s)) = gdtr (gdt_load s)"
  "segs (snd (gdt_flush here (gdt_ptr s) c s)) = segs (gdt_load s)"
proof -
  have far: "load64 (store64 (rsp c - 16) here (store64 (rsp c - 8) 8 m)) (rsp c - 8) = 8" for m
    by (simp add: load64_store64_other apart8_def)
  show "gdtr (snd (gdt_flush here (gdt_ptr s) c s)) = gdtr (gdt_load s)"
    by (simp add: gdt_flush_def gdt_load_def push_def Let_def klog_def)
  show "segs (snd (gdt_flush here (gdt_ptr s) c s)) = segs (gdt_load s)"
  proof
    fix x show "segs (snd (gdt_flush here (gdt_ptr s) c s)) x = segs (gdt_load s) x"
      by (cases x) (simp_all add: gdt_flush_def gdt_load_def push_def Let_def klog_def far)
  qed
qed

end
