(* ===== verification/Interrupt_Lemmas.thy ===== *)
theory Interrupt_Lemmas
  imports Interrupts Gdt Vmm_Create Task_Switch
begin

text \<open>
  What the interrupt code leaves behind: the table that \<open>idt_init\<close> fills and how the processor reads
  it, the end-of-interrupt messages of a device interrupt, and the memory that a page fault in the
  heap's range maps.
\<close>

section \<open>The descriptor table\<close>

definition idt_base :: "idt_entry \<Rightarrow> u64" where
  "idt_base g = ucast (idt_base_low g) OR push_bit 16 (ucast (idt_base_middle g)) OR push_bit 32 (ucast (idt_base_high g))"

lemma bit_FFFFFFFF:
  "bit (0xFFFFFFFF :: 'a::semiring_bit_operations) n \<longleftrightarrow> possible_bit TYPE('a) n \<and> n < 32"
proof -
  have "(0xFFFFFFFF :: 'a) = mask 32" by (simp add: mask_numeral)
  then show ?thesis by (simp only: bit_mask_iff)
qed

lemma idt_entry_decodes: "idt_base (idt_entry_of base sel attr) = base"
proof (rule bit_word_eqI)
  fix n assume "n < LENGTH(64)"
  then consider "n < 16" | "16 \<le> n" "n < 32" | "32 \<le> n" "n < 64" by force
  then show "bit (idt_base (idt_entry_of base sel attr)) n = bit base n"
    by cases (auto simp: idt_base_def idt_entry_of_def bit_simps bit_low_mask bit_FFFFFFFF)
qed

lemma idt_klog [simp]:
  "idt (klog m s) = idt s" "isr_handlers (klog m s) = isr_handlers s" "idtp (klog m s) = idtp s"
  "idt (klog_num a b v c s) = idt s" "isr_handlers (klog_num a b v c s) = isr_handlers s"
  "idtp (klog_num a b v c s) = idtp s"
  by (simp_all add: klog_def klog_num_def)

lemma set_entry_table: "idt (idt_set_entry i b sel attr s) = (idt s)[unat i := idt_entry_of b sel attr]"
  "isr_handlers (idt_set_entry i b sel attr s) = isr_handlers s"
  by (simp_all add: idt_set_entry_def)

lemma install_table: "isr_handlers (isr_install_handler i h s) = (isr_handlers s)[unat i := Some h]"
  "idt (isr_install_handler i h s) = idt s" "idtp (isr_install_handler i h s) = idtp s"
  by (simp_all add: isr_install_handler_def)

lemma unat_u8: "i < 256 \<Longrightarrow> unat (of_nat i :: u8) = i"
  by (simp add: unat_of_nat)

lemma fold_set_entries:
  assumes "n \<le> 256" and "length (idt s) = 256"
  shows "length (idt (fold (\<lambda>i. idt_set_entry (of_nat i) (b i) sel (attr i)) [0..<n] s)) = 256
    \<and> (\<forall>v < 256. idt (fold (\<lambda>i. idt_set_entry (of_nat i) (b i) sel (attr i)) [0..<n] s) ! v
          = (if v < n then idt_entry_of (b v) sel (attr v) else idt s ! v))
    \<and> isr_handlers (fold (\<lambda>i. idt_set_entry (of_nat i) (b i) sel (attr i)) [0..<n] s) = isr_handlers s"
  using assms(1)
proof (induction n)
  case 0
  with assms(2) show ?case by simp
next
  case (Suc n)
  then show ?case by (auto simp: set_entry_table unat_u8 nth_list_update less_Suc_eq)
qed

lemma fold_install:
  assumes "n \<le> 256" and "length (isr_handlers s) = 256"
  shows "length (isr_handlers (fold (\<lambda>i. isr_install_handler (of_nat i) h) [0..<n] s)) = 256
    \<and> (\<forall>v < 256. isr_handlers (fold (\<lambda>i. isr_install_handler (of_nat i) h) [0..<n] s) ! v
          = (if v < n then Some h else isr_handlers s ! v))
    \<and> idt (fold (\<lambda>i. isr_install_handler (of_nat i) h) [0..<n] s) = idt s"
  using assms(1)
proof (induction n)
  case 0
  with assms(2) show ?case by simp
next
  case (Suc n)
  then show ?case by (auto simp: install_table unat_u8 nth_list_update less_Suc_eq)
qed

lemma idt_init_tables:
  assumes "length (idt s) = 256" and "length (isr_handlers s) = 256" and v: "v < 256"
  shows "idt (idt_init e s) ! v = (if v < 48 then idt_entry_of (isr_stub e (of_nat v)) 0x08 (gate_attr v)
      else idt_entry_of 0 0 0)"
    and "isr_handlers (idt_init e s) ! v = (if v = 14 then Some Handle_page_fault
      else if v = 13 then Some Handle_general_protection_fault else if v = 8 then Some Handle_double_fault
      else if v < 32 then Some Exception_handler else isr_handlers s ! v)"
proof -
  define s2 where "s2 = fold (\<lambda>i. idt_set_entry (of_nat i) 0 0 0) [0..<256] (klog ''[IDT] Initializing IDT...\<newline>'' s)"
  define s3 where "s3 = fold (\<lambda>v. idt_set_entry (of_nat v) (isr_stub e (of_nat v)) 0x08 (gate_attr v)) [0..<48] s2"
  have 2: "length (idt s2) = 256 \<and> (\<forall>v < 256. idt s2 ! v = idt_entry_of 0 0 0) \<and> isr_handlers s2 = isr_handlers s"
    using fold_set_entries [of 256 "klog ''[IDT] Initializing IDT...\<newline>'' s" "\<lambda>_. 0" 0 "\<lambda>_. 0"] assms(1)
    by (simp add: s2_def)
  have 3: "(\<forall>v < 256. idt s3 ! v = (if v < 48 then idt_entry_of (isr_stub e (of_nat v)) 0x08 (gate_attr v)
      else idt_entry_of 0 0 0)) \<and> isr_handlers s3 = isr_handlers s"
    using fold_set_entries [of 48 s2 "\<lambda>v. isr_stub e (of_nat v)" "0x08" gate_attr] 2 by (simp add: s3_def)
  note i = fold_install [of 32 "s3\<lparr>idtp := \<lparr>tp_limit = 256 * 16 - 1, tp_base = idt_addr e\<rparr>\<rparr>" Exception_handler]
  show "idt (idt_init e s) ! v = (if v < 48 then idt_entry_of (isr_stub e (of_nat v)) 0x08 (gate_attr v)
      else idt_entry_of 0 0 0)"
    using 3 v i assms(2) unfolding idt_init_def Let_def s2_def [symmetric] s3_def [symmetric]
    by (simp add: install_table)
  show "isr_handlers (idt_init e s) ! v = (if v = 14 then Some Handle_page_fault
      else if v = 13 then Some Handle_general_protection_fault else if v = 8 then Some Handle_double_fault
      else if v < 32 then Some Exception_handler else isr_handlers s ! v)"
    using 3 v i assms(2) unfolding idt_init_def Let_def s2_def [symmetric] s3_def [symmetric]
    by (simp add: install_table nth_list_update EXCEPTION_PAGE_FAULT_def EXCEPTION_GPF_def EXCEPTION_DOUBLE_FAULT_def)
qed

lemma gate_attr_bits: "gate_attr v = (if v = 3 \<or> v = 4 then 0xEE else 0x8E)"
  by (simp add: gate_attr_def IDT_PRESENT_def IDT_RING0_def IDT_RING3_def IDT_TYPE_INT_def)


section \<open>Demand paging\<close>

text \<open>Writing above the frames of the tables changes no translation.\<close>

lemma tables_kept:
  assumes tree: "pt_tree off s" and off: "unat off mod 4096 = 0"
    and below: "\<And>f. table_frame off s f \<Longrightarrow> f < N" and N: "N * 4096 + unat off \<le> B"
    and m: "\<And>x. unat x < B \<Longrightarrow> m' x = kmem s x"
  shows "tree_path p \<Longrightarrow> table_of off s p = Some t \<Longrightarrow> i < 512 \<Longrightarrow> entry_get m' t i = entry_get (kmem s) t i"
    and "tree_path p \<Longrightarrow> tbl m' off (pt_root off s) p = table_of off s p"
proof -
  have e: "entry_get m' t i = entry_get (kmem s) t i" if p: "tree_path p" "table_of off s p = Some t" "i < 512" for p t i
  proof -
    obtain f where f: "in_frame off f t" using pt_tree_frame [OF tree p(1,2)] by blast
    then have "f < N" using p by (intro below) (auto simp: table_frame_def)
    from entry_get_below [OF f off p(3) this N m] show ?thesis .
  qed
  then show "tree_path p \<Longrightarrow> table_of off s p = Some t \<Longrightarrow> i < 512 \<Longrightarrow> entry_get m' t i = entry_get (kmem s) t i" .
  show "tbl m' off (pt_root off s) p = table_of off s p" if "tree_path p"
    by (rule tbl_agree [OF _ that]) (use e in \<open>auto simp: tree_path_Cons\<close>)
qed

lemma translation_kept:
  assumes "pt_tree off s" and "unat off mod 4096 = 0"
    and "\<And>f. table_frame off s f \<Longrightarrow> f < N" and "N * 4096 + unat off \<le> B"
    and "\<And>x. unat x < B \<Longrightarrow> m' x = kmem s x"
  shows "translation off (s\<lparr>kmem := m'\<rparr>) va = translation off s va"
  using tables_kept [OF assms, of "pt_path va"] by (simp add: leaf_def split: option.split)

lemma drop_page_mask:
  assumes "12 \<le> n"
  shows "drop_bit n (a AND PAGE_MASK) = drop_bit n a"
proof (rule bit_word_eqI)
  fix k assume "k < LENGTH(64)"
  show "bit (drop_bit n (a AND PAGE_MASK)) k = bit (drop_bit n a) k"
    unfolding bit_drop_bit_eq o_def page_mask_bit using assms by simp
qed

lemma indices_page_mask [simp]:
  "pml4_index (a AND PAGE_MASK) = pml4_index a" "pdp_index (a AND PAGE_MASK) = pdp_index a"
  "pd_index (a AND PAGE_MASK) = pd_index a" "pt_index (a AND PAGE_MASK) = pt_index a"
  unfolding pml4_index_def pdp_index_def pd_index_def pt_index_def by (simp_all add: drop_page_mask del: drop_bit_and)

lemma same_page_mask [simp]: "same_page va (a AND PAGE_MASK) = same_page va a"
  by (simp add: same_page_def pt_path_def)

lemma unat_page_mask: "unat (a AND PAGE_MASK) = unat a div 4096 * 4096"
proof -
  have "a AND PAGE_MASK = push_bit 12 (drop_bit 12 a)"
    by (rule bit_word_eqI) (auto simp: page_mask_bit bit_push_bit_iff bit_drop_bit_eq)
  moreover have "push_bit 12 (drop_bit 12 a) + take_bit 12 a = a" by (rule bits_ident)
  ultimately have e: "a AND PAGE_MASK = a - take_bit 12 a" by (simp add: eq_diff_eq)
  have u: "unat (take_bit 12 a) = unat a mod 4096" unfolding unsigned_take_bit_eq by (simp add: take_bit_eq_mod)
  then have "take_bit 12 a \<le> a" by (simp add: word_le_nat_alt)
  then have "unat (a AND PAGE_MASK) = unat a - unat a mod 4096" unfolding e by (simp add: unat_sub_no_wrap u)
  then show ?thesis by (simp add: minus_mod_eq_div_mult)
qed

lemma heap_page_base:
  assumes "HEAP_START \<le> a"
  shows "HEAP_BASE \<le> unat (a AND PAGE_MASK)" and "unat (a AND PAGE_MASK) + 4096 \<le> 2 ^ 64"
proof -
  have "HEAP_BASE div 4096 \<le> unat a div 4096"
    using assms by (intro div_le_mono) (simp add: word_le_nat_alt HEAP_START_def HEAP_BASE_def)
  then have "HEAP_BASE div 4096 * 4096 \<le> unat a div 4096 * 4096" by simp
  then show "HEAP_BASE \<le> unat (a AND PAGE_MASK)" unfolding unat_page_mask by (simp add: HEAP_BASE_def)
  have "unat a < 2 ^ 64" by (rule unat_u64_bound)
  then have "unat a div 4096 < 2 ^ 52" by simp
  then have "unat a div 4096 * 4096 + 4096 \<le> 2 ^ 52 * 4096" by linarith
  then show "unat (a AND PAGE_MASK) + 4096 \<le> 2 ^ 64" unfolding unat_page_mask by simp
qed


lemma klog_cr3: "cr3 (klog_num a b v d s) = cr3 s"
  by (simp add: klog_num_def klog_def)

lemma heap_fault_maps:
  fixes s :: "'a machine_scheme"
  assumes ok: "paging_ok off s" and below: "tables_below off s"
    and win: "unat (total_pages s) * 4096 + unat off \<le> HEAP_BASE"
    and F: "F \<inter> taken s = {}" "4 \<le> card F"
    and fault: "err_code r AND 0x1 = 0" "HEAP_START \<le> cr2 s" "cr2 s < HEAP_START + HEAP_MAX_SIZE"
  shows "\<exists>t a. handle_page_fault r s = Some (Resumed t)
    \<and> unat a div 4096 \<notin> taken s \<and> unat a mod 4096 = 0
    \<and> (\<forall>va. translation off t va = (if same_page va (cr2 s) then Some (a OR PAGING_PRESENT OR PAGING_WRITABLE)
         else translation off s va))
    \<and> (\<forall>x. x - (cr2 s AND PAGE_MASK) < PAGE_SIZE \<longrightarrow> kmem t x = 0)"
proof -
  let ?base = "cr2 s AND PAGE_MASK" and ?fl = "PAGING_PRESENT OR PAGING_WRITABLE"
  have pok: "pmm_ok s" and off: "unat off mod 4096 = 0" using ok by (simp_all add: paging_ok_def window_ok_def)
  obtain a s1 where al: "pmm_alloc_page s = (a, s1)" by fastforce
  have "F \<noteq> {}" using F(2) by auto
  then have a0: "a \<noteq> 0" using alloc_page_exhausted [OF pok] F(1) al by auto
  have ok1: "paging_ok off s1" using alloc_page_paging_ok [OF ok] al by simp
  define f where "f = unat a div 4096"
  have f: "f \<notin> taken s" "taken s1 = insert f (taken s)" "unat a mod 4096 = 0"
    using avail.alloc_new [OF pok] avail.alloc_aligned [OF pok] al a0 by (auto simp: f_def)
  have "finite F" using F(2) by (metis card.infinite not_numeral_le_zero)
  then have "3 \<le> card (F - {f})" using F(2) by (simp add: card_Diff_singleton_if) linarith
  moreover have "(F - {f}) \<inter> taken s1 = {}" using F(1) f(2) by blast
  ultimately have "fst (paging_map_page ?base a ?fl s1)" by (intro map_page_succeeds [OF ok1])
  then obtain s2 where m: "paging_map_page ?base a ?fl s1 = (True, s2)" by (metis prod.collapse)
  note me = map_page_effect [OF ok1 m]
  define s3 where "s3 = klog_num ''[PAGING] Auto-mapped heap page at 0x'' 16 ?base ''\<newline>'' s2"
  define t where "t = s3\<lparr>kmem := snd (memset ?base 0 PAGE_SIZE (kmem s3))\<rparr>"
  have run: "handle_page_fault r s = Some (Resumed t)"
    using fault al a0 m by (simp add: handle_page_fault_def t_def s3_def Let_def)
  have tr1: "translation off s1 va = translation off s va" "table_of off s1 q = table_of off s q" for va q
    using alloc_page_paging [of s] alloc_page_window(2) [of off s] al by simp_all
  have tf: "g < unat (total_pages s)" if "table_frame off s3 g" for g
  proof -
    have "table_frame off s2 g" using that by (simp add: s3_def table_frame_def klog_num_def klog_def pt_root_def)
    then have "table_frame off s1 g \<or> g \<notin> taken s1" by (rule map_page_frames [OF ok1 m])
    then have "table_frame off s g \<or> g \<notin> taken s" using f(2) by (auto simp: table_frame_def tr1(2))
    with below show ?thesis by (auto simp: tables_below_def taken_def allocatable_def)
  qed
  have t3: "pt_tree off s3" "translation off s3 va = translation off s2 va" for va
    using me(1) by (simp_all add: s3_def paging_ok_def pt_root_def klog_cr3)
  have "translation off t va = translation off s3 va" for va
    unfolding t_def
  proof (rule translation_kept [OF t3(1) off tf win])
    fix x :: u64 assume x: "unat x < HEAP_BASE"
    have "\<not> x - ?base < PAGE_SIZE"
    proof
      assume "x - ?base < PAGE_SIZE"
      then have lt: "unat (x - ?base) < 4096" by (simp add: word_less_nat_alt PAGE_SIZE_def)
      with heap_page_base(2) [OF fault(2)] have "unat ?base + unat (x - ?base) < 2 ^ LENGTH(64)" by simp
      then have "unat (?base + (x - ?base)) = unat ?base + unat (x - ?base)" by (rule unat_add_no_wrap)
      with x heap_page_base(1) [OF fault(2)] show False by simp
    qed
    then show "snd (memset ?base 0 PAGE_SIZE (kmem s3)) x = kmem s3 x" by (simp add: memset_apply)
  qed
  then have "translation off t va = (if same_page va (cr2 s) then Some (a OR ?fl) else translation off s va)" for va
    using me(2) [of va] by (simp add: t3(2) tr1(1) or.assoc or.commute [of PAGING_WRITABLE])
  moreover have "kmem t x = 0" if "x - ?base < PAGE_SIZE" for x using that by (simp add: t_def memset_apply)
  ultimately show ?thesis using run f by (auto simp: f_def)
qed

section \<open>The timer interrupt\<close>

lemma switch_more: "tasking.more (snd (switch_to_task t c s)) = tasking.more s"
  by (simp add: switch_to_task_def Let_def klog_def)

lemma tick_more: "task_scheduler_tick l c s = Some (x, t) \<Longrightarrow> tasking.more t = tasking.more s"
proof -
  have sw: "switch_to_task n c u = (c', v) \<Longrightarrow> tasking.more v = tasking.more u" for n c' and u v :: "'a tasking_scheme"
    by (metis switch_more snd_conv)
  show "task_scheduler_tick l c s = Some (x, t) \<Longrightarrow> tasking.more t = tasking.more s"
    by (auto simp: task_scheduler_tick_def Let_def dest!: sw split: option.splits if_splits prod.splits)
qed

lemma machine_more:
  "tasking.more t = tasking.more s \<Longrightarrow> mmio_out t = mmio_out s \<and> pic1 t = pic1 s \<and> pic2 t = pic2 s
    \<and> apic t = apic s"
  by (cases s, cases t) simp

lemma tasks_ok_ticks [simp]:
  "tasks_ok c ts (s\<lparr>lapic_ticks := n\<rparr>) = tasks_ok c ts s" "waiting ts (s\<lparr>lapic_ticks := n\<rparr>) = waiting ts s"
  by (simp_all add: tasks_ok_def waiting_def)

lemma timer_handler_outcome:
  fixes s :: "'a machine_scheme"
  assumes ok: "tasks_ok c ts s"
  shows "(lapic_ticks s + 1) mod 10 \<noteq> 0 \<or> waiting ts s = {}
      \<Longrightarrow> lapic_timer_handler e c s = Some (Resumed (s\<lparr>lapic_ticks := lapic_ticks s + 1\<rparr>))"
    and "(lapic_ticks s + 1) mod 10 = 0 \<Longrightarrow> waiting ts s \<noteq> {} \<Longrightarrow> \<exists>c' t. lapic_timer_handler e c s = Some (Switched c' t)
      \<and> mmio_out t = mmio_out s \<and> pic1 t = pic1 s \<and> pic2 t = pic2 s"
proof -
  let ?s = "s\<lparr>lapic_ticks := lapic_ticks s + 1\<rparr>"
  have ok': "tasks_ok c ts ?s" using ok by simp
  note rr = round_robin_waiting [OF ok']
  show "(lapic_ticks s + 1) mod 10 \<noteq> 0 \<or> waiting ts s = {}
      \<Longrightarrow> lapic_timer_handler e c s = Some (Resumed ?s)"
    using rr(1) tick_idle [OF ok', of "resume_label e"] by (auto simp: lapic_timer_handler_def Let_def)
  assume tick: "(lapic_ticks s + 1) mod 10 = 0" and "waiting ts s \<noteq> {}"
  then have "round_robin (kmem ?s) ts (current_task ?s) \<noteq> 0" using rr(1) by simp
  from tick_switches [OF ok' refl this] obtain c' t where
    t: "task_scheduler_tick (resume_label e) c ?s = Some (Some c', t)" by blast
  note mm = machine_more [OF tick_more [OF t]]
  show "\<exists>c' t. lapic_timer_handler e c s = Some (Switched c' t)
      \<and> mmio_out t = mmio_out s \<and> pic1 t = pic1 s \<and> pic2 t = pic2 s"
    using t tick mm by (auto simp: lapic_timer_handler_def Let_def)
qed

section \<open>Programming the timer\<close>

lemma lapic_write_simps:
  "apic (lapic_write r v s) = apic s"
  "apic_on (apic s) \<Longrightarrow> lapic_base (apic s) \<noteq> 0
    \<Longrightarrow> mmio_out (lapic_write r v s) = mmio_out s @ [(lapic_base (apic s) + 4 * (ucast r div 4), ucast v)]"
  by (simp_all add: lapic_write_def lapic_reg_def mmio_write_def klog_def)

lemma klog_apic:
  "apic (klog m s) = apic s" "mmio_out (klog m s) = mmio_out s"
  "apic (klog_num a b v d s) = apic s" "mmio_out (klog_num a b v d s) = mmio_out s"
  by (simp_all add: klog_num_def klog_def)

lemma timer_init_writes:
  fixes f :: u32
  assumes "apic_on (apic s)" and "lapic_base (apic s) \<noteq> 0"
  defines "q \<equiv> 62500000 div ucast f :: u64"
  shows "mmio_out (lapic_timer_init vec f s) = mmio_out s
      @ [(lapic_base (apic s) + 0x3E0, 3), (lapic_base (apic s) + 0x320, ucast (ucast vec OR 0x20000 :: u32))]
      @ (if f = 0 \<or> q = 0 \<or> (ucast q - 1 :: u32) = 0 then []
         else [(lapic_base (apic s) + 0x380, ucast (ucast q - 1 :: u32))])"
  using assms(1,2)
  by (simp add: lapic_timer_init_def Let_def lapic_write_simps klog_apic LAPIC_TIMER_DIVIDER_def LAPIC_LVT_TIMER_def
      LAPIC_TIMER_PERIODIC_def LAPIC_TIMER_INITIAL_def q_def)

lemma timer_count:
  fixes f :: u32
  defines "k \<equiv> 62500000 div unat f" and "q \<equiv> 62500000 div ucast f :: u64"
  shows "f = 0 \<or> q = 0 \<or> (ucast q - 1 :: u32) = 0 \<longleftrightarrow> \<not> (0 < unat f \<and> unat f \<le> 31250000)"
    and "0 < unat f \<Longrightarrow> unat f \<le> 31250000 \<Longrightarrow> (ucast (ucast q - 1 :: u32) :: u64) = of_nat (k - 1)"
proof -
  have q: "unat q = k" by (simp add: q_def k_def unat_div unat_ucast_up)
  have l: "k < 2 ^ 32" unfolding k_def by (rule le_less_trans [OF div_le_dividend]) simp
  then have u: "unat (ucast q :: u32) = k" by (simp add: unat_ucast_mod q)
  have q0: "q = 0 \<longleftrightarrow> k = 0" using q by (auto simp flip: unat_eq_zero)
  have "(ucast q - 1 :: u32) = 0 \<longleftrightarrow> (ucast q :: u32) = 1" by (rule right_minus_eq)
  also have "\<dots> \<longleftrightarrow> unat (ucast q :: u32) = unat (1 :: u32)" by (rule word_unat_eq_iff)
  finally have c0: "(ucast q - 1 :: u32) = 0 \<longleftrightarrow> k = 1" unfolding u by simp
  have f0: "f = 0 \<longleftrightarrow> unat f = 0" by (simp add: unat_eq_zero)
  have two: "2 \<le> k \<longleftrightarrow> unat f \<le> 31250000" if "0 < unat f"
    using that less_eq_div_iff_mult_less_eq [of "unat f" 2 62500000] by (simp add: k_def)
  show "f = 0 \<or> q = 0 \<or> (ucast q - 1 :: u32) = 0 \<longleftrightarrow> \<not> (0 < unat f \<and> unat f \<le> 31250000)"
    unfolding q0 c0 f0 using two by (cases "unat f = 0") auto
  assume f: "0 < unat f" "unat f \<le> 31250000"
  then have k: "2 \<le> k" using two by simp
  then have "(1 :: u32) \<le> ucast q" using u by (simp add: word_le_nat_alt)
  then have "unat (ucast q - 1 :: u32) = k - 1" using u by (simp add: unat_sub_no_wrap)
  then have "unat (ucast (ucast q - 1 :: u32) :: u64) = k - 1" by (simp add: unat_ucast_up)
  then have "of_nat (unat (ucast (ucast q - 1 :: u32) :: u64)) = (of_nat (k - 1) :: u64)" by (rule arg_cong)
  then show "(ucast (ucast q - 1 :: u32) :: u64) = of_nat (k - 1)" by simp
qed

lemma timer_period:
  fixes f :: u32
  assumes "0 < unat f" and "unat f \<le> 31250000"
  defines "k \<equiv> 62500000 div unat f - 1"
  shows "1 \<le> k \<and> (k + 1) * unat f \<le> 62500000 \<and> 62500000 < (k + 2) * unat f"
proof -
  have d: "2 \<le> 62500000 div unat f"
    using assms(1,2) less_eq_div_iff_mult_less_eq [of "unat f" 2 62500000] by simp
  then have k: "k + 1 = 62500000 div unat f" "k + 2 = Suc (62500000 div unat f)" by (simp_all add: k_def)
  have "62500000 < Suc (62500000 div unat f) * unat f" using dividend_less_div_times [OF assms(1), of 62500000] by simp
  then show ?thesis unfolding k using d by (simp add: k_def)
qed

end
