(* ===== verification/Interrupt_Properties.thy ===== *)
theory Interrupt_Properties
  imports Interrupt_Lemmas Task_Properties
begin

text \<open>
  The properties of interrupt handling (idt.c, isr.c, irq.c, the fault handlers of paging.c and the
  timer handler of apic.c): the gates and handlers in place after \<open>idt_init\<close>, the demand mapping of
  heap pages, and the acknowledgement of the timer interrupt together with the scheduler. The sample
  state has an empty root table, two tasks and the timer handler on line 0.
\<close>

section \<open>A sample machine\<close>

definition sample_memory :: bytes where
  "sample_memory = set_task_next 0x1000 0x2000 (\<lambda>_. 0)"

definition sample_machine :: machine where
  "sample_machine = tasking.extend
     (vmm.extend
       (heap.extend (sample_paging\<lparr>kmem := sample_memory, cr2 := 0xFFFFFFFF90200123\<rparr>)
          \<lparr>kernel_space = \<lparr>vs_pml4 = sample_hhdm, vs_hhdm = sample_hhdm\<rparr>, hhdm_offset = sample_hhdm\<rparr>)
       \<lparr>task_list = 0x1000, current_task = 0x1000, next_task_id = 1\<rparr>)
     \<lparr>pic1 = \<lparr>icws = [], vector_base = 0x20, imr = 0, eois = 0\<rparr>,
      pic2 = \<lparr>icws = [], vector_base = 0x28, imr = 0, eois = 0\<rparr>,
      port_out = [], mmio_out = [], mmio_reads = 0, gdt = [], gdt_ptr = \<lparr>tp_limit = 0, tp_base = 0\<rparr>, gdtr = None,
      segs = (\<lambda>_. 0), idt = replicate 256 (idt_entry_of 0 0 0), idtp = \<lparr>tp_limit = 0, tp_base = 0\<rparr>, idtr = None,
      interrupts_on = True, isr_handlers = replicate 256 None,
      irq_handlers = replicate 16 (Some Lapic_timer_handler),
      apic = zero_apic\<lparr>apic_on := True, lapic_base := 0xFEE00000\<rparr>,
      acpi = \<lparr>rsdp = 0, rsdt = 0, xsdt = 0, madt = 0, fadt = 0, mcfg = 0, hpet = 0, use_xsdt = False, acpi_on = False\<rparr>,
      lapic_ticks = 9, lapic_sleeping = False, sleep_end_ticks = 0\<rparr>"

definition sample_env :: env where
  "sample_env = \<lparr>cpuid1_edx = 0x200, apic_base_msr = 0xFEE00900, mmio_in = (\<lambda>_ _ _. 0),
     isr_stub = (\<lambda>v. 0xFFFFFFFF80100000 + ucast v), gdt_addr = 0, idt_addr = 0, resume_label = 0\<rparr>"

lemma sample_machine_fields [simp]:
  "kmem sample_machine = sample_memory" "cr2 sample_machine = 0xFFFFFFFF90200123" "cr3 sample_machine = 0"
  "total_pages sample_machine = 2048" "paging_hhdm sample_machine = Some sample_hhdm"
  "task_list sample_machine = 0x1000" "current_task sample_machine = 0x1000" "lapic_ticks sample_machine = 9"
  "mmio_out sample_machine = []" "isr_handlers sample_machine = replicate 256 None"
  "irq_handlers sample_machine = replicate 16 (Some Lapic_timer_handler)"
  "idt sample_machine = replicate 256 (idt_entry_of 0 0 0)"
  "apic sample_machine = zero_apic\<lparr>apic_on := True, lapic_base := 0xFEE00000\<rparr>"
  by (simp_all add: sample_machine_def tasking.defs vmm.defs heap.defs sample_paging_def paging_init_def Let_def
      klog_def klog_num_def)

lemma sample_machine_pmm:
  "pmm_ok sample_machine" "taken sample_machine = - {2..<2048}" "window_ok sample_hhdm sample_machine"
  using sample_paging_ok sample_paging_taken
  by (simp_all add: sample_machine_def tasking.defs vmm.defs heap.defs paging_ok_def window_ok_def pmm_ok_def pmm_wf_def
      used_frames_def page_bit_def taken_def allocatable_def memmap_entries_def)

lemma sample_machine_tasks:
  "tasks_ok sample_cpu [0x1000, 0x2000] sample_machine" "waiting [0x1000, 0x2000] sample_machine = {0x2000}"
  using sample_tasks_ok sample_task_states
  by (auto simp: tasks_ok_def sample_memory_def waiting_def)

lemma sample_machine_paging:
  "paging_ok sample_hhdm sample_machine" "tables_below sample_hhdm sample_machine"
proof -
  let ?s = "sample_machine"
  have r: "pt_root sample_hhdm ?s = sample_hhdm" by (simp add: pt_root_def)
  have f: "in_frame sample_hhdm 0 (pt_root sample_hhdm ?s)" "0 \<in> taken ?s"
    by (simp_all add: r in_frame_def sample_machine_pmm)
  have off: "unat sample_hhdm mod 4096 = 0" by (simp add: sample_hhdm_def)
  have z: "entry_get (kmem ?s) (pt_root sample_hhdm ?s) i = 0" if i: "i < 512" for i
  proof -
    have u: "unat i < 512" using i by (simp add: word_less_nat_alt)
    have "unat (sample_hhdm + 8 * i) = unat sample_hhdm + 8 * unat i"
      using slot_addr [OF f(1) off i, of 0] by (simp add: r)
    then have "apart8 0x10A0 (sample_hhdm + 8 * i)"
      using u by (intro apart8_nat [THEN conjunct1]) (simp_all add: sample_hhdm_def)
    then show ?thesis
      by (simp add: r sample_memory_def set_task_next_def entry_get_def load64_store64_other zero_fields)
  qed
  from empty_tree(1) [OF z f] show "paging_ok sample_hhdm ?s"
    using sample_machine_pmm by (simp add: paging_ok_def)
  have "g < 2048" if t: "table_frame sample_hhdm ?s g" for g
    using empty_tree(2) [OF z f t] by simp
  then show "tables_below sample_hhdm ?s" by (simp add: tables_below_def)
qed


section \<open>The properties\<close>

text \<open>C33. After idt_init the processor finds, for each of the 48 vectors with a stub, a present
  interrupt gate to that stub in the kernel's code segment, open to ring 3 for breakpoint and
  overflow only, and for every other vector a gate that is not present; page fault, general
  protection fault and double fault have their own handlers, every other exception the common one,
  and no handler above the exceptions changes.\<close>

theorem idt_init_gates:
  fixes s :: machine
  assumes "length (idt s) = 256" and "length (isr_handlers s) = 256" and "v < 256"
  shows "(v < 48 \<longrightarrow> idt_base (idt (idt_init e s) ! v) = isr_stub e (of_nat v) \<and> selector (idt (idt_init e s) ! v) = 0x08
       \<and> type_attr (idt (idt_init e s) ! v) = (if v = 3 \<or> v = 4 then 0xEE else 0x8E))
    \<and> (48 \<le> v \<longrightarrow> type_attr (idt (idt_init e s) ! v) = 0)
    \<and> isr_handlers (idt_init e s) ! v = (if v = 14 then Some Handle_page_fault
        else if v = 13 then Some Handle_general_protection_fault else if v = 8 then Some Handle_double_fault
        else if v < 32 then Some Exception_handler else isr_handlers s ! v)"
  using idt_init_tables [OF assms]
  by (simp add: idt_entry_decodes gate_attr_bits) (simp add: idt_entry_of_def)

theorem idt_init_gates_witness:
  "idt_base (idt (idt_init sample_env sample_machine) ! 14) = 0xFFFFFFFF8010000E
    \<and> isr_handlers (idt_init sample_env sample_machine) ! 14 = Some Handle_page_fault"
  using idt_init_gates [of sample_machine 14 sample_env] by (simp add: sample_env_def)

text \<open>A page fault for a page that is not present, at an address of the heap's range, with four
  frames left, returns to the interrupted code with the page mapped: the page of the address is
  translated to a fresh frame, writable, every other translation is as before, and the page reads
  as zero.\<close>

theorem heap_fault_maps_page:
  fixes s :: machine
  assumes "paging_ok off s" and "tables_below off s" and "unat (total_pages s) * 4096 + unat off \<le> HEAP_BASE"
    and "F \<inter> taken s = {}" and "4 \<le> card F"
    and "err_code r AND 0x1 = 0" and "HEAP_START \<le> cr2 s" and "cr2 s < HEAP_START + HEAP_MAX_SIZE"
  shows "\<exists>t a. handle_page_fault r s = Some (Resumed t)
    \<and> unat a div 4096 \<notin> taken s \<and> unat a mod 4096 = 0
    \<and> (\<forall>va. translation off t va = (if same_page va (cr2 s) then Some (a OR PAGING_PRESENT OR PAGING_WRITABLE)
         else translation off s va))
    \<and> (\<forall>x. x - (cr2 s AND PAGE_MASK) < PAGE_SIZE \<longrightarrow> kmem t x = 0)"
  by (rule heap_fault_maps [OF assms])

theorem heap_fault_maps_page_witness:
  "\<exists>t a. handle_page_fault \<lparr>int_no = 14, err_code = 2, reg_rip = 0\<rparr> sample_machine = Some (Resumed t)
     \<and> translation sample_hhdm t 0xFFFFFFFF90200FFF = Some (a OR PAGING_PRESENT OR PAGING_WRITABLE)"
proof -
  have F: "{2..<6} \<inter> taken sample_machine = {}" "4 \<le> card {2..<6::nat}" by (auto simp: sample_machine_pmm)
  have w: "unat (total_pages sample_machine) * 4096 + unat sample_hhdm \<le> HEAP_BASE"
    by (simp add: sample_hhdm_def HEAP_BASE_def)
  have p: "same_page 0xFFFFFFFF90200FFF 0xFFFFFFFF90200123"
    by (simp add: same_page_def pt_path_def pml4_index_def pdp_index_def pd_index_def pt_index_def)
  have "err_code \<lparr>int_no = 14, err_code = 2, reg_rip = 0\<rparr> AND 0x1 = 0" by simp
  moreover have "HEAP_START \<le> cr2 sample_machine" "cr2 sample_machine < HEAP_START + HEAP_MAX_SIZE"
    by (simp_all add: HEAP_START_def HEAP_MAX_SIZE_def)
  ultimately obtain t a where t: "handle_page_fault \<lparr>int_no = 14, err_code = 2, reg_rip = 0\<rparr> sample_machine = Some (Resumed t)"
    "\<forall>va. translation sample_hhdm t va = (if same_page va (cr2 sample_machine)
        then Some (a OR PAGING_PRESENT OR PAGING_WRITABLE) else translation sample_hhdm sample_machine va)"
    using heap_fault_maps_page [OF sample_machine_paging w F] by blast
  from t(2) [THEN spec, of "0xFFFFFFFF90200FFF"] p have
    "translation sample_hhdm t 0xFFFFFFFF90200FFF = Some (a OR PAGING_PRESENT OR PAGING_WRITABLE)" by simp
  with t(1) show ?thesis by blast
qed

text \<open>C34. The timer interrupt with the local APIC: when the scheduler has nothing to switch to, or is
  not due, the interrupt returns and writes the end-of-interrupt register once. When it switches, the
  new task runs without any end of interrupt sent, to the local APIC or to the controllers.\<close>

theorem timer_interrupt_unacknowledged_on_switch:
  fixes s :: machine
  assumes "tasks_ok c ts s" and "int_no r = 32"
    and "isr_handlers s ! 32 = None" and "irq_handlers s ! 0 = Some Lapic_timer_handler"
    and "apic_available e" and "apic_on (apic s)" and "lapic_base (apic s) \<noteq> 0"
  shows "((lapic_ticks s + 1) mod 10 \<noteq> 0 \<or> waiting ts s = {} \<longrightarrow> (\<exists>t. isr_handler e c r s = Some (Resumed t)
       \<and> lapic_ticks t = lapic_ticks s + 1 \<and> mmio_out t = mmio_out s @ [(lapic_base (apic s) + 0xB0, 0)]))
    \<and> ((lapic_ticks s + 1) mod 10 = 0 \<and> waiting ts s \<noteq> {} \<longrightarrow> (\<exists>c' t. isr_handler e c r s = Some (Switched c' t)
       \<and> mmio_out t = mmio_out s \<and> pic1 t = pic1 s \<and> pic2 t = pic2 s))"
proof -
  have run: "isr_handler e c r s = map_option (\<lambda>res. case res of Resumed t \<Rightarrow> Resumed (send_eoi e 0 t) | other \<Rightarrow> other)
      (lapic_timer_handler e c s)"
    using assms(2-4) by (simp add: isr_handler_def irq_handler_def run_handler_def Let_def)
  have eoi: "send_eoi e 0 (s\<lparr>lapic_ticks := n\<rparr>)
      = s\<lparr>lapic_ticks := n, mmio_out := mmio_out s @ [(lapic_base (apic s) + 0xB0, 0)]\<rparr>" for n
    using assms(5-7)
    by (simp add: send_eoi_def lapic_eoi_def lapic_write_def lapic_reg_def mmio_write_def LAPIC_EOI_REG_def)
  note h = timer_handler_outcome [OF assms(1), of e]
  show ?thesis
  proof (intro conjI impI)
    assume "(lapic_ticks s + 1) mod 10 \<noteq> 0 \<or> waiting ts s = {}"
    from h(1) [OF this] show "\<exists>t. isr_handler e c r s = Some (Resumed t) \<and> lapic_ticks t = lapic_ticks s + 1
        \<and> mmio_out t = mmio_out s @ [(lapic_base (apic s) + 0xB0, 0)]"
      by (simp add: run eoi)
  next
    assume "(lapic_ticks s + 1) mod 10 = 0 \<and> waiting ts s \<noteq> {}"
    with h(2) show "\<exists>c' t. isr_handler e c r s = Some (Switched c' t)
       \<and> mmio_out t = mmio_out s \<and> pic1 t = pic1 s \<and> pic2 t = pic2 s"
      by (auto simp: run)
  qed
qed

theorem timer_interrupt_unacknowledged_on_switch_witness:
  "\<exists>c' t. isr_handler sample_env sample_cpu \<lparr>int_no = 32, err_code = 0, reg_rip = 0\<rparr> sample_machine
       = Some (Switched c' t) \<and> mmio_out t = []"
proof -
  let ?r = "\<lparr>int_no = 32, err_code = 0, reg_rip = 0\<rparr>"
  have h: "int_no ?r = 32" "isr_handlers sample_machine ! 32 = None"
    "irq_handlers sample_machine ! 0 = Some Lapic_timer_handler"
    "apic_available sample_env" "apic_on (apic sample_machine)" "lapic_base (apic sample_machine) \<noteq> 0"
    by (simp_all add: apic_available_def sample_env_def)
  from timer_interrupt_unacknowledged_on_switch [OF sample_machine_tasks(1) h] show ?thesis
    by (auto simp: sample_machine_tasks(2))
qed

text \<open>C35. With the local APIC mapped, lapic_timer_init writes the divider and the timer entry, and starts
  the counter exactly for frequencies from 1 to 31250000: with the count for which the period, one
  longer than the count, is the largest that is not longer than asked for. Every other frequency, 0
  included, is refused without starting the counter.\<close>

theorem timer_count_bounds:
  fixes s :: "'a machine_scheme"
  assumes "apic_on (apic s)" and "lapic_base (apic s) \<noteq> 0"
  shows "mmio_out (lapic_timer_init vec f s) = mmio_out s
      @ [(lapic_base (apic s) + 0x3E0, 3), (lapic_base (apic s) + 0x320, ucast (ucast vec OR 0x20000 :: u32))]
      @ (if 0 < unat f \<and> unat f \<le> 31250000
         then [(lapic_base (apic s) + 0x380, of_nat (62500000 div unat f - 1))] else [])
    \<and> (0 < unat f \<and> unat f \<le> 31250000 \<longrightarrow> (let k = 62500000 div unat f - 1
         in 1 \<le> k \<and> (k + 1) * unat f \<le> 62500000 \<and> 62500000 < (k + 2) * unat f))"
  using timer_init_writes [OF assms, of vec f] timer_count [of f] timer_period [of f] by (simp add: Let_def)

theorem timer_count_bounds_witness:
  "mmio_out (lapic_timer_init 32 1000 sample_machine)
     = [(0xFEE003E0, 3), (0xFEE00320, 0x20020), (0xFEE00380, 62499)]
   \<and> length (mmio_out (lapic_timer_init 32 31250001 sample_machine)) = 2"
  using timer_count_bounds [of sample_machine 32 1000] timer_count_bounds [of sample_machine 32 31250001] by simp

end
