(* ===== verification/Entry_Stubs.thy ===== *)
theory Entry_Stubs
  imports Interrupt_Lemmas
begin

text \<open>
  The way into an interrupt and out of it (isr_asm.asm). The stubs are lists of instructions, run one
  after the other on the registers and the stack; before them stands what the processor does on an
  interrupt through a gate of \<open>idt_init\<close>, without a change of privilege, and between entry and exit
  the dispatcher of idt.c. The stack that the compiled C code uses below the frame is not modelled.
  The flags that \<open>add rsp, 16\<close> sets are overwritten by the \<open>iretq\<close> that follows it.
\<close>

section \<open>Instructions\<close>

datatype instr = Push_imm u64 | Push_reg reg | Pop_reg reg | Mov_rdi_rsp | Add_rsp u64 | Iretq

primrec exec_instr :: "instr \<Rightarrow> cpu \<times> bytes \<Rightarrow> cpu \<times> bytes" where
  "exec_instr (Push_imm v) cm = (case cm of (c, m) \<Rightarrow> let (sp, m') = push v (rsp c, m) in (c\<lparr>rsp := sp\<rparr>, m'))"
| "exec_instr (Push_reg x) cm = (case cm of (c, m) \<Rightarrow> let (sp, m') = push (gpr c x) (rsp c, m) in (c\<lparr>rsp := sp\<rparr>, m'))"
| "exec_instr (Pop_reg x) cm = (case cm of (c, m) \<Rightarrow> (c\<lparr>gpr := (gpr c)(x := load64 m (rsp c)), rsp := rsp c + 8\<rparr>, m))"
| "exec_instr Mov_rdi_rsp cm = (case cm of (c, m) \<Rightarrow> (c\<lparr>gpr := (gpr c)(RDI := rsp c)\<rparr>, m))"
| "exec_instr (Add_rsp n) cm = (case cm of (c, m) \<Rightarrow> (c\<lparr>rsp := rsp c + n\<rparr>, m))"
| "exec_instr Iretq cm = (case cm of (c, m) \<Rightarrow> (iretq c m, m))"

abbreviation exec_code :: "instr list \<Rightarrow> cpu \<times> bytes \<Rightarrow> cpu \<times> bytes" where
  "exec_code \<equiv> fold exec_instr"

section \<open>isr_asm.asm\<close>

text \<open>The vectors declared with \<open>ISR_ERRCODE\<close>; the other ones below 48 are \<open>ISR_NOERRCODE\<close>.\<close>

definition has_errcode_stub :: "u8 \<Rightarrow> bool" where
  "has_errcode_stub v \<longleftrightarrow> v \<in> {8, 10, 11, 12, 13, 14}"

definition isr_stub_code :: "u8 \<Rightarrow> instr list" where
  "isr_stub_code v = (if has_errcode_stub v then [Push_imm (ucast v)] else [Push_imm 0, Push_imm (ucast v)])"

definition isr_common_entry :: "instr list" where
  "isr_common_entry =
     [Push_reg R15, Push_reg R14, Push_reg R13, Push_reg R12, Push_reg R11, Push_reg R10, Push_reg R9, Push_reg R8,
      Push_reg RDI, Push_reg RSI, Push_reg RBP, Push_reg RBX, Push_reg RDX, Push_reg RCX, Push_reg RAX,
      Mov_rdi_rsp]"

definition isr_common_exit :: "instr list" where
  "isr_common_exit =
     [Pop_reg RAX, Pop_reg RCX, Pop_reg RDX, Pop_reg RBX, Pop_reg RBP, Pop_reg RSI, Pop_reg RDI, Pop_reg R8,
      Pop_reg R9, Pop_reg R10, Pop_reg R11, Pop_reg R12, Pop_reg R13, Pop_reg R14, Pop_reg R15,
      Add_rsp 16, Iretq]"

section \<open>The structure of registers\<close>

text \<open>\<open>struct registers\<close> at the address the handler is given: its first fifteen fields by their
  offsets, and the fields the handlers read.\<close>

definition registers_fields :: "(u64 \<times> reg) list" where
  "registers_fields = [(0, R15), (8, R14), (16, R13), (24, R12), (32, R11), (40, R10), (48, R9), (56, R8),
     (64, RDI), (72, RSI), (80, RBP), (88, RBX), (96, RDX), (104, RCX), (112, RAX)]"

definition registers_at :: "bytes \<Rightarrow> u64 \<Rightarrow> registers" where
  "registers_at m p = \<lparr>int_no = load64 m (p + 120), err_code = load64 m (p + 128), reg_rip = load64 m (p + 136)\<rparr>"

section \<open>An interrupt\<close>

text \<open>The processor's part: the vectors for which it pushes an error code, the alignment of the stack,
  the five words it pushes, and the flags (TF, IF, NT, RF, VM) an interrupt gate clears.\<close>

definition cpu_pushes_errcode :: "u8 \<Rightarrow> bool" where
  "cpu_pushes_errcode v \<longleftrightarrow> v \<in> {8, 10, 11, 12, 13, 14, 17, 21, 29, 30}"

definition interrupt_stack :: "cpu \<Rightarrow> u64" where
  "interrupt_stack c = rsp c AND NOT 0xF"

definition deliver_words :: "u8 \<Rightarrow> u64 \<Rightarrow> cpu \<Rightarrow> u64 list" where
  "deliver_words v err c = [ss c, rsp c, rflags c, cs c, rip c] @ (if cpu_pushes_errcode v then [err] else [])"

definition deliver :: "env \<Rightarrow> u8 \<Rightarrow> u64 \<Rightarrow> cpu \<times> bytes \<Rightarrow> cpu \<times> bytes" where
  "deliver e v err cm =
     (case cm of (c, m) \<Rightarrow>
        let (sp, m') = fold push (deliver_words v err c) (interrupt_stack c, m)
        in (c\<lparr>rip := isr_stub e v, cs := 0x08, rflags := rflags c AND NOT 0x34300, rsp := sp\<rparr>, m'))"

text \<open>The whole interrupt. \<open>ret\<close> is the return address that \<open>call isr_handler\<close> pushes, \<open>cc\<close> the
  registers if the handler calls the scheduler, \<open>g\<close> what the C code leaves in the general registers.
  The gates are interrupt gates: interrupts are off in the handler, and \<open>iretq\<close> restores bit 9 of
  the flags.\<close>

datatype 'm interrupt_end = Continues cpu 'm | Stays_halted 'm

definition stub_entry :: "env \<Rightarrow> u8 \<Rightarrow> u64 \<Rightarrow> cpu \<times> bytes \<Rightarrow> cpu \<times> bytes" where
  "stub_entry e v err cm = exec_code (isr_stub_code v @ isr_common_entry) (deliver e v err cm)"

definition call_memory :: "env \<Rightarrow> u64 \<Rightarrow> u8 \<Rightarrow> u64 \<Rightarrow> cpu \<Rightarrow> bytes \<Rightarrow> bytes" where
  "call_memory e ret v err c m = (let (c1, m1) = stub_entry e v err (c, m) in snd (push ret (rsp c1, m1)))"

definition interrupt ::
  "env \<Rightarrow> u64 \<Rightarrow> cpu \<Rightarrow> (reg \<Rightarrow> u64) \<Rightarrow> u8 \<Rightarrow> u64 \<Rightarrow> cpu \<Rightarrow> 'a machine_scheme \<Rightarrow> 'a machine_scheme interrupt_end option" where
  "interrupt e ret cc g v err c s =
     (let c1 = fst (stub_entry e v err (c, kmem s));
          m1 = call_memory e ret v err c (kmem s)
      in case isr_handler e cc (registers_at m1 (gpr c1 RDI)) (s\<lparr>kmem := m1, interrupts_on := False\<rparr>) of
           None \<Rightarrow> None
         | Some (Resumed t) \<Rightarrow>
             let (c2, m2) = exec_code isr_common_exit (c1\<lparr>gpr := g\<rparr>, kmem t)
             in Some (Continues c2 (t\<lparr>kmem := m2, interrupts_on := bit (rflags c2) 9\<rparr>))
         | Some (Switched c2 t) \<Rightarrow> Some (Continues c2 (t\<lparr>interrupts_on := bit (rflags c2) 9\<rparr>))
         | Some (Halted t) \<Rightarrow> Some (Stays_halted t))"

section \<open>Reading what was pushed\<close>

lemma fold_push_fst: "fst (fold push vs st) = fst st - 8 * of_nat (length vs)"
  by (induction vs arbitrary: st) (simp_all add: algebra_simps)

lemma fold_push_read:
  assumes "length vs < 2 ^ 32" and "i < length vs"
  shows "load64 (snd (fold push vs st)) (fst st - 8 * of_nat (Suc i)) = vs ! i"
  using assms
proof (induction vs rule: rev_induct)
  case (snoc v vs)
  let ?n = "length vs"
  have top: "fst (fold push vs st) - 8 = fst st - 8 * of_nat (Suc ?n)"
    by (simp add: fold_push_fst algebra_simps)
  show ?case
  proof (cases "i = ?n")
    case True
    then show ?thesis using top by (simp del: of_nat_Suc)
  next
    case False
    then have i: "i < ?n" using snoc.prems by simp
    then have "apart8 (fst st - 8 * of_nat (Suc i)) (fst st - 8 * of_nat (Suc ?n))"
      using snoc.prems by (intro stack_apart) simp_all
    then have "apart8 (fst st - 8 * of_nat (Suc ?n)) (fst st - 8 * of_nat (Suc i))" by (rule apart8_sym)
    with i snoc show ?thesis by (simp add: top load64_store64_other nth_append del: of_nat_Suc)
  qed
qed simp

lemma exec_push_regs:
  "exec_code (map Push_reg xs) (c, m)
     = (c\<lparr>rsp := fst (fold push (map (gpr c) xs) (rsp c, m))\<rparr>, snd (fold push (map (gpr c) xs) (rsp c, m)))"
  by (induction xs arbitrary: c m) (simp_all add: case_prod_beta Let_def push_def)

lemma exec_pop_regs:
  assumes "\<And>i. i < length xs \<Longrightarrow> load64 m (rsp c + 8 * of_nat i) = f (xs ! i)"
  shows "exec_code (map Pop_reg xs) (c, m)
     = (c\<lparr>gpr := (\<lambda>x. if x \<in> set xs then f x else gpr c x), rsp := rsp c + 8 * of_nat (length xs)\<rparr>, m)"
  using assms
proof (induction xs arbitrary: c)
  case (Cons x xs)
  let ?c = "c\<lparr>gpr := (gpr c)(x := load64 m (rsp c)), rsp := rsp c + 8\<rparr>"
  have "load64 m (rsp ?c + 8 * of_nat i) = f (xs ! i)" if "i < length xs" for i
    using Cons.prems [of "Suc i"] that by (simp add: algebra_simps)
  from Cons.IH [of ?c, OF this] have ih: "exec_code (map Pop_reg xs) (?c, m)
    = (?c\<lparr>gpr := (\<lambda>y. if y \<in> set xs then f y else gpr ?c y), rsp := rsp ?c + 8 * of_nat (length xs)\<rparr>, m)" .
  have x: "load64 m (rsp c) = f x" using Cons.prems [of 0] by simp
  show ?case using ih x by (simp add: algebra_simps fun_eq_iff)
qed simp

section \<open>The frame\<close>

definition stub_words :: "u8 \<Rightarrow> u64 list" where
  "stub_words v = (if has_errcode_stub v then [ucast v] else [0, ucast v])"

definition frame_regs :: "reg list" where
  "frame_regs = [R15, R14, R13, R12, R11, R10, R9, R8, RDI, RSI, RBP, RBX, RDX, RCX, RAX]"

definition frame_words :: "u8 \<Rightarrow> u64 \<Rightarrow> cpu \<Rightarrow> u64 list" where
  "frame_words v err c = deliver_words v err c @ stub_words v @ map (gpr c) frame_regs"

abbreviation frame_memory :: "u8 \<Rightarrow> u64 \<Rightarrow> cpu \<Rightarrow> bytes \<Rightarrow> bytes" where
  "frame_memory v err c m \<equiv> snd (fold push (frame_words v err c) (interrupt_stack c, m))"

abbreviation frame_base :: "u8 \<Rightarrow> u64 \<Rightarrow> cpu \<Rightarrow> u64" where
  "frame_base v err c \<equiv> interrupt_stack c - 8 * of_nat (length (frame_words v err c))"

lemma frame_lengths [simp]:
  "length frame_regs = 15" "length (deliver_words v err c) = (if cpu_pushes_errcode v then 6 else 5)"
  "length (stub_words v) = (if has_errcode_stub v then 1 else 2)"
  by (simp_all add: frame_regs_def deliver_words_def stub_words_def)

lemma frame_words_length:
  "length (frame_words v err c) = (if cpu_pushes_errcode v \<and> \<not> has_errcode_stub v then 23 else 22)"
  by (auto simp: frame_words_def cpu_pushes_errcode_def has_errcode_stub_def)

lemma exec_stub: "exec_code (isr_stub_code v) (c, m)
  = (c\<lparr>rsp := fst (fold push (stub_words v) (rsp c, m))\<rparr>, snd (fold push (stub_words v) (rsp c, m)))"
  by (simp add: isr_stub_code_def stub_words_def push_def Let_def)

lemma common_entry_code: "isr_common_entry = map Push_reg frame_regs @ [Mov_rdi_rsp]"
  by (simp add: isr_common_entry_def frame_regs_def)

lemma common_exit_code: "isr_common_exit = map Pop_reg (rev frame_regs) @ [Add_rsp 16, Iretq]"
  by (simp add: isr_common_exit_def frame_regs_def)

lemma stub_entry_state:
  "stub_entry e v err (c, m)
     = (c\<lparr>gpr := (gpr c)(RDI := frame_base v err c), rip := isr_stub e v, cs := 0x08,
          rflags := rflags c AND NOT 0x34300, rsp := frame_base v err c\<rparr>, frame_memory v err c m)"
proof -
  have "fst (fold push (frame_words v err c) (interrupt_stack c, m)) = frame_base v err c"
    by (simp add: fold_push_fst)
  then show ?thesis
    by (simp add: stub_entry_def deliver_def common_entry_code exec_stub exec_push_regs case_prod_beta Let_def
        frame_words_def)
qed

lemma frame_read:
  assumes "i < length (frame_words v err c)"
  shows "load64 (frame_memory v err c m) (interrupt_stack c - 8 * of_nat (Suc i)) = frame_words v err c ! i"
  using fold_push_read [OF _ assms, of "(interrupt_stack c, m)"] by (simp add: frame_words_length)

text \<open>The same after the handler, which left the frame alone.\<close>

definition frame_area :: "cpu \<Rightarrow> u64 set" where
  "frame_area c = span_of (interrupt_stack c - 176) 176"

lemma frame_slot_sub:
  assumes "i < 22"
  shows "span_of (interrupt_stack c - 8 * of_nat (Suc i)) 8 \<subseteq> frame_area c"
proof -
  let ?k = "176 - 8 * of_nat (Suc i) :: u64"
  have u: "unat (8 * of_nat (Suc i) :: u64) = 8 * Suc i" using assms by (simp add: unat_word_ariths unat_of_nat del: of_nat_Suc)
  then have le: "8 * of_nat (Suc i) \<le> (176 :: u64)" using assms by (simp add: word_le_nat_alt del: of_nat_Suc)
  have k: "unat ?k = 176 - 8 * Suc i" unfolding unat_sub_no_wrap [OF le] u by simp
  have "?k \<le> 176" using k by (simp add: word_le_nat_alt)
  moreover have "8 \<le> 176 - ?k" using u by (simp add: word_le_nat_alt del: of_nat_Suc)
  ultimately have "span_of (interrupt_stack c - 176 + ?k) 8 \<subseteq> frame_area c"
    unfolding frame_area_def by (rule span_of_sub)
  then show ?thesis by (simp add: algebra_simps del: of_nat_Suc)
qed

lemma frame_read_kept:
  assumes "changes_in (- frame_area c) (frame_memory v err c m) m'" and "i < 22"
  shows "load64 m' (interrupt_stack c - 8 * of_nat (Suc i)) = frame_words v err c ! i"
proof -
  have "load64 m' (interrupt_stack c - 8 * of_nat (Suc i))
      = load64 (frame_memory v err c m) (interrupt_stack c - 8 * of_nat (Suc i))"
    using frame_slot_sub [OF assms(2)] by (intro load64_changes [OF assms(1)]) blast
  with assms(2) show ?thesis by (simp add: frame_read frame_words_length del: of_nat_Suc)
qed

section \<open>What the handler sees, and what is resumed\<close>

text \<open>The stubs that push a zero exactly where the processor pushes no error code.\<close>

abbreviation stub_matches :: "u8 \<Rightarrow> bool" where
  "stub_matches v \<equiv> has_errcode_stub v = cpu_pushes_errcode v"

lemma stub_matches_length [simp]: "stub_matches v \<Longrightarrow> length (frame_words v err c) = 22"
  by (simp add: frame_words_length)

lemma stub_matches_words:
  "stub_matches v \<Longrightarrow> frame_words v err c
     = [ss c, rsp c, rflags c, cs c, rip c, if cpu_pushes_errcode v then err else 0, ucast v] @ map (gpr c) frame_regs"
  by (simp add: frame_words_def deliver_words_def stub_words_def)

lemma call_keeps_frame:
  "stub_matches v \<Longrightarrow> changes_in (- frame_area c) m (store64 (frame_base v err c - 8) ret m)"
proof (rule changes_store64)
  have "span_of (interrupt_stack c - 184) 8 \<inter> span_of (interrupt_stack c - 184 + 8) 176 = {}"
    by (rule span_of_apart) simp_all
  moreover assume "stub_matches v"
  ultimately show "span_of (frame_base v err c - 8) 8 \<subseteq> - frame_area c"
    by (auto simp: frame_area_def)
qed

lemma frame_slot:
  assumes "stub_matches v" and "changes_in (- frame_area c) (frame_memory v err c m) m'" and "k < 22"
  shows "load64 m' (frame_base v err c + 8 * of_nat k) = frame_words v err c ! (21 - k)"
proof -
  have "Suc (21 - k) = 22 - k" using assms(3) by simp
  then have n: "(of_nat (Suc (21 - k)) :: u64) = 22 - of_nat k" using assms(3) by (simp add: of_nat_diff)
  have e: "frame_base v err c + 8 * of_nat k = interrupt_stack c - 8 * of_nat (Suc (21 - k))"
    unfolding n using assms(1) by (simp add: algebra_simps)
  show ?thesis unfolding e using frame_read_kept [OF assms(2), of "21 - k"] by (simp del: of_nat_Suc)
qed

lemma registers_seen:
  assumes v: "stub_matches v" and m': "changes_in (- frame_area c) (frame_memory v err c m) m'"
  shows "registers_at m' (frame_base v err c)
      = \<lparr>int_no = ucast v, err_code = (if cpu_pushes_errcode v then err else 0), reg_rip = rip c\<rparr>"
    and "map (\<lambda>(off, x). load64 m' (frame_base v err c + off)) registers_fields
      = map (gpr c) (rev (map snd registers_fields))"
proof -
  note s = frame_slot [OF v m']
  show "registers_at m' (frame_base v err c)
      = \<lparr>int_no = ucast v, err_code = (if cpu_pushes_errcode v then err else 0), reg_rip = rip c\<rparr>"
    using s [of 15] s [of 16] s [of 17] v by (simp add: registers_at_def stub_matches_words)
  show "map (\<lambda>(off, x). load64 m' (frame_base v err c + off)) registers_fields
      = map (gpr c) (rev (map snd registers_fields))"
    using s [of 0] s [of 1] s [of 2] s [of 3] s [of 4] s [of 5] s [of 6] s [of 7] s [of 8] s [of 9] s [of 10] s [of 11]
      s [of 12] s [of 13] s [of 14] v
    by (simp add: registers_fields_def stub_matches_words frame_regs_def)
qed

lemma frame_regs_all: "x \<in> set (rev frame_regs)"
  by (cases x) (simp_all add: frame_regs_def)

lemma common_exit_restores:
  assumes v: "stub_matches v" and m': "changes_in (- frame_area c) (frame_memory v err c m) m'"
    and c1: "rsp c1 = frame_base v err c"
  shows "exec_code isr_common_exit (c1, m') = (c, m')"
proof -
  note s = frame_slot [OF v m']
  have pops: "exec_code (map Pop_reg (rev frame_regs)) (c1, m')
      = (c1\<lparr>gpr := (\<lambda>x. if x \<in> set (rev frame_regs) then gpr c x else gpr c1 x), rsp := rsp c1 + 8 * of_nat 15\<rparr>, m')"
  proof (subst exec_pop_regs [where f = "gpr c"])
    fix i assume "i < length (rev frame_regs)"
    then have i: "i < 15" by simp
    then show "load64 m' (rsp c1 + 8 * of_nat i) = gpr c (rev frame_regs ! i)"
      using s [of i] v by (simp add: c1 stub_matches_words nth_append rev_nth)
  qed simp
  have gpr: "(\<lambda>x. if x \<in> set frame_regs then gpr c x else gpr c1 x) = gpr c"
    using frame_regs_all by (auto simp: fun_eq_iff)
  show ?thesis
    using s [of 17] s [of 18] s [of 19] s [of 20] s [of 21] v
    by (simp add: common_exit_code pops gpr iretq_def c1 stub_matches_words)
qed

lemma call_memory_frame:
  "call_memory e ret v err c m = store64 (frame_base v err c - 8) ret (frame_memory v err c m)"
  by (simp add: call_memory_def stub_entry_state)

lemma call_memory_keeps:
  "stub_matches v \<Longrightarrow> changes_in (- frame_area c) (frame_memory v err c m) (call_memory e ret v err c m)"
  unfolding call_memory_frame by (rule call_keeps_frame)

lemma frame_aligned: "stub_matches v \<Longrightarrow> frame_base v err c AND 0xF = 0"
proof -
  assume v: "stub_matches v"
  have f: "(0xF :: u64) = mask 4" by (simp add: mask_numeral)
  have a: "interrupt_stack c = push_bit 4 (drop_bit 4 (rsp c))"
    unfolding interrupt_stack_def f by (rule bit_word_eqI) (auto simp: bit_simps)
  have "interrupt_stack c - 176 = push_bit 4 (drop_bit 4 (rsp c) - 11)"
    unfolding a by (simp add: push_bit_eq_mult algebra_simps)
  also have "\<dots> AND mask 4 = 0" by (rule bit_word_eqI) (auto simp: bit_simps)
  finally show ?thesis using v by (simp add: f)
qed

lemma interrupt_of_handler:
  assumes v: "stub_matches v"
    and h: "isr_handler e cc \<lparr>int_no = ucast v, err_code = (if cpu_pushes_errcode v then err else 0), reg_rip = rip c\<rparr>
          (s\<lparr>kmem := call_memory e ret v err c (kmem s), interrupts_on := False\<rparr>) = Some (Resumed t)"
    and k: "changes_in (- frame_area c) (call_memory e ret v err c (kmem s)) (kmem t)"
  shows "interrupt e ret cc g v err c s = Some (Continues c (t\<lparr>interrupts_on := bit (rflags c) 9\<rparr>))"
proof -
  note m = call_memory_keeps [OF v]
  have k': "changes_in (- frame_area c) (frame_memory v err c (kmem s)) (kmem t)" using m k by (rule changes_in_trans)
  let ?c1 = "fst (stub_entry e v err (c, kmem s))"
  have b: "gpr ?c1 RDI = frame_base v err c" "rsp ?c1 = frame_base v err c" by (simp_all add: stub_entry_state)
  have x: "exec_code isr_common_exit (?c1\<lparr>gpr := g\<rparr>, kmem t) = (c, kmem t)"
    by (rule common_exit_restores [OF v k']) (simp add: b)
  show ?thesis
    unfolding interrupt_def Let_def b registers_seen(1) [OF v m] h by (simp add: x)
qed

section \<open>Stubs that do not match\<close>

lemma mismatch:
  "v \<in> {17, 21, 29, 30} \<Longrightarrow> cpu_pushes_errcode v \<and> \<not> has_errcode_stub v"
  by (auto simp: cpu_pushes_errcode_def has_errcode_stub_def)

lemma matches_iff: "stub_matches v \<longleftrightarrow> v \<notin> {17, 21, 29, 30}"
  by (auto simp: cpu_pushes_errcode_def has_errcode_stub_def)

lemma mismatch_words:
  "v \<in> {17, 21, 29, 30} \<Longrightarrow> frame_words v err c
     = [ss c, rsp c, rflags c, cs c, rip c, err, 0, ucast v] @ map (gpr c) frame_regs"
  using mismatch [of v] by (simp add: frame_words_def deliver_words_def stub_words_def)

lemma mismatch_slot:
  assumes "v \<in> {17, 21, 29, 30}" and "k < 23"
  shows "load64 (frame_memory v err c m) (frame_base v err c + 8 * of_nat k) = frame_words v err c ! (22 - k)"
proof -
  have len: "length (frame_words v err c) = 23" using mismatch [OF assms(1)] by (simp add: frame_words_length)
  have "Suc (22 - k) = 23 - k" using assms(2) by simp
  then have n: "(of_nat (Suc (22 - k)) :: u64) = 23 - of_nat k" using assms(2) by (simp add: of_nat_diff)
  have e: "frame_base v err c + 8 * of_nat k = interrupt_stack c - 8 * of_nat (Suc (22 - k))"
    unfolding n len by (simp add: algebra_simps)
  show ?thesis unfolding e using assms(2) len by (intro frame_read) simp
qed

lemma pop_regs_rsp:
  "exec_code (map Pop_reg xs) (c, m) = (fst (exec_code (map Pop_reg xs) (c, m)), m)
    \<and> rsp (fst (exec_code (map Pop_reg xs) (c, m))) = rsp c + 8 * of_nat (length xs)"
  by (induction xs arbitrary: c) (simp_all add: algebra_simps)

end
