(* ===== verification/Heap_Fault.thy ===== *)
theory Heap_Fault
  imports Entry_Stubs
begin

text \<open>
  The demand mapping of a heap page as the interrupted code sees it. The walk of \<open>paging_map_page\<close>
  writes only to frames behind the direct map, the handler otherwise only to the page it clears, and
  the entry stub only to the stack. A stack above the direct map's window and outside the page is
  therefore intact when the stub restores the registers.
\<close>

section \<open>What lies above the window of the direct map\<close>

abbreviation window_end :: "u64 \<Rightarrow> 'a paging_scheme \<Rightarrow> nat" where
  "window_end off s \<equiv> unat (total_pages s) * 4096 + unat off"

lemma not_near_above:
  fixes a k x :: u64
  assumes "unat a + unat k \<le> unat x"
  shows "\<not> x - a < k"
proof -
  have "unat (x - a) = unat x - unat a" using assms by (intro unat_sub_no_wrap) (simp add: word_le_nat_alt)
  with assms show ?thesis by (simp add: word_less_nat_alt)
qed

lemma frame_below_window:
  assumes "in_frame off f a" and "f < unat (total_pages s)"
  shows "unat a + 4096 \<le> window_end off s"
proof -
  have "f * 4096 + 4096 \<le> unat (total_pages s) * 4096" using assms(2) by linarith
  with assms(1) show ?thesis by (simp add: in_frame_def)
qed

lemma entry_set_above:
  assumes f: "in_frame off f t" "f < unat (total_pages s)" and off: "unat off mod 4096 = 0" and i: "i < 512"
    and x: "window_end off s \<le> unat x"
  shows "entry_set t i v m x = m x"
proof -
  have "unat i < 512" using i by (simp add: word_less_nat_alt)
  then have "unat (t + 8 * i) + 8 \<le> unat x"
    using slot_addr [OF f(1) off i, of 0] frame_below_window [OF f] x by simp
  then have "\<not> x - (t + 8 * i) < 8" by (intro not_near_above) simp
  then show ?thesis by (simp add: entry_set_def store64_other)
qed

lemma memset_frame_above:
  assumes f: "in_frame off f t" "f < unat (total_pages s)" and x: "window_end off s \<le> unat x"
  shows "snd (memset t 0 PAGE_SIZE m) x = m x"
proof -
  have "\<not> x - t < PAGE_SIZE"
    using frame_below_window [OF f] x by (intro not_near_above) (simp add: PAGE_SIZE_def)
  then show ?thesis by (simp add: memset_apply)
qed

lemma table_below:
  assumes "paging_ok off s" and "tables_below off s" and "tree_path q" and "table_of off s q = Some t"
  obtains f where "in_frame off f t" and "f < unat (total_pages s)"
proof -
  have "pt_tree off s" using assms(1) by (simp add: paging_ok_def)
  from pt_tree_frame [OF this assms(3,4)] obtain f where f: "in_frame off f t" by blast
  then have "table_frame off s f" using assms(3,4) unfolding table_frame_def by blast
  with f assms(2) that show thesis unfolding tables_below_def by blast
qed

lemma tree_step_below: "tree_step off s t \<Longrightarrow> tables_below off s \<Longrightarrow> tables_below off t"
  unfolding tree_step_def tables_below_def taken_def allocatable_def by fastforce

lemma sub_table_above:
  assumes x: "extra_ok x" and ok: "paging_ok off s" and below: "tables_below off s"
    and q: "tree_path (i # q)" "table_of off s q = Some t" and a: "window_end off s \<le> unat a"
  shows "kmem (snd (sub_table x off t i s)) a = kmem s a"
proof (cases "is_present (entry_get (kmem s) t i)")
  case False
  have pok: "pmm_ok s" and win: "window_ok off s" using ok by (simp_all add: paging_ok_def)
  have off: "unat off mod 4096 = 0" using win by (simp add: window_ok_def)
  obtain phys s1 where al: "pmm_alloc_page s = (phys, s1)" by fastforce
  have s1: "kmem s1 = kmem s" using alloc_page_paging [of s] al by simp
  show ?thesis
  proof (cases "phys = 0")
    case True
    then show ?thesis using False al s1 by (simp add: sub_table_def)
  next
    case ne: False
    obtain g where g: "in_frame off g (phys + off)" "g \<notin> taken s"
      using alloc_page_in_window [OF pok win] ne al by auto
    then have gt: "g < unat (total_pages s)" by (simp add: taken_def allocatable_def)
    obtain f where f: "in_frame off f t" "f < unat (total_pages s)"
      using table_below [OF ok below _ q(2)] q(1) by (auto simp: tree_path_Cons)
    have i: "i < 512" using q(1) by (simp add: tree_path_Cons)
    show ?thesis
      using False ne al s1 entry_set_above [OF f off i a] memset_frame_above [OF g(1) gt a]
      by (simp add: sub_table_def add_table_def)
  qed
qed (simp add: sub_table_def)

lemma sub_table_level:
  assumes "extra_ok x" and "paging_ok off s" and "tables_below off s" and "tree_path (i # q)"
    and "table_of off s q = Some t" and "window_end off s \<le> unat a" and r: "sub_table x off t i s = (b, s')"
  shows "paging_ok off s' \<and> tables_below off s' \<and> total_pages s' = total_pages s \<and> kmem s' a = kmem s a
    \<and> (b \<noteq> 0 \<longrightarrow> table_of off s' (i # q) = Some b)"
proof -
  note st = sub_table_step [OF assms(1,2,4,5), unfolded r, simplified]
  have hh: "paging_hhdm s = Some off" using assms(2) by (simp add: paging_ok_def)
  have "total_pages s' = total_pages s" using st(1) by (simp add: tree_step_def)
  with st tree_step_ok [OF st(1) hh] tree_step_below [OF st(1) assms(3)] sub_table_above [OF assms(1-6)] r
  show ?thesis by simp
qed

lemma map_walk_above:
  assumes x: "extra_ok x" and ok: "paging_ok off s" and below: "tables_below off s" and a: "window_end off s \<le> unat a"
  shows "kmem (snd (map_walk x off va e s)) a = kmem s a"
proof -
  have path: "tree_path [pml4_index va]" "tree_path [pdp_index va, pml4_index va]"
      "tree_path [pd_index va, pdp_index va, pml4_index va]"
    by (simp_all add: tree_path_def)
  obtain pdp s1 where g1: "sub_table x off (pt_root off s) (pml4_index va) s = (pdp, s1)" by fastforce
  note l1 = sub_table_level [OF x ok below path(1) table_root a g1]
  show ?thesis
  proof (cases "pdp = 0")
    case p1: False
    obtain pd s2 where g2: "sub_table x off pdp (pdp_index va) s1 = (pd, s2)" by fastforce
    have l2: "paging_ok off s2 \<and> tables_below off s2 \<and> total_pages s2 = total_pages s1 \<and> kmem s2 a = kmem s1 a
        \<and> (pd \<noteq> 0 \<longrightarrow> table_of off s2 [pdp_index va, pml4_index va] = Some pd)"
      using l1 p1 a by (intro sub_table_level [OF x _ _ path(2) _ _ g2]) simp_all
    show ?thesis
    proof (cases "pd = 0")
      case p2: False
      obtain pt s3 where g3: "sub_table x off pd (pd_index va) s2 = (pt, s3)" by fastforce
      have l3: "paging_ok off s3 \<and> tables_below off s3 \<and> total_pages s3 = total_pages s2 \<and> kmem s3 a = kmem s2 a
          \<and> (pt \<noteq> 0 \<longrightarrow> table_of off s3 [pd_index va, pdp_index va, pml4_index va] = Some pt)"
        using l1 l2 p2 a by (intro sub_table_level [OF x _ _ path(3) _ _ g3]) simp_all
      show ?thesis
      proof (cases "pt = 0")
        case p3: False
        then obtain f where f: "in_frame off f pt" "f < unat (total_pages s3)"
          using l3 path(3) by (blast elim: table_below)
        have "unat off mod 4096 = 0" using ok by (simp add: paging_ok_def window_ok_def)
        from entry_set_above [OF f this index_bound(4)] l1 l2 l3 a show ?thesis
          by (simp add: map_walk_def g1 g2 g3 p1 p2 p3)
      qed (use l1 l2 l3 in \<open>simp add: map_walk_def g1 g2 g3 p1 p2\<close>)
    qed (use l1 l2 in \<open>simp add: map_walk_def g1 g2 p1\<close>)
  qed (use l1 in \<open>simp add: map_walk_def g1\<close>)
qed

lemma map_page_above:
  assumes ok: "paging_ok off s" and "tables_below off s" and "window_end off s \<le> unat a"
  shows "kmem (snd (paging_map_page va pa flags s)) a = kmem s a"
proof -
  have hh: "paging_hhdm s = Some off" using ok by (simp add: paging_ok_def)
  show ?thesis
    using map_walk_above [OF extra_ok_0 assms, of va "pa OR flags OR PAGING_PRESENT"]
    by (simp add: paging_map_page_walk [OF hh] case_prod_beta)
qed

section \<open>The handler and the stub\<close>

lemma fault_handler_above:
  assumes ok: "paging_ok off s" and below: "tables_below off s" and a: "window_end off s \<le> unat a"
    and page: "\<not> a - (cr2 s AND PAGE_MASK) < PAGE_SIZE" and r: "handle_page_fault r s = Some (Resumed t)"
  shows "kmem t a = kmem s a"
proof -
  let ?base = "cr2 s AND PAGE_MASK"
  obtain phys s1 where al: "pmm_alloc_page s = (phys, s1)" by fastforce
  have s1: "kmem s1 = kmem s" "total_pages s1 = total_pages s" using alloc_page_paging [of s] alloc_page_window(1) al
    by (metis alloc_page_frame_fields snd_conv)+
  have ok1: "paging_ok off s1" using alloc_page_paging_ok [OF ok] al by simp
  have "table_frame off s1 f \<longleftrightarrow> table_frame off s f" for f
    using alloc_page_paging [of s] alloc_page_window(2) [of off s] al by (simp add: table_frame_def)
  then have below1: "tables_below off s1" using below by (simp add: tables_below_def s1)
  obtain m s2 where mp: "paging_map_page ?base phys (PAGING_PRESENT OR PAGING_WRITABLE) s1 = (m, s2)" by fastforce
  have s2: "kmem s2 a = kmem s a"
    using map_page_above [OF ok1 below1, of a ?base phys "PAGING_PRESENT OR PAGING_WRITABLE"] mp a s1 by simp
  from r have "t = (klog_num ''[PAGING] Auto-mapped heap page at 0x'' 16 ?base ''\<newline>'' s2)
      \<lparr>kmem := snd (memset ?base 0 PAGE_SIZE (kmem s2))\<rparr>"
    by (auto simp: handle_page_fault_def page_fault_report_def al mp Let_def klog_num_def klog_def
        split: if_splits option.splits)
  with s2 page show ?thesis by (simp add: memset_apply)
qed

lemma paging_kept_above:
  assumes ok: "paging_ok off s" and below: "tables_below off s"
    and m: "\<And>x. unat x < window_end off s \<Longrightarrow> m x = kmem s x"
  shows "paging_ok off (s\<lparr>kmem := m\<rparr>)" and "tables_below off (s\<lparr>kmem := m\<rparr>)"
    and "translation off (s\<lparr>kmem := m\<rparr>) va = translation off s va"
proof -
  have tree: "pt_tree off s" and off: "unat off mod 4096 = 0" using ok by (simp_all add: paging_ok_def window_ok_def)
  have b: "f < unat (total_pages s)" if "table_frame off s f" for f using below that by (simp add: tables_below_def)
  have t: "tree_path p \<Longrightarrow> tbl m off (pt_root off s) p = table_of off s p" for p
    by (rule tables_kept(2) [OF tree off b le_refl m])
  have "pt_tree off (s\<lparr>kmem := m\<rparr>)" using tree unfolding pt_tree_def by (simp add: t cong: conj_cong)
  then show "paging_ok off (s\<lparr>kmem := m\<rparr>)" using ok by (simp add: paging_ok_def)
  show "tables_below off (s\<lparr>kmem := m\<rparr>)"
    using below by (simp add: tables_below_def table_frame_def t cong: conj_cong)
  show "translation off (s\<lparr>kmem := m\<rparr>) va = translation off s va"
    by (rule translation_kept [OF tree off b le_refl m])
qed

lemma interrupts_on_paging [simp]:
  fixes s :: "'a machine_scheme"
  shows "paging_ok off (s\<lparr>interrupts_on := b\<rparr>) = paging_ok off s" "tables_below off (s\<lparr>interrupts_on := b\<rparr>) = tables_below off s"
    "taken (s\<lparr>interrupts_on := b\<rparr>) = taken s" "pt_root off (s\<lparr>interrupts_on := b\<rparr>) = pt_root off s"
  by (simp_all add: paging_ok_def tables_below_def table_frame_def pmm_ok_def pmm_wf_def pt_tree_def window_ok_def
      pt_root_def taken_def allocatable_def memmap_entries_def used_frames_def page_bit_def)

text \<open>The stack of the entry: the frame and the return address below it.\<close>

definition entry_stack :: "cpu \<Rightarrow> u64 set" where
  "entry_stack c = span_of (interrupt_stack c - 184) 184"

lemma call_memory_changes: "stub_matches v \<Longrightarrow> changes_in (entry_stack c) m (call_memory e ret v err c m)"
  using fold_push [of "frame_words v err c @ [ret]" 23 "\<lambda>x _. x" "(interrupt_stack c, m)"]
  by (simp add: call_memory_frame fold_push_fst entry_stack_def eta_contract_eq)

lemma frame_area_sub: "frame_area c \<subseteq> entry_stack c"
  using span_of_sub [of 8 184 176 "interrupt_stack c - 184"] by (simp add: frame_area_def entry_stack_def)

lemma entry_stack_above:
  assumes "B + 184 \<le> unat (interrupt_stack c)" and "x \<in> entry_stack c"
  shows "B \<le> unat x"
proof -
  let ?a = "interrupt_stack c - 184"
  have "(184 :: u64) \<le> interrupt_stack c" using assms(1) by (simp add: word_le_nat_alt)
  then have a: "unat ?a = unat (interrupt_stack c) - 184" by (simp add: unat_sub_no_wrap)
  have d: "unat (x - ?a) < 184" using assms(2) by (simp add: entry_stack_def span_of_def word_less_nat_alt)
  have "unat ?a + unat (x - ?a) < 2 ^ LENGTH(64)"
    using a d assms(1) unat_u64_bound [of "interrupt_stack c"] by simp
  then have "unat (?a + (x - ?a)) = unat ?a + unat (x - ?a)" by (rule unat_add_no_wrap)
  then have "unat x = unat ?a + unat (x - ?a)" by simp
  with a assms(1) show ?thesis by linarith
qed

lemma heap_fault_resumes:
  fixes s :: "'a machine_scheme"
  assumes ok: "paging_ok off s" and below: "tables_below off s" and win: "window_end off s \<le> HEAP_BASE"
    and F: "F \<inter> taken s = {}" "4 \<le> card F"
    and h: "isr_handlers s ! 14 = Some Handle_page_fault"
    and fault: "err AND 0x1 = 0" "HEAP_START \<le> cr2 s" "cr2 s < HEAP_START + HEAP_MAX_SIZE"
    and stack: "window_end off s + 184 \<le> unat (interrupt_stack c)"
      "entry_stack c \<inter> span_of (cr2 s AND PAGE_MASK) PAGE_SIZE = {}"
  shows "\<exists>t a. interrupt e ret cc g 14 err c s = Some (Continues c t)
    \<and> unat a div 4096 \<notin> taken s \<and> unat a mod 4096 = 0
    \<and> (\<forall>va. translation off t va = (if same_page va (cr2 s) then Some (a OR PAGING_PRESENT OR PAGING_WRITABLE)
         else translation off s va))
    \<and> (\<forall>x. x - (cr2 s AND PAGE_MASK) < PAGE_SIZE \<longrightarrow> kmem t x = 0)"
proof -
  let ?m = "call_memory e ret 14 err c (kmem s)"
  let ?u = "s\<lparr>kmem := ?m, interrupts_on := False\<rparr>"
  let ?r = "\<lparr>int_no = ucast (14 :: u8), err_code = (if cpu_pushes_errcode 14 then err else 0), reg_rip = rip c\<rparr>"
  have v: "stub_matches 14" and p: "cpu_pushes_errcode 14" by (simp_all add: has_errcode_stub_def cpu_pushes_errcode_def)
  have m: "?m x = kmem s x" if "unat x < window_end off s" for x
  proof -
    have "x \<notin> entry_stack c" using entry_stack_above [OF stack(1)] that by fastforce
    then show ?thesis using call_memory_changes [OF v, of c "kmem s" e ret err] by (simp add: changes_in_def)
  qed
  note k = paging_kept_above [OF ok below m]
  have u: "paging_ok off ?u" "tables_below off ?u" "window_end off ?u \<le> HEAP_BASE" "F \<inter> taken ?u = {}"
    "HEAP_START \<le> cr2 ?u" "cr2 ?u < HEAP_START + HEAP_MAX_SIZE" "err_code ?r AND 0x1 = 0"
    using k(1,2) win F(1) fault p by simp_all
  from heap_fault_maps [OF u(1-4) F(2) u(7,5,6)] obtain t a where t: "handle_page_fault ?r ?u = Some (Resumed t)"
    "unat a div 4096 \<notin> taken ?u" "unat a mod 4096 = 0"
    "\<forall>va. translation off t va = (if same_page va (cr2 ?u) then Some (a OR PAGING_PRESENT OR PAGING_WRITABLE)
         else translation off ?u va)"
    "\<forall>x. x - (cr2 ?u AND PAGE_MASK) < PAGE_SIZE \<longrightarrow> kmem t x = 0"
    by (elim exE conjE) (rule that)
  have keep: "changes_in (- frame_area c) ?m (kmem t)"
    unfolding changes_in_def
  proof (intro allI impI)
    fix x assume "x \<notin> - frame_area c"
    then have x: "x \<in> entry_stack c" using frame_area_sub by blast
    then have "x \<notin> span_of (cr2 s AND PAGE_MASK) PAGE_SIZE" using stack(2) by blast
    then have "kmem t x = kmem ?u x"
      using entry_stack_above [OF stack(1) x] by (intro fault_handler_above [OF u(1,2) _ _ t(1)]) (simp_all add: span_of_def)
    then show "kmem t x = ?m x" by simp
  qed
  have run: "isr_handler e cc ?r ?u = Some (Resumed t)" using h t(1) by (simp add: isr_handler_def run_handler_def)
  have res: "interrupt e ret cc g 14 err c s = Some (Continues c (t\<lparr>interrupts_on := bit (rflags c) 9\<rparr>))"
    by (rule interrupt_of_handler [OF v run keep])
  have "translation off ?u va = translation off s va" for va
    using k(3) [of va] by (simp add: pt_root_def)
  with t(2-5) res show ?thesis by (intro exI [of _ "t\<lparr>interrupts_on := bit (rflags c) 9\<rparr>"] exI [of _ a]) simp
qed

end
