(* ===== verification/Entry_Properties.thy ===== *)
theory Entry_Properties
  imports Heap_Fault Interrupt_Properties
begin

text \<open>
  The properties of the interrupt stubs (isr_asm.asm) together with the dispatcher: the structure the
  handler is given, the exact restoration of the interrupted registers, the timer tick as the
  interrupted code sees it, and the vectors whose stub does not match the processor.
\<close>

definition busy_cpu :: cpu where
  "busy_cpu = \<lparr>gpr = (\<lambda>x. if x = R15 then 15 else if x = RAX then 0xA else 7), rip = 0xFFFFFFFF80200000, cs = 0x08,
     rflags = 0x202, rsp = 0x90000, ss = 0x10\<rparr>"

definition plain_env :: env where
  "plain_env = sample_env\<lparr>isr_stub := (\<lambda>v. 0xFFFFFFFF80100000 + 16 * ucast v)\<rparr>"


text \<open>C18. For every vector whose stub matches the processor, the handler is called with a pointer to
  a structure whose number is the vector, whose error code is the one the processor pushed or zero,
  and whose instruction pointer is the interrupted one; the stack is aligned to 16 bytes at the call,
  and nothing but the 176 bytes of the frame has been written. The first fifteen fields, however, hold
  the registers in reverse: the field r15 holds RAX and the field rax holds R15.\<close>

theorem stub_builds_frame:
  assumes "v < 48" and "v \<notin> {17, 21, 29, 30}"
  shows "let (c1, m1) = stub_entry e v err (c, m)
    in rsp c1 = gpr c1 RDI \<and> gpr c1 RDI AND 0xF = 0 \<and> changes_in (frame_area c) m m1
      \<and> registers_at m1 (gpr c1 RDI) = \<lparr>int_no = ucast v,
          err_code = (if v \<in> {8, 10, 11, 12, 13, 14} then err else 0), reg_rip = rip c\<rparr>
      \<and> map (\<lambda>(off, x). load64 m1 (gpr c1 RDI + off)) registers_fields
          = map (gpr c) (rev (map snd registers_fields))"
proof -
  have v: "stub_matches v" using assms(2) by (simp only: matches_iff) simp
  then have p: "cpu_pushes_errcode v \<longleftrightarrow> v \<in> {8, 10, 11, 12, 13, 14}" by (simp add: has_errcode_stub_def)
  have "changes_in (frame_area c) m (frame_memory v err c m)"
    using fold_push [of "frame_words v err c" 22 "\<lambda>x _. x" "(interrupt_stack c, m)"] v
    by (simp add: frame_area_def eta_contract_eq)
  then show ?thesis
    using registers_seen [OF v changes_in_refl] frame_aligned [OF v, where err = err and c = c] p
    by (simp add: stub_entry_state)
qed

theorem stub_builds_frame_witness:
  "let (c1, m1) = stub_entry plain_env 14 2 (busy_cpu, \<lambda>_. 0)
   in int_no (registers_at m1 (gpr c1 RDI)) = 14 \<and> err_code (registers_at m1 (gpr c1 RDI)) = 2
     \<and> load64 m1 (gpr c1 RDI) = 0xA"
  using stub_builds_frame [of 14 plain_env 2 busy_cpu "\<lambda>_. 0"]
  by (simp add: case_prod_beta Let_def registers_fields_def busy_cpu_def)



text \<open>C16. The timer interrupt with the local APIC, when the scheduler is not due, as the interrupted
  code sees it: it goes on with exactly its registers; the tick counter has gone up by one, the
  end-of-interrupt register has been written once, memory has changed below the stack pointer only,
  where the frame and the return address were, and interrupts are on again exactly when they were on
  in its flags.\<close>

theorem timer_tick_is_transparent:
  fixes s :: "'a machine_scheme"
  assumes "isr_handlers s ! 32 = None" and "irq_handlers s ! 0 = Some Lapic_timer_handler"
    and "apic_available e" and "apic_on (apic s)" and "lapic_base (apic s) \<noteq> 0"
    and "(lapic_ticks s + 1) mod 10 \<noteq> 0"
  shows "\<exists>m. interrupt e ret cc g 32 err c s
      = Some (Continues c (s\<lparr>kmem := m, lapic_ticks := lapic_ticks s + 1,
          mmio_out := mmio_out s @ [(lapic_base (apic s) + 0xB0, 0)], interrupts_on := bit (rflags c) 9\<rparr>))
    \<and> changes_in (span_of (interrupt_stack c - 184) 184) (kmem s) m"
proof -
  let ?m = "call_memory e ret 32 err c (kmem s)"
  let ?u = "s\<lparr>kmem := ?m, interrupts_on := False\<rparr>"
  let ?t = "?u\<lparr>lapic_ticks := lapic_ticks s + 1, mmio_out := mmio_out s @ [(lapic_base (apic s) + 0xB0, 0)]\<rparr>"
  have v: "stub_matches 32" by (simp add: has_errcode_stub_def cpu_pushes_errcode_def)
  have eoi: "send_eoi e 0 (?u\<lparr>lapic_ticks := n\<rparr>)
      = ?u\<lparr>lapic_ticks := n, mmio_out := mmio_out s @ [(lapic_base (apic s) + 0xB0, 0)]\<rparr>" for n
    using assms(3-5)
    by (simp add: send_eoi_def lapic_eoi_def lapic_write_def lapic_reg_def mmio_write_def LAPIC_EOI_REG_def)
  have h: "isr_handler e cc \<lparr>int_no = ucast (32 :: u8), err_code = (if cpu_pushes_errcode 32 then err else 0), reg_rip = rip c\<rparr> ?u
      = Some (Resumed ?t)"
    using assms(1,2,6) eoi by (simp add: isr_handler_def irq_handler_def run_handler_def lapic_timer_handler_def Let_def)
  have "interrupt e ret cc g 32 err c s = Some (Continues c (?t\<lparr>interrupts_on := bit (rflags c) 9\<rparr>))"
    using interrupt_of_handler [OF v h] by simp
  moreover have "changes_in (span_of (interrupt_stack c - 184) 184) (kmem s) ?m"
    using fold_push [of "frame_words 32 err c @ [ret]" 23 "\<lambda>x _. x" "(interrupt_stack c, kmem s)"] v
    by (simp add: call_memory_frame fold_push_fst eta_contract_eq)
  ultimately show ?thesis by (intro exI [of _ ?m]) simp
qed

theorem timer_tick_is_transparent_witness:
  "\<exists>t. interrupt sample_env 0 busy_cpu (\<lambda>_. 0) 32 0 busy_cpu (sample_machine\<lparr>lapic_ticks := 3\<rparr>)
       = Some (Continues busy_cpu t) \<and> lapic_ticks t = 4 \<and> kmem t 0xA0000 = kmem sample_machine 0xA0000"
proof -
  have "apic_available sample_env" by (simp add: apic_available_def sample_env_def)
  then obtain m where m: "interrupt sample_env 0 busy_cpu (\<lambda>_. 0) 32 0 busy_cpu (sample_machine\<lparr>lapic_ticks := 3\<rparr>)
      = Some (Continues busy_cpu (sample_machine\<lparr>kmem := m, lapic_ticks := 4,
          mmio_out := [(0xFEE000B0, 0)], interrupts_on := bit (rflags busy_cpu) 9\<rparr>))"
    "changes_in (span_of (interrupt_stack busy_cpu - 184) 184) (kmem sample_machine) m"
    using timer_tick_is_transparent [of "sample_machine\<lparr>lapic_ticks := 3\<rparr>" sample_env 0 busy_cpu "\<lambda>_. 0" 0 busy_cpu] by auto
  from m(2) have "m 0xA0000 = kmem sample_machine 0xA0000"
    by (simp add: changes_in_def span_of_def interrupt_stack_def busy_cpu_def)
  with m(1) show ?thesis by simp
qed



text \<open>C17. Demand paging is invisible to the code that runs: when it touches a heap page that is not
  present, with four frames left and its stack above the direct map and outside that page, it goes on
  with exactly its registers, so that the access is repeated, and the page is now mapped, writable, to
  a fresh frame and reads as zero; every other translation is as before.\<close>

theorem heap_fault_is_transparent:
  fixes s :: "'a machine_scheme"
  assumes "paging_ok off s" and "tables_below off s" and "window_end off s \<le> HEAP_BASE"
    and "F \<inter> taken s = {}" and "4 \<le> card F" and "isr_handlers s ! 14 = Some Handle_page_fault"
    and "err AND 0x1 = 0" and "HEAP_START \<le> cr2 s" and "cr2 s < HEAP_START + HEAP_MAX_SIZE"
    and "window_end off s + 184 \<le> unat (interrupt_stack c)"
    and "entry_stack c \<inter> span_of (cr2 s AND PAGE_MASK) PAGE_SIZE = {}"
  shows "\<exists>t a. interrupt e ret cc g 14 err c s = Some (Continues c t)
    \<and> unat a div 4096 \<notin> taken s \<and> unat a mod 4096 = 0
    \<and> (\<forall>va. translation off t va = (if same_page va (cr2 s) then Some (a OR PAGING_PRESENT OR PAGING_WRITABLE)
         else translation off s va))
    \<and> (\<forall>x. x - (cr2 s AND PAGE_MASK) < PAGE_SIZE \<longrightarrow> kmem t x = 0)"
  by (rule heap_fault_resumes [OF assms])

theorem heap_fault_is_transparent_witness:
  "\<exists>t. interrupt sample_env 0 busy_cpu (\<lambda>_. 0) 14 2 (busy_cpu\<lparr>rsp := 0xFFFFFFFF80104008\<rparr>)
       (sample_machine\<lparr>isr_handlers := replicate 256 (Some Handle_page_fault)\<rparr>)
     = Some (Continues (busy_cpu\<lparr>rsp := 0xFFFFFFFF80104008\<rparr>) t) \<and> kmem t 0xFFFFFFFF90200FF0 = 0"
proof -
  let ?s = "sample_machine\<lparr>isr_handlers := replicate 256 (Some Handle_page_fault)\<rparr>"
  let ?c = "busy_cpu\<lparr>rsp := 0xFFFFFFFF80104008\<rparr>"
  have same: "paging_ok sample_hhdm ?s" "tables_below sample_hhdm ?s" "taken ?s = taken sample_machine"
    using sample_machine_paging
    by (simp_all add: paging_ok_def tables_below_def table_frame_def pmm_ok_def pmm_wf_def pt_tree_def window_ok_def
        pt_root_def taken_def allocatable_def memmap_entries_def used_frames_def page_bit_def)
  have F: "{2..<6} \<inter> taken ?s = {}" "4 \<le> card {2..<6::nat}" by (auto simp: same(3) sample_machine_pmm)
  have w: "window_end sample_hhdm ?s \<le> HEAP_BASE" by (simp add: sample_hhdm_def HEAP_BASE_def)
  have st: "interrupt_stack ?c = 0xFFFFFFFF80104000" by (simp add: interrupt_stack_def)
  have pg: "cr2 ?s AND PAGE_MASK = 0xFFFFFFFF90200000" by (simp add: PAGE_MASK_def)
  have h: "isr_handlers ?s ! 14 = Some Handle_page_fault" "(2 :: u64) AND 0x1 = 0" "HEAP_START \<le> cr2 ?s"
    "cr2 ?s < HEAP_START + HEAP_MAX_SIZE" "window_end sample_hhdm ?s + 184 \<le> unat (interrupt_stack ?c)"
    unfolding st by (simp_all add: HEAP_START_def HEAP_MAX_SIZE_def sample_hhdm_def)
  have "entry_stack ?c \<inter> span_of 0xFFFFFFFF90200000 PAGE_SIZE = {}"
  proof -
    have "False" if "x - 0xFFFFFFFF80103F48 < 184" "x - 0xFFFFFFFF90200000 < 0x1000" for x :: u64
    proof -
      have "span_of 0xFFFFFFFF80103F48 184 \<inter> span_of (0xFFFFFFFF80103F48 + 0x100FC0B8) 0x1000 = {}"
        by (rule span_of_apart) simp_all
      with that show False by (auto simp: span_of_def)
    qed
    then show ?thesis by (auto simp: entry_stack_def st span_of_def PAGE_SIZE_def)
  qed
  then have d: "entry_stack ?c \<inter> span_of (cr2 ?s AND PAGE_MASK) PAGE_SIZE = {}" unfolding pg .
  from heap_fault_is_transparent [OF same(1,2) w F h d, of sample_env 0 busy_cpu "\<lambda>_. 0"]
  obtain t where "interrupt sample_env 0 busy_cpu (\<lambda>_. 0) 14 2 ?c ?s = Some (Continues ?c t)"
    "\<forall>x. x - 0xFFFFFFFF90200000 < PAGE_SIZE \<longrightarrow> kmem t x = 0"
    unfolding pg by blast
  then show ?thesis by (intro exI [of _ t]) (simp add: PAGE_SIZE_def)
qed

end
