(* ===== verification/Kernel_State.thy ===== *)
theory Kernel_State
  imports Interrupts Gdt
begin

text \<open>
  The state of the kernel at its widest: to the machine of \<open>Machine\<close> come the statics of simd.c,
  smp.c and kernel.c, the boot loader's list of processors, and the two processor registers these
  files write. The environment grows by what \<open>cpuid\<close> and \<open>xgetbv\<close> answer and by
  the addresses of the statics whose address the code takes.
\<close>

section \<open>Processors\<close>

record cpu_info =
  cpu_id :: u32
  cpu_lapic_id :: u32
  kernel_stack :: u64
  cpu_state :: u32
  gs_base :: u64
  is_bsp :: bool

record smp_state =
  cpus :: "cpu_info list"
  cpu_count :: u32
  bsp_id :: u32
  smp_available :: bool
  started_count :: u32

text \<open>
  \<open>struct limine_mp_response\<close> and the \<open>struct limine_mp_info\<close> it points to: \<open>cpu_count\<close>
  is the length of the array.
\<close>

record mp_info =
  mi_lapic_id :: u32
  goto_address :: u64

record mp_response =
  mp_bsp_lapic_id :: u32
  mp_cpus :: "mp_info list"

record kernel = machine +
  mxcsr :: u32
  vendor :: "u8 list option"
  smp :: smp_state
  mp :: "mp_response option"
  gs_base_msr :: u64
  heap_offset :: u64

section \<open>Surroundings\<close>

record cpuid_regs =
  r_eax :: u32
  r_ebx :: u32
  r_ecx :: u32
  r_edx :: u32

text \<open>
  \<open>brand_buf\<close> is the stack buffer of \<open>print_cpu_features\<close>; the other addresses are those the
  linker gives to \<open>smp_state.cpus\<close>, \<open>early_heap\<close>, the two task structures, the two task functions,
  the signature literals of acpi.c and \<open>ap_entry\<close>.
\<close>

record boot_env = env +
  cpuid :: "u32 \<Rightarrow> u32 \<Rightarrow> cpuid_regs"
  xcr0 :: u64
  brand_buf :: u64
  cpus_addr :: u64
  early_heap :: u64
  task1 :: u64
  task2 :: u64
  task1_func :: u64
  task2_func :: u64
  lit_rsdp :: u64
  lit_fadt :: u64
  lit_madt :: u64
  ap_entry_addr :: u64

abbreviation dev :: "boot_env \<Rightarrow> env" where
  "dev e \<equiv> env.truncate e"

section \<open>Strings behind pointers\<close>

text \<open>The text a \<open>char\<close> pointer stands for, up to its NUL.\<close>

definition text_of :: "u8 list \<Rightarrow> string" where
  "text_of bs = map (\<lambda>b. char_of (unat b)) (takeWhile (\<lambda>b. b \<noteq> 0) bs)"

definition text_at :: "bytes \<Rightarrow> u64 \<Rightarrow> string option" where
  "text_at m p = map_option (\<lambda>n. text_of (peek m p (unat n))) (strlen p m)"

end
