(* ===== verification/Acpi.thy ===== *)
theory Acpi
  imports Kernel_State
begin

text \<open>
  The discovery of the ACPI tables (acpi.c). The tables lie in memory; their fields are read at the
  offsets of the packed structures of acpi.h. A string argument is the address of its literal. The
  log of a found table prints from the signature on to the next zero byte, because the four
  characters are not terminated: \<open>None\<close> when there is none.
\<close>

section \<open>Fields\<close>

definition sdt_length :: "bytes \<Rightarrow> u64 \<Rightarrow> u32" where
  "sdt_length m h = load32 m (h + 4)"

definition SDT_HEADER_SIZE :: u64 where "SDT_HEADER_SIZE = 36"

definition xsdt_table :: "bytes \<Rightarrow> u64 \<Rightarrow> u64 \<Rightarrow> u64" where
  "xsdt_table m x i = load64 m (x + 36 + 8 * i)"

definition rsdt_table :: "bytes \<Rightarrow> u64 \<Rightarrow> u32 \<Rightarrow> u64" where
  "rsdt_table m r i = ucast (load32 m (r + 36 + 4 * ucast i))"

definition rsdp_revision :: "bytes \<Rightarrow> u64 \<Rightarrow> u8" where "rsdp_revision m r = m (r + 15)"
definition rsdp_rsdt_address :: "bytes \<Rightarrow> u64 \<Rightarrow> u32" where "rsdp_rsdt_address m r = load32 m (r + 16)"
definition rsdp_length :: "bytes \<Rightarrow> u64 \<Rightarrow> u32" where "rsdp_length m r = load32 m (r + 20)"
definition rsdp_xsdt_address :: "bytes \<Rightarrow> u64 \<Rightarrow> u64" where "rsdp_xsdt_address m r = load64 m (r + 24)"

definition fadt_smi_cmd :: "bytes \<Rightarrow> u64 \<Rightarrow> u32" where "fadt_smi_cmd m f = load32 m (f + 48)"
definition fadt_acpi_enable :: "bytes \<Rightarrow> u64 \<Rightarrow> u8" where "fadt_acpi_enable m f = m (f + 52)"
definition fadt_pm1a_cnt_blk :: "bytes \<Rightarrow> u64 \<Rightarrow> u32" where "fadt_pm1a_cnt_blk m f = load32 m (f + 64)"

section \<open>Looking tables up\<close>

definition acpi_map_physical_to_virtual :: "u64 \<Rightarrow> 'a machine_scheme \<Rightarrow> u64 \<times> 'a machine_scheme" where
  "acpi_map_physical_to_virtual physical_addr s =
     (if physical_addr = 0 then (0, s)
      else let virtual_addr = paging_physical_to_virtual physical_addr s;
               page_virtual = virtual_addr AND PAGE_MASK;
               page_physical = physical_addr AND PAGE_MASK
           in if \<not> paging_is_mapped page_virtual s
              then let flags = PAGING_PRESENT OR PAGING_WRITABLE OR PAGING_NO_EXECUTE;
                       (mapped, s1) = paging_map_page page_virtual page_physical flags s
                   in if \<not> mapped
                      then (0, klog_num ''[ACPI] ERROR: Failed to map page for physical address 0x'' 16 physical_addr ''\<newline>'' s1)
                      else (virtual_addr, s1)
              else (virtual_addr, s))"

definition acpi_checksum_valid :: "u64 \<Rightarrow> u64 \<Rightarrow> bytes \<Rightarrow> bool" where
  "acpi_checksum_valid data len m = (for_up 0 len (\<lambda>i sum. sum + m (data + i)) 0 = 0)"

text \<open>The loop over the entries, the same for both root tables; \<open>entry\<close> reads the i-th address.\<close>

function acpi_search ::
  "'w::len word \<Rightarrow> 'w word \<Rightarrow> (bytes \<Rightarrow> 'w word \<Rightarrow> u64) \<Rightarrow> u64 \<Rightarrow> 'a machine_scheme \<Rightarrow> (u64 \<times> 'a machine_scheme) option" where
  "acpi_search i n entry signature s =
     (if i < n
      then let (h, s1) = acpi_map_physical_to_virtual (entry (kmem s) i) s
           in if h = 0 then acpi_search (i + 1) n entry signature s1
              else if strncmp h signature 4 (kmem s1) = 0
                \<and> acpi_checksum_valid h (ucast (sdt_length (kmem s1) h)) (kmem s1)
              then map_option (\<lambda>txt. (h, klog ''\<newline>'' (klog txt (klog ''[ACPI] Found table: '' s1)))) (text_at (kmem s1) h)
              else acpi_search (i + 1) n entry signature s1
      else Some (0, s))"
  by pat_completeness auto
termination
proof (relation "measure (\<lambda>(i, n, entry, signature, s). unat n - unat i)")
qed (auto simp: unat_Suc_of_less word_less_nat_alt)

declare acpi_search.simps [simp del]

definition acpi_find_table :: "u64 \<Rightarrow> 'a machine_scheme \<Rightarrow> (u64 \<times> 'a machine_scheme) option" where
  "acpi_find_table signature s =
     (if \<not> acpi_on (acpi s) then Some (0, s)
      else if use_xsdt (acpi s) \<and> xsdt (acpi s) \<noteq> 0
      then let entry_count = (ucast (sdt_length (kmem s) (xsdt (acpi s))) - SDT_HEADER_SIZE) div 8
           in acpi_search 0 entry_count (\<lambda>m. xsdt_table m (xsdt (acpi s))) signature s
      else if rsdt (acpi s) \<noteq> 0
      then let entry_count = (ucast ((ucast (sdt_length (kmem s) (rsdt (acpi s))) - SDT_HEADER_SIZE) div 4) :: u32)
           in acpi_search 0 entry_count (\<lambda>m. rsdt_table m (rsdt (acpi s))) signature s
      else Some (0, s))"

section \<open>Initialisation\<close>

definition acpi_root :: "u64 \<Rightarrow> 'a machine_scheme \<Rightarrow> 'a machine_scheme + 'a machine_scheme" where
  "acpi_root r s =
     (if rsdp_revision (kmem s) r \<ge> 2 \<and> rsdp_xsdt_address (kmem s) r \<noteq> 0
      then let (x, s1) = acpi_map_physical_to_virtual (rsdp_xsdt_address (kmem s) r) s;
               s2 = s1\<lparr>acpi := (acpi s1)\<lparr>xsdt := x\<rparr>\<rparr>
           in if x \<noteq> 0
              then let s3 = klog ''[ACPI] XSDT found and mapped'' s2 in Inr (s3\<lparr>acpi := (acpi s3)\<lparr>use_xsdt := True\<rparr>\<rparr>)
              else Inr (klog ''[ACPI] WARNING: XSDT address invalid, falling back to RSDT'' s2)
      else let (t, s1) = acpi_map_physical_to_virtual (ucast (rsdp_rsdt_address (kmem s) r)) s;
               s2 = s1\<lparr>acpi := (acpi s1)\<lparr>rsdt := t\<rparr>\<rparr>
           in if t \<noteq> 0
              then let s3 = klog ''[ACPI] RSDT found and mapped'' s2 in Inr (s3\<lparr>acpi := (acpi s3)\<lparr>use_xsdt := False\<rparr>\<rparr>)
              else Inl (klog ''[ACPI] ERROR: Both XSDT and RSDT are invalid!'' s2))"

text \<open>Two rounds of look-ups: one before \<open>acpi_available\<close> is set, one after.\<close>

definition acpi_locate_fadt :: "boot_env \<Rightarrow> string \<Rightarrow> string \<Rightarrow> 'a machine_scheme \<Rightarrow> 'a machine_scheme option" where
  "acpi_locate_fadt e found missing s =
     map_option (\<lambda>(f, t). klog (if f \<noteq> 0 then found else missing) (t\<lparr>acpi := (acpi t)\<lparr>fadt := f\<rparr>\<rparr>))
       (acpi_find_table (lit_fadt e) s)"

definition acpi_locate_madt :: "boot_env \<Rightarrow> string \<Rightarrow> string \<Rightarrow> 'a machine_scheme \<Rightarrow> 'a machine_scheme option" where
  "acpi_locate_madt e found missing s =
     map_option (\<lambda>(f, t). klog (if f \<noteq> 0 then found else missing) (t\<lparr>acpi := (acpi t)\<lparr>madt := f\<rparr>\<rparr>))
       (acpi_find_table (lit_madt e) s)"

definition acpi_tables :: "boot_env \<Rightarrow> 'a machine_scheme \<Rightarrow> 'a machine_scheme option" where
  "acpi_tables e s =
     Option.bind (acpi_locate_fadt e ''[ACPI] FADT found''
         ''[ACPI] WARNING: FADT not found (ACPI shutdown/reboot unavailable)'' s) (\<lambda>s1.
     Option.bind (acpi_locate_madt e ''[ACPI] MADT found\<newline>''
         ''[ACPI] WARNING: MADT not found (APIC might not be available)\<newline>'' s1) (\<lambda>s2.
     let s3 = s2\<lparr>acpi := (acpi s2)\<lparr>acpi_on := True\<rparr>\<rparr>
     in map_option (klog ''[ACPI] ACPI initialized successfully\<newline>'')
          (if acpi_on (acpi s3)
           then Option.bind (acpi_locate_madt e ''[ACPI] MADT found\<newline>'' '''' s3)
                  (acpi_locate_fadt e ''[ACPI] FADT found\<newline>''
                     ''[ACPI] FADT NOT FOUND - ACPI shutdown/reboot unavailable\<newline>'')
           else Some (klog ''[ACPI] ACPI not available\<newline>'' s3))))"

text \<open>From the mapped root pointer on: signature, checksum, root table, look-ups.\<close>

definition acpi_use_rsdp :: "boot_env \<Rightarrow> u64 \<Rightarrow> 'a machine_scheme \<Rightarrow> 'a machine_scheme option" where
  "acpi_use_rsdp e r s =
     (let s1 = klog ''[ACPI] RSDP virtual address assigned'' (s\<lparr>acpi := (acpi s)\<lparr>rsdp := r\<rparr>\<rparr>);
          first_byte = kmem s1 r;
          s2 = klog_num (char_of (unat first_byte) # '' '') 16 (ucast first_byte) ''\<newline>''
                 (klog ''[ACPI] First byte of signature read: '' s1)
      in if strncmp r (lit_rsdp e) 8 (kmem s2) \<noteq> 0
         then Some (klog ''[ACPI] ERROR: Invalid RSDP signature!'' s2)
         else let s3 = klog ''[ACPI] RSDP signature valid'' s2;
                  len = (if rsdp_revision (kmem s3) r = 0 then 20 else ucast (rsdp_length (kmem s3) r))
              in if \<not> acpi_checksum_valid r len (kmem s3)
                 then Some (klog ''[ACPI] ERROR: Invalid RSDP checksum!'' s3)
                 else (case acpi_root r (klog ''[ACPI] RSDP checksum valid'' s3) of
                         Inl t \<Rightarrow> Some t
                       | Inr t \<Rightarrow> acpi_tables e t))"

definition acpi_init :: "boot_env \<Rightarrow> u64 option \<Rightarrow> u64 option \<Rightarrow> 'a machine_scheme \<Rightarrow> 'a machine_scheme option" where
  "acpi_init e hhdm_response rsdp_response s =
     (let s1 = klog ''[ACPI] Initializing ACPI...'' s
      in if hhdm_response = None then Some (klog ''[ACPI] ERROR: HHDM response is NULL!'' s1)
         else case rsdp_response of
           None \<Rightarrow> Some (klog ''[ACPI] ERROR: No RSDP response from bootloader!'' s1)
         | Some rsdp_phys_addr \<Rightarrow>
             if rsdp_phys_addr = 0 then Some (klog ''[ACPI] ERROR: No RSDP address provided!'' s1)
             else let s2 = klog_num ''[ACPI] RSDP physical address: '' 16 rsdp_phys_addr ''\<newline>''
                             (klog ''[ACPI] RSDP address reported by Limine'' s1);
                      (r, s3) = acpi_map_physical_to_virtual rsdp_phys_addr s2;
                      s4 = klog_num ''[ACPI] Calculated RSDP virtual address: '' 16 r ''\<newline>'' s3
                  in if r = 0
                     then Some (klog ''[ACPI] ERROR: acpi_map_physical_to_virtual failed for RSDP address!'' s4)
                     else acpi_use_rsdp e r s4)"

section \<open>Power\<close>

definition acpi_shutdown :: "'a machine_scheme \<Rightarrow> 'a machine_scheme" where
  "acpi_shutdown s =
     (let f = fadt (acpi s); m = kmem s
      in if f = 0 \<or> fadt_smi_cmd m f = 0 \<or> fadt_acpi_enable m f = 0
         then klog ''[ACPI] ERROR: Cannot shutdown - FADT not available\<newline>'' s
         else let s1 = outb_port (ucast (fadt_smi_cmd m f)) (fadt_acpi_enable m f) s;
                  pm1a_cnt = ucast (fadt_pm1a_cnt_blk m f);
                  slp_typa = ucast (drop_bit 10 (fadt_pm1a_cnt_blk m f) AND 0x7);
                  slp_en = push_bit 13 1
              in klog ''[ACPI] ERROR: Shutdown failed!\<newline>'' (klog ''[ACPI] Shutdown command sent\<newline>''
                   (outw pm1a_cnt (slp_typa OR slp_en) s1)))"

text \<open>\<open>status k\<close> is what port 0x64 answers to the k-th read.\<close>

partial_function (option) keyboard_idle :: "(nat \<Rightarrow> u8) \<Rightarrow> nat \<Rightarrow> nat option" where
  "keyboard_idle status k = (if status k AND 0x02 = 0 then Some k else keyboard_idle status (Suc k))"

definition acpi_reboot :: "(nat \<Rightarrow> u8) \<Rightarrow> 'a machine_scheme \<Rightarrow> 'a machine_scheme option" where
  "acpi_reboot status s =
     (case keyboard_idle status 0 of
        None \<Rightarrow> None
      | Some k \<Rightarrow> Some (klog ''[ACPI] ERROR: Reboot failed!\<newline>'' (klog ''[ACPI] Reboot command sent\<newline>''
                    (outb_port 0x64 0xFE s))))"

end
