(* ===== verification/Smp.thy ===== *)
theory Smp
  imports Kernel_State
begin

text \<open>
  The start of the other processors (smp.c). The statics are in the record \<open>smp_state\<close>; reading
  \<open>smp_state.cpus\<close> beyond its 256 entries has no defined result and is \<open>None\<close>, as is waiting for
  ever. The processor registers of the state are those of the processor that runs the function.
  What the other processors do while the boot processor polls is a parameter of \<open>smp_start_aps\<close>;
  \<open>Smp_Startup\<close> has the interleaving itself, made of the same updates.
\<close>

section \<open>Constants and updates\<close>

definition CPU_STATE_UNUSED :: u32 where "CPU_STATE_UNUSED = 0"
definition CPU_STATE_STARTING :: u32 where "CPU_STATE_STARTING = 1"
definition CPU_STATE_RUNNING :: u32 where "CPU_STATE_RUNNING = 2"
definition CPU_STATE_HALTED :: u32 where "CPU_STATE_HALTED = 3"
definition MAX_CPUS :: u32 where "MAX_CPUS = 256"
definition LAPIC_ID_REG :: u32 where "LAPIC_ID_REG = 0x20"
definition LAPIC_TASK_PRIO_REG :: u32 where "LAPIC_TASK_PRIO_REG = 0x80"
definition LAPIC_ICR1_REG :: u32 where "LAPIC_ICR1_REG = 0x300"
definition LAPIC_ICR2_REG :: u32 where "LAPIC_ICR2_REG = 0x310"

definition CPU_INFO_SIZE :: u64 where "CPU_INFO_SIZE = 29"

text \<open>\<open>&smp_state.cpus[i]\<close>, and an assignment to a field of that entry.\<close>

definition cpu_ptr :: "boot_env \<Rightarrow> u32 \<Rightarrow> u64" where
  "cpu_ptr e i = cpus_addr e + CPU_INFO_SIZE * ucast i"

definition upd_cpu :: "u32 \<Rightarrow> (cpu_info \<Rightarrow> cpu_info) \<Rightarrow> smp_state \<Rightarrow> smp_state" where
  "upd_cpu i f sm = sm\<lparr>cpus := (cpus sm)[unat i := f (cpus sm ! unat i)]\<rparr>"

definition on_smp :: "(smp_state \<Rightarrow> smp_state) \<Rightarrow> 'a kernel_scheme \<Rightarrow> 'a kernel_scheme" where
  "on_smp f s = s\<lparr>smp := f (smp s)\<rparr>"

definition hex64_text :: "u64 \<Rightarrow> string" where
  "hex64_text v = ''0x'' @ map (\<lambda>k. ''0123456789ABCDEF'' ! unat (drop_bit k v AND 0xF))
     [60, 56, 52, 48, 44, 40, 36, 32, 28, 24, 20, 16, 12, 8, 4, 0]"

definition klog_hex :: "string \<Rightarrow> u64 \<Rightarrow> string \<Rightarrow> 'a console_scheme \<Rightarrow> 'a console_scheme" where
  "klog_hex a v b s = klog b (klog (hex64_text v) (klog a s))"

section \<open>Registration\<close>

definition smp_single :: "boot_env \<Rightarrow> smp_state \<Rightarrow> smp_state" where
  "smp_single e sm =
     (upd_cpu 0 (\<lambda>c. c\<lparr>cpu_id := 0, cpu_lapic_id := 0, cpu_state := CPU_STATE_RUNNING, is_bsp := True,
                        gs_base := cpu_ptr e 0\<rparr>)
        (sm\<lparr>smp_available := False, cpu_count := 1\<rparr>))\<lparr>started_count := 1, bsp_id := 0\<rparr>"

definition smp_register :: "boot_env \<Rightarrow> mp_response \<Rightarrow> u32 \<Rightarrow> 'a kernel_scheme \<Rightarrow> 'a kernel_scheme" where
  "smp_register e r i s =
     (let info = mp_cpus r ! unat i;
          s1 = on_smp (\<lambda>sm. upd_cpu i (\<lambda>c. c\<lparr>cpu_id := i, cpu_lapic_id := mi_lapic_id info,
                 cpu_state := CPU_STATE_UNUSED, is_bsp := (mi_lapic_id info = bsp_id sm)\<rparr>) sm) s
      in if is_bsp (cpus (smp s1) ! unat i)
         then klog_hex ''[SMP] BSP registered: LAPIC ID '' (ucast (cpu_lapic_id (cpus (smp s1) ! unat i))) ''\<newline>''
                (on_smp (upd_cpu i (\<lambda>c. c\<lparr>cpu_state := CPU_STATE_RUNNING, gs_base := cpu_ptr e i\<rparr>)) s1)
         else klog_hex ''[SMP] AP registered: LAPIC ID '' (ucast (cpu_lapic_id (cpus (smp s1) ! unat i))) ''\<newline>'' s1)"

definition smp_init :: "boot_env \<Rightarrow> mp_response option \<Rightarrow> 'a kernel_scheme \<Rightarrow> 'a kernel_scheme" where
  "smp_init e limine_mp_response s =
     (let s1 = (klog ''[SMP] Initializing SMP...\<newline>'' s)\<lparr>mp := limine_mp_response\<rparr>
      in case limine_mp_response of
           None \<Rightarrow> on_smp (smp_single e) (klog ''[SMP] No MP response from bootloader\<newline>'' s1)
         | Some r \<Rightarrow>
             let s2 = on_smp (\<lambda>sm. sm\<lparr>cpu_count := of_nat (length (mp_cpus r)), bsp_id := mp_bsp_lapic_id r,
                        smp_available := True, started_count := 1\<rparr>) s1;
                 s3 = klog_num ''[SMP] Found '' 10 (ucast (cpu_count (smp s2))) '' CPUs\<newline>'' s2;
                 s4 = klog_hex ''[SMP] BSP: LAPIC ID '' (ucast (bsp_id (smp s3))) ''\<newline>'' s3
             in klog ''[SMP] SMP initialization complete\<newline>''
                  (for_up 0 (min (cpu_count (smp s4)) MAX_CPUS) (smp_register e r) s4))"

section \<open>The boot processor's side\<close>

text \<open>The loop that counts the running application processors.\<close>

definition running_aps :: "smp_state \<Rightarrow> u32 option" where
  "running_aps sm =
     (if MAX_CPUS < cpu_count sm then None
      else Some (for_up 0 (cpu_count sm) (\<lambda>i n.
             if \<not> is_bsp (cpus sm ! unat i) \<and> cpu_state (cpus sm ! unat i) = CPU_STATE_RUNNING then n + 1 else n) 0))"

definition smp_release :: "boot_env \<Rightarrow> u64 \<Rightarrow> 'a kernel_scheme \<Rightarrow> 'a kernel_scheme" where
  "smp_release e i s =
     (case mp s of
        None \<Rightarrow> s
      | Some r \<Rightarrow>
          let info = mp_cpus r ! unat i
          in if mi_lapic_id info = bsp_id (smp s) then s
             else if goto_address info \<noteq> 0
             then klog_hex ''[SMP] CPU '' (ucast (mi_lapic_id info)) '' already has goto_address set, skipping\<newline>'' s
             else klog_hex ''[SMP] Set entry point for LAPIC ID: '' (ucast (mi_lapic_id info)) ''\<newline>''
                    (s\<lparr>mp := Some (r\<lparr>mp_cpus := (mp_cpus r)[unat i := info\<lparr>goto_address := ap_entry_addr e\<rparr>]\<rparr>)\<rparr>))"

definition SMP_TIMEOUT :: nat where "SMP_TIMEOUT = 5000000"

text \<open>\<open>aps k\<close> is what the other processors do during the k-th round of the wait.\<close>

function smp_wait :: "(nat \<Rightarrow> 'a kernel_scheme \<Rightarrow> 'a kernel_scheme) \<Rightarrow> nat \<Rightarrow> 'a kernel_scheme \<Rightarrow> 'a kernel_scheme option" where
  "smp_wait aps timeout s =
     (if timeout < SMP_TIMEOUT
      then case running_aps (smp s) of
             None \<Rightarrow> None
           | Some n \<Rightarrow>
               if n \<ge> cpu_count (smp s) - 1 then Some s
               else let s1 = aps timeout s
                    in smp_wait aps (Suc timeout)
                         (if timeout mod 100000 = 0
                          then klog_num ''[SMP] Still waiting for APs... '' 10 (of_nat (timeout div 100000)) '' cycles\<newline>'' s1
                          else s1)
      else Some s)"
  by pat_completeness auto
termination
  by (relation "measure (\<lambda>(aps, timeout, s). SMP_TIMEOUT - timeout)") auto

declare smp_wait.simps [simp del]

definition smp_start_aps ::
  "boot_env \<Rightarrow> (nat \<Rightarrow> 'a kernel_scheme \<Rightarrow> 'a kernel_scheme) \<Rightarrow> 'a kernel_scheme \<Rightarrow> 'a kernel_scheme option" where
  "smp_start_aps e aps s =
     (if \<not> smp_available (smp s) \<or> mp s = None
      then Some (klog ''[SMP] SMP not available or no MP response\<newline>'' s)
      else if cpu_count (smp s) \<le> 1
      then Some (klog ''[SMP] Only one CPU, no APs to start\<newline>'' s)
      else let s1 = klog ''[SMP] Starting APs via Limine MP...\<newline>'' s;
               s2 = for_up 0 (of_nat (length (mp_cpus (the (mp s1))))) (smp_release e) s1;
               s3 = klog ''[SMP] Waiting for APs to start...\<newline>'' s2
           in case smp_wait aps 0 s3 of
                None \<Rightarrow> None
              | Some s4 \<Rightarrow>
                  (case running_aps (smp s4) of
                     None \<Rightarrow> None
                   | Some n \<Rightarrow>
                       let s5 = klog_num '''' 10 (ucast (cpu_count (smp s4) - 1)) '' APs running\<newline>''
                                  (klog_num ''[SMP] AP startup completed: '' 10 (ucast n) ''/'' s4)
                       in Some (on_smp (\<lambda>sm. sm\<lparr>started_count := 1 + n\<rparr>) s5)))"

section \<open>The application processor's side\<close>

function find_cpu :: "u32 \<Rightarrow> u32 \<Rightarrow> smp_state \<Rightarrow> u32 option option" where
  "find_cpu lapic_id i sm =
     (if i < cpu_count sm
      then if MAX_CPUS \<le> i then None
           else if cpu_lapic_id (cpus sm ! unat i) = lapic_id then Some (Some i)
           else find_cpu lapic_id (i + 1) sm
      else Some None)"
  by pat_completeness auto
termination
  by (relation "measure (\<lambda>(lapic_id, i, sm). unat (cpu_count sm) - unat i)")
    (auto simp: unat_Suc_of_less word_less_nat_alt)

declare find_cpu.simps [simp del]

definition ap_failed :: "u32 \<Rightarrow> smp_state \<Rightarrow> smp_state" where
  "ap_failed i = upd_cpu i (\<lambda>c. c\<lparr>cpu_state := CPU_STATE_HALTED\<rparr>)"

definition ap_stack :: "u32 \<Rightarrow> u64 \<Rightarrow> smp_state \<Rightarrow> smp_state" where
  "ap_stack i page = upd_cpu i (\<lambda>c. c\<lparr>kernel_stack := page + 0x1000 - 16\<rparr>)"

definition ap_gs :: "boot_env \<Rightarrow> u32 \<Rightarrow> smp_state \<Rightarrow> smp_state" where
  "ap_gs e i = upd_cpu i (\<lambda>c. c\<lparr>gs_base := cpu_ptr e i\<rparr>)"

definition ap_running :: "u32 \<Rightarrow> smp_state \<Rightarrow> smp_state" where
  "ap_running i = upd_cpu i (\<lambda>c. c\<lparr>cpu_state := CPU_STATE_RUNNING\<rparr>)"

definition ap_count :: "smp_state \<Rightarrow> smp_state" where
  "ap_count sm = sm\<lparr>started_count := started_count sm + 1\<rparr>"

text \<open>Ends in the halt loop, or returns to the boot loader; both are the final state.\<close>

definition ap_entry :: "boot_env \<Rightarrow> u32 \<Rightarrow> 'a kernel_scheme \<Rightarrow> 'a kernel_scheme option" where
  "ap_entry e lapic_id s =
     (let s1 = klog_hex ''[SMP] AP entry for LAPIC ID '' (ucast lapic_id) ''\<newline>'' s
      in case find_cpu lapic_id 0 (smp s1) of
           None \<Rightarrow> None
         | Some None \<Rightarrow> Some (klog_hex ''[SMP] ERROR: No CPU info found for LAPIC ID '' (ucast lapic_id) ''\<newline>'' s1)
         | Some (Some i) \<Rightarrow>
             let (page, s2) = pmm_alloc_page s1
             in if page = 0
                then Some (on_smp (ap_failed i) (klog ''[SMP] ERROR: Failed to allocate stack for AP\<newline>'' s2))
                else let s3 = on_smp (ap_stack i page) s2;
                         (_, s4) = paging_map_page (kernel_stack (cpus (smp s3) ! unat i) AND PAGE_MASK) page
                                     (PAGING_PRESENT OR PAGING_WRITABLE) s3;
                         s5 = on_smp (ap_gs e i) s4;
                         s6 = s5\<lparr>gs_base_msr := gs_base (cpus (smp s5) ! unat i)\<rparr>;
                         s7 = idt_load (gdt_load s6);
                         s8 = (if apic_on (apic s7)
                               then let (siv, t) = lapic_read (dev e) LAPIC_SIV_REG s7
                                    in lapic_write LAPIC_TASK_PRIO_REG 0 (lapic_write LAPIC_SIV_REG (siv OR LAPIC_SIV_ENABLE) t)
                               else s7);
                         s9 = on_smp ap_count (on_smp (ap_running i) s8)
                     in Some (klog_hex ''[SMP] AP '' (ucast lapic_id) '' started successfully\<newline>'' s9))"

section \<open>Interprocessor interrupts\<close>

partial_function (option) smp_icr_idle :: "env \<Rightarrow> 'a machine_scheme \<Rightarrow> 'a machine_scheme option" where
  "smp_icr_idle e s =
     (let (v, s1) = lapic_read e LAPIC_ICR2_REG s
      in if v AND push_bit 12 1 \<noteq> 0 then smp_icr_idle e s1 else Some s1)"

definition smp_send :: "env \<Rightarrow> u32 \<Rightarrow> u32 \<Rightarrow> 'a machine_scheme \<Rightarrow> 'a machine_scheme option" where
  "smp_send e icr1 icr2 s =
     (if \<not> apic_on (apic s) then Some s
      else smp_icr_idle e (lapic_write LAPIC_ICR2_REG icr2 (lapic_write LAPIC_ICR1_REG icr1 s)))"

definition smp_send_init :: "env \<Rightarrow> u32 \<Rightarrow> 'a machine_scheme \<Rightarrow> 'a machine_scheme option" where
  "smp_send_init e lapic_id = smp_send e (push_bit 24 lapic_id) 0x00004500"

definition smp_send_startup :: "env \<Rightarrow> u32 \<Rightarrow> u8 \<Rightarrow> 'a machine_scheme \<Rightarrow> 'a machine_scheme option" where
  "smp_send_startup e lapic_id vec = smp_send e (push_bit 24 lapic_id) (0x00004600 OR ucast vec)"

definition smp_send_ipi :: "env \<Rightarrow> u32 \<Rightarrow> u8 \<Rightarrow> 'a machine_scheme \<Rightarrow> 'a machine_scheme option" where
  "smp_send_ipi e lapic_id vec = smp_send e (push_bit 24 lapic_id) (0x00004000 OR ucast vec)"

definition smp_broadcast_ipi :: "env \<Rightarrow> u8 \<Rightarrow> 'a machine_scheme \<Rightarrow> 'a machine_scheme option" where
  "smp_broadcast_ipi e vec = smp_send e (push_bit 24 0xFF) (0x00004000 OR ucast vec)"

section \<open>Queries\<close>

definition smp_get_cpu_count :: "'a kernel_scheme \<Rightarrow> u32" where
  "smp_get_cpu_count s = cpu_count (smp s)"

definition smp_is_bsp :: "env \<Rightarrow> 'a kernel_scheme \<Rightarrow> bool \<times> 'a kernel_scheme" where
  "smp_is_bsp e s =
     (if cpu_count (smp s) = 0 then (True, s)
      else if apic_on (apic s)
      then let (v, s1) = lapic_read e LAPIC_ID_REG s in (drop_bit 24 v = bsp_id (smp s1), s1)
      else (True, s))"

text \<open>\<open>rdmsr\<close> returns the low half in EAX; the high half, in EDX, is only declared as overwritten.\<close>

definition smp_get_current_cpu :: "boot_env \<Rightarrow> 'a kernel_scheme \<Rightarrow> u64 \<times> 'a kernel_scheme" where
  "smp_get_current_cpu e s =
     (let (bsp, s1) = smp_is_bsp (dev e) s
      in if bsp then (cpu_ptr e 0, s1) else (gs_base_msr s1 AND 0xFFFFFFFF, s1))"

definition smp_get_cpu_info :: "boot_env \<Rightarrow> u32 \<Rightarrow> 'a kernel_scheme \<Rightarrow> u64" where
  "smp_get_cpu_info e i s = (if i \<ge> cpu_count (smp s) then 0 else cpu_ptr e i)"

end
