(* ===== verification/C_Layout.thy ===== *)
theory C_Layout
  imports Acpi Smp Entry_Stubs
begin

text \<open>
  The layout of C structures, packed and not, as the ABI of the compiler defines it: a scalar is
  aligned to its size, a field starts at the next multiple of its type's alignment, a packed
  structure has no gaps, and the size of a structure is a multiple of its alignment. The structures of
  the headers are written down with their fields, and the offsets and sizes at which the other
  theories access memory are shown to be the ones computed from them.
\<close>

section \<open>Sizes, alignments and offsets\<close>

datatype ctype = Scalar nat | Array nat ctype | Struct bool "(string \<times> ctype) list"

definition round_up :: "nat \<Rightarrow> nat \<Rightarrow> nat" where
  "round_up n a = (n + a - 1) div a * a"

fun c_align :: "ctype \<Rightarrow> nat" and fields_align :: "(string \<times> ctype) list \<Rightarrow> nat" where
  "c_align (Scalar n) = n"
| "c_align (Array k t) = c_align t"
| "c_align (Struct packed fs) = (if packed then 1 else fields_align fs)"
| "fields_align [] = 1"
| "fields_align ((x, t) # fs) = max (c_align t) (fields_align fs)"

definition field_start :: "bool \<Rightarrow> nat \<Rightarrow> ctype \<Rightarrow> nat" where
  "field_start packed off t = (if packed then off else round_up off (c_align t))"

fun c_size :: "ctype \<Rightarrow> nat" and fields_end :: "bool \<Rightarrow> nat \<Rightarrow> (string \<times> ctype) list \<Rightarrow> nat" where
  "c_size (Scalar n) = n"
| "c_size (Array k t) = k * c_size t"
| "c_size (Struct packed fs) = round_up (fields_end packed 0 fs) (c_align (Struct packed fs))"
| "fields_end packed off [] = off"
| "fields_end packed off ((x, t) # fs) = fields_end packed (field_start packed off t + c_size t) fs"

fun field_at :: "bool \<Rightarrow> nat \<Rightarrow> (string \<times> ctype) list \<Rightarrow> string \<Rightarrow> (nat \<times> ctype) option" where
  "field_at packed off [] x = None"
| "field_at packed off ((y, t) # fs) x =
     (if x = y then Some (field_start packed off t, t)
      else field_at packed (field_start packed off t + c_size t) fs x)"

fun offset_of :: "ctype \<Rightarrow> string list \<Rightarrow> nat option" where
  "offset_of t [] = Some 0"
| "offset_of (Struct packed fs) (x # xs) =
     (case field_at packed 0 fs x of None \<Rightarrow> None | Some (off, t) \<Rightarrow> map_option ((+) off) (offset_of t xs))"
| "offset_of t (x # xs) = None"

text \<open>As an offset to add to an address.\<close>

definition at_field :: "ctype \<Rightarrow> string list \<Rightarrow> u64" where
  "at_field t path = of_nat (the (offset_of t path))"

definition sizeof :: "ctype \<Rightarrow> u64" where
  "sizeof t = of_nat (c_size t)"

section \<open>Fields lie side by side\<close>

fun c_wf :: "ctype \<Rightarrow> bool" and fields_wf :: "(string \<times> ctype) list \<Rightarrow> bool" where
  "c_wf (Scalar n) \<longleftrightarrow> 0 < n"
| "c_wf (Array k t) \<longleftrightarrow> c_wf t"
| "c_wf (Struct packed fs) \<longleftrightarrow> fields_wf fs"
| "fields_wf [] \<longleftrightarrow> True"
| "fields_wf ((x, t) # fs) \<longleftrightarrow> c_wf t \<and> fields_wf fs"

lemma align_pos: "c_wf t \<Longrightarrow> 0 < c_align t" "fields_wf fs \<Longrightarrow> 0 < fields_align fs"
  by (induction t and fs rule: c_wf_fields_wf.induct) auto

lemma round_up_ge: "0 < a \<Longrightarrow> n \<le> round_up n a"
proof -
  assume a: "0 < a"
  have "(n + a - 1) div a * a + (n + a - 1) mod a = n + a - 1" by simp
  moreover have "(n + a - 1) mod a < a" using a by simp
  ultimately show ?thesis unfolding round_up_def by linarith
qed

lemma round_up_dvd [simp]: "a dvd round_up n a"
  by (simp add: round_up_def)

lemma field_start_ge: "c_wf t \<Longrightarrow> off \<le> field_start packed off t"
  by (simp add: field_start_def round_up_ge align_pos)

lemma fields_end_ge: "fields_wf fs \<Longrightarrow> off \<le> fields_end packed off fs"
proof (induction fs arbitrary: off)
  case (Cons f fs)
  obtain x t where f: "f = (x, t)" by (cases f)
  have "off \<le> field_start packed off t + c_size t" using Cons.prems field_start_ge [of t off packed] by (simp add: f)
  also have "\<dots> \<le> fields_end packed (field_start packed off t + c_size t) fs" using Cons.prems by (intro Cons.IH) (simp add: f)
  finally show ?case by (simp add: f)
qed simp

lemma field_at_bounds:
  "fields_wf fs \<Longrightarrow> field_at packed off fs x = Some (k, t)
    \<Longrightarrow> off \<le> k \<and> k + c_size t \<le> fields_end packed off fs \<and> (\<not> packed \<longrightarrow> c_align t dvd k)"
proof (induction packed off fs x rule: field_at.induct)
  case (2 packed off y u fs x)
  note ge = field_start_ge [of u off packed]
  show ?case
  proof (cases "x = y")
    case True
    then have k: "k = field_start packed off u" "t = u" using 2(3) by auto
    have "field_start packed off u + c_size u \<le> fields_end packed (field_start packed off u + c_size u) fs"
      using 2(2) by (intro fields_end_ge) simp
    then show ?thesis unfolding k using 2(2) ge by (auto simp: field_start_def)
  next
    case False
    then show ?thesis using 2 ge by fastforce
  qed
qed simp

lemma field_at_apart:
  "fields_wf fs \<Longrightarrow> field_at packed off fs x = Some (j, t) \<Longrightarrow> field_at packed off fs y = Some (k, u) \<Longrightarrow> x \<noteq> y
    \<Longrightarrow> j + c_size t \<le> k \<or> k + c_size u \<le> j"
proof (induction packed off fs x rule: field_at.induct)
  case (2 packed off z w fs x)
  let ?n = "field_start packed off w + c_size w"
  consider "x = z" | "y = z" | "x \<noteq> z" "y \<noteq> z" by blast
  then show ?case
  proof cases
    case 1
    then have "j + c_size t = ?n" "field_at packed ?n fs y = Some (k, u)" using 2 by auto
    then show ?thesis using 2(2) field_at_bounds [of fs packed ?n y k u] by simp
  next
    case 2
    then have "k + c_size u = ?n" "field_at packed ?n fs x = Some (j, t)"
      using "2.prems" by auto
    then show ?thesis using "2.prems"(1) field_at_bounds [of fs packed ?n x j t] by simp
  next
    case 3
    then show ?thesis using 2 by simp
  qed
qed simp

section \<open>The structures of the headers\<close>

text \<open>Pointers, \<open>size_t\<close> and \<open>uint64_t\<close> have eight bytes, \<open>int\<close> and \<open>uint32_t\<close> four, \<open>bool\<close> and \<open>char\<close> one.\<close>

abbreviation U8 :: ctype where "U8 \<equiv> Scalar 1"
abbreviation U16 :: ctype where "U16 \<equiv> Scalar 2"
abbreviation U32 :: ctype where "U32 \<equiv> Scalar 4"
abbreviation U64 :: ctype where "U64 \<equiv> Scalar 8"

definition acpi_rsdp_struct :: ctype where
  "acpi_rsdp_struct = Struct True
     [(''signature'', Array 8 U8), (''checksum'', U8), (''oem_id'', Array 6 U8), (''revision'', U8),
      (''rsdt_address'', U32), (''length'', U32), (''xsdt_address'', U64), (''extended_checksum'', U8),
      (''reserved'', Array 3 U8)]"

definition acpi_sdt_header_struct :: ctype where
  "acpi_sdt_header_struct = Struct True
     [(''signature'', Array 4 U8), (''length'', U32), (''revision'', U8), (''checksum'', U8),
      (''oem_id'', Array 6 U8), (''oem_table_id'', Array 8 U8), (''oem_revision'', U32), (''creator_id'', U32),
      (''creator_revision'', U32)]"

definition acpi_rsdt_struct :: ctype where
  "acpi_rsdt_struct = Struct True
     [(''header'', acpi_sdt_header_struct), (''tables'', Array 0 U32)]"

definition acpi_xsdt_struct :: ctype where
  "acpi_xsdt_struct = Struct True
     [(''header'', acpi_sdt_header_struct), (''tables'', Array 0 U64)]"

definition acpi_madt_struct :: ctype where
  "acpi_madt_struct = Struct True
     [(''header'', acpi_sdt_header_struct), (''local_apic_addr'', U32), (''flags'', U32)]"

definition madt_entry_header_struct :: ctype where
  "madt_entry_header_struct = Struct True
     [(''type'', U8), (''length'', U8)]"

definition madt_lapic_struct :: ctype where
  "madt_lapic_struct = Struct True
     [(''header'', madt_entry_header_struct), (''processor_id'', U8), (''apic_id'', U8), (''flags'', U32)]"

definition madt_ioapic_struct :: ctype where
  "madt_ioapic_struct = Struct True
     [(''header'', madt_entry_header_struct), (''ioapic_id'', U8), (''reserved'', U8), (''ioapic_addr'', U32),
      (''gsi_base'', U32)]"

definition madt_iso_struct :: ctype where
  "madt_iso_struct = Struct True
     [(''header'', madt_entry_header_struct), (''bus_source'', U8), (''irq_source'', U8), (''gsi'', U32),
      (''flags'', U16)]"

definition madt_nmi_struct :: ctype where
  "madt_nmi_struct = Struct True
     [(''header'', madt_entry_header_struct), (''processor_id'', U8), (''flags'', U16), (''lint'', U8)]"

text \<open>The anonymous structures in \<open>acpi_fadt\<close> and \<open>acpi_hpet\<close> are not packed themselves.\<close>

definition address_struct :: ctype where
  "address_struct = Struct False
     [(''address'', U64), (''address_space_id'', U8), (''register_bit_width'', U8), (''register_bit_offset'', U8),
      (''access_size'', U8), (''address64'', U64)]"

definition acpi_fadt_struct :: ctype where
  "acpi_fadt_struct = Struct True
     [(''header'', acpi_sdt_header_struct), (''firmware_ctrl'', U32), (''dsdt'', U32), (''reserved'', U8),
      (''preferred_pm_profile'', U8), (''sci_int'', U16), (''smi_cmd'', U32), (''acpi_enable'', U8),
      (''acpi_disable'', U8), (''s4bios_req'', U8), (''pstate_cnt'', U8), (''pm1a_evt_blk'', U32),
      (''pm1b_evt_blk'', U32), (''pm1a_cnt_blk'', U32), (''pm1b_cnt_blk'', U32), (''pm2_cnt_blk'', U32),
      (''pm_tmr_blk'', U32), (''gpe0_blk'', U32), (''gpe1_blk'', U32), (''pm1_evt_len'', U8),
      (''pm1_cnt_len'', U8), (''pm2_cnt_len'', U8), (''pm_tmr_len'', U8), (''gpe0_len'', U8), (''gpe1_len'', U8),
      (''gpe1_base'', U8), (''cst_cnt'', U8), (''p_lvl2_lat'', U16), (''p_lvl3_lat'', U16),
      (''flush_size'', U16), (''flush_stride'', U16), (''duty_offset'', U8), (''duty_width'', U8),
      (''day_alrm'', U8), (''mon_alrm'', U8), (''century'', U8), (''boot_arch_flags'', U16), (''reserved2'', U8),
      (''flags'', U32), (''reset_reg'', address_struct), (''reset_value'', U8), (''reserved3'', Array 3 U8),
      (''x_firmware_ctrl'', U64), (''x_dsdt'', U64), (''x_pm1a_evt_blk'', address_struct),
      (''x_pm1b_evt_blk'', address_struct), (''x_pm1a_cnt_blk'', address_struct),
      (''x_pm1b_cnt_blk'', address_struct), (''x_pm2_cnt_blk'', address_struct),
      (''x_pm_tmr_blk'', address_struct), (''x_gpe0_blk'', address_struct), (''x_gpe1_blk'', address_struct)]"

definition acpi_mcfg_struct :: ctype where
  "acpi_mcfg_struct = Struct True
     [(''header'', acpi_sdt_header_struct), (''reserved'', U64)]"

definition mcfg_entry_struct :: ctype where
  "mcfg_entry_struct = Struct True
     [(''base_address'', U64), (''segment_group'', U16), (''start_bus'', U8), (''end_bus'', U8),
      (''reserved'', U32)]"

definition acpi_hpet_struct :: ctype where
  "acpi_hpet_struct = Struct True
     [(''header'', acpi_sdt_header_struct), (''block_id'', U32), (''base_address'', address_struct),
      (''hpet_number'', U8), (''minimum_tick'', U16), (''page_protection'', U8)]"

definition ioapic_regs_struct :: ctype where
  "ioapic_regs_struct = Struct True
     [(''ioregsel'', U32), (''reserved'', Array 3 U32), (''iowin'', U32)]"

definition hpet_regs_struct :: ctype where
  "hpet_regs_struct = Struct True
     [(''capabilities'', U64), (''reserved'', U64), (''config'', U64), (''reserved2'', U64),
      (''main_counter'', U64), (''reserved3'', U64), (''config2'', U64), (''reserved4'', Array 5 U64),
      (''timer_config'', Array 32 U64), (''timer_comparator'', Array 32 U64), (''reserved5'', Array 416 U64)]"

definition registers_struct :: ctype where
  "registers_struct = Struct True
     [(''r15'', U64), (''r14'', U64), (''r13'', U64), (''r12'', U64), (''r11'', U64), (''r10'', U64),
      (''r9'', U64), (''r8'', U64), (''rdi'', U64), (''rsi'', U64), (''rbp'', U64), (''rbx'', U64),
      (''rdx'', U64), (''rcx'', U64), (''rax'', U64), (''int_no'', U64), (''err_code'', U64), (''rip'', U64),
      (''cs'', U64), (''rflags'', U64), (''rsp'', U64), (''ss'', U64)]"

definition idt_entry_struct :: ctype where
  "idt_entry_struct = Struct True
     [(''base_low'', U16), (''selector'', U16), (''ist'', U8), (''type_attr'', U8), (''base_middle'', U16),
      (''base_high'', U32), (''zero'', U32)]"

definition idt_ptr_struct :: ctype where
  "idt_ptr_struct = Struct True
     [(''limit'', U16), (''base'', U64)]"

definition gdt_entry_struct :: ctype where
  "gdt_entry_struct = Struct True
     [(''limit_low'', U16), (''base_low'', U16), (''base_middle'', U8), (''access'', U8), (''granularity'', U8),
      (''base_high'', U8)]"

definition gdt_ptr_struct :: ctype where
  "gdt_ptr_struct = Struct True
     [(''limit'', U16), (''base'', U64)]"

definition task_struct :: ctype where
  "task_struct = Struct False
     [(''r15'', U64), (''r14'', U64), (''r13'', U64), (''r12'', U64), (''r11'', U64), (''r10'', U64),
      (''r9'', U64), (''r8'', U64), (''rdi'', U64), (''rsi'', U64), (''rbp'', U64), (''rbx'', U64),
      (''rdx'', U64), (''rcx'', U64), (''rax'', U64), (''rip'', U64), (''cs'', U64), (''rflags'', U64),
      (''rsp'', U64), (''ss'', U64), (''next'', U64), (''id'', U32), (''state'', U32), (''stack_top'', U64)]"

definition heap_block_struct :: ctype where
  "heap_block_struct = Struct False
     [(''size'', U64), (''used'', U8), (''next'', U64), (''prev'', U64)]"

definition vmm_space_struct :: ctype where
  "vmm_space_struct = Struct False
     [(''pml4'', U64), (''hhdm_offset'', U64)]"

definition cpu_info_struct :: ctype where
  "cpu_info_struct = Struct True
     [(''id'', U32), (''lapic_id'', U32), (''kernel_stack'', U64), (''state'', U32), (''gs_base'', U64),
      (''is_bsp'', U8)]"

definition psf_header_struct :: ctype where
  "psf_header_struct = Struct True
     [(''magic'', U32), (''version'', U32), (''headersize'', U32), (''flags'', U32), (''numglyph'', U32),
      (''bytesperglyph'', U32), (''height'', U32), (''width'', U32)]"

section \<open>The accesses of the model\<close>

lemmas layout_at = at_field_def sizeof_def

lemma table_offsets [simp]:
  "at_field acpi_sdt_header_struct [''length''] = 4" "sizeof acpi_sdt_header_struct = 36"
  "at_field acpi_rsdt_struct [''tables''] = 36" "at_field acpi_xsdt_struct [''tables''] = 36"
  "at_field acpi_rsdp_struct [''revision''] = 15" "at_field acpi_rsdp_struct [''rsdt_address''] = 16"
  "at_field acpi_rsdp_struct [''length''] = 20" "at_field acpi_rsdp_struct [''xsdt_address''] = 24"
  "at_field acpi_fadt_struct [''smi_cmd''] = 48" "at_field acpi_fadt_struct [''acpi_enable''] = 52"
  "at_field acpi_fadt_struct [''pm1a_cnt_blk''] = 64"
  "at_field acpi_madt_struct [''header'', ''length''] = 4" "sizeof acpi_madt_struct = 44"
  "at_field madt_entry_header_struct [''type''] = 0" "at_field madt_entry_header_struct [''length''] = 1"
  "at_field madt_ioapic_struct [''ioapic_addr''] = 4" "at_field acpi_hpet_struct [''base_address'', ''address''] = 40"
  "at_field ioapic_regs_struct [''ioregsel''] = 0" "at_field ioapic_regs_struct [''iowin''] = 16"
  by code_simp+

lemma task_offsets [simp]:
  "at_field task_struct [''rip''] = 120" "at_field task_struct [''cs''] = 128" "at_field task_struct [''rflags''] = 136"
  "at_field task_struct [''rsp''] = 144" "at_field task_struct [''ss''] = 152" "at_field task_struct [''next''] = 160"
  "at_field task_struct [''id''] = 168" "at_field task_struct [''state''] = 172" "at_field task_struct [''stack_top''] = 176"
  "sizeof task_struct = 184"
  by code_simp+

lemma heap_offsets [simp]:
  "at_field heap_block_struct [''size''] = 0" "at_field heap_block_struct [''used''] = 8"
  "at_field heap_block_struct [''next''] = 16" "at_field heap_block_struct [''prev''] = 24" "sizeof heap_block_struct = 32"
  "at_field vmm_space_struct [''pml4''] = 0" "at_field vmm_space_struct [''hhdm_offset''] = 8" "sizeof vmm_space_struct = 16"
  by code_simp+

lemma cpu_offsets [simp]:
  "sizeof cpu_info_struct = 29" "sizeof idt_entry_struct = 16" "sizeof gdt_entry_struct = 8" "sizeof idt_ptr_struct = 10"
  "sizeof gdt_ptr_struct = 10" "sizeof psf_header_struct = 32"
  "at_field registers_struct [''int_no''] = 120" "at_field registers_struct [''err_code''] = 128"
  "at_field registers_struct [''rip''] = 136"
  by code_simp+

text \<open>The fields of \<open>struct registers\<close> that hold general registers, by name.\<close>

definition reg_name :: "reg \<Rightarrow> string" where
  "reg_name x = (case x of R15 \<Rightarrow> ''r15'' | R14 \<Rightarrow> ''r14'' | R13 \<Rightarrow> ''r13'' | R12 \<Rightarrow> ''r12'' | R11 \<Rightarrow> ''r11''
     | R10 \<Rightarrow> ''r10'' | R9 \<Rightarrow> ''r9'' | R8 \<Rightarrow> ''r8'' | RDI \<Rightarrow> ''rdi'' | RSI \<Rightarrow> ''rsi'' | RBP \<Rightarrow> ''rbp''
     | RBX \<Rightarrow> ''rbx'' | RDX \<Rightarrow> ''rdx'' | RCX \<Rightarrow> ''rcx'' | RAX \<Rightarrow> ''rax'')"

lemma registers_by_name:
  "registers_fields = map (\<lambda>x. (at_field registers_struct [reg_name x], x)) (map snd registers_fields)"
  "reg_slots = map (\<lambda>x. (at_field task_struct [reg_name x], x)) (map snd reg_slots)"
  by code_simp+

lemma task_init_by_name:
  "task_init t entry stack_top tid m =
     (let m1 = snd (memset t 0 (sizeof task_struct) m);
          m2 = store64 (t + at_field task_struct [''rip'']) entry m1;
          m3 = store64 (t + at_field task_struct [''rsp'']) stack_top m2;
          m4 = store64 (t + at_field task_struct [''rflags'']) 0x202 m3;
          m5 = store64 (t + at_field task_struct [''cs'']) 0x08 m4;
          m6 = store64 (t + at_field task_struct [''ss'']) 0x10 m5;
          m7 = store32 (t + at_field task_struct [''id'']) tid m6;
          m8 = store32 (t + at_field task_struct [''state'']) TASK_STATE_READY m7;
          m9 = store64 (t + at_field task_struct [''stack_top'']) stack_top m8
      in store64 (t + at_field task_struct [''next'']) 0 m9)"
  by (simp add: task_init_def TASK_SIZE_def set_task_state_def set_task_next_def)

lemma find_ioapic_by_name:
  "find_ioapic m madt_end ptr =
     (if \<not> ptr < madt_end then Some None
      else if m (ptr + at_field madt_entry_header_struct [''type'']) = MADT_ENTRY_IOAPIC then Some (Some ptr)
      else find_ioapic m madt_end (ptr + ucast (m (ptr + at_field madt_entry_header_struct [''length'']))))"
  by (subst find_ioapic.simps) simp

text \<open>
  The offsets from which \<open>switch_to_task\<close> pushes SS, RSP, RFLAGS, CS and RIP: in the structure only the
  last one is the field of that register.
\<close>

lemma switch_offsets_by_name:
  "[144, 136, 128, 152, 120] = map (\<lambda>f. at_field task_struct [f]) [''rsp'', ''rflags'', ''cs'', ''ss'', ''rip'']"
  by simp

text \<open>
  Two structures that do not describe what they stand for: the counter of the timer block is at the
  offset of HPET\_MAIN\_COUNTER, and a generic address of an ACPI table begins with four bytes of
  attributes.
\<close>

definition generic_address :: ctype where
  "generic_address = Struct True
     [(''address_space_id'', U8), (''register_bit_width'', U8), (''register_bit_offset'', U8), (''access_size'', U8),
      (''address'', U64)]"

lemma hpet_structures_misplaced:
  "at_field hpet_regs_struct [''main_counter''] = 32" "HPET_MAIN_COUNTER = 0xF0"
  "at_field address_struct [''address''] = 0" "at_field generic_address [''address''] = 4"
  by code_simp+

end
