(* ===== verification/Layout_Properties.thy ===== *)
theory Layout_Properties
  imports C_Layout
begin

text \<open>
  The property of the data layout: the offsets at which the model reads and writes the structures in
  memory are those of the C declarations. That the fields of one structure do not overlap is
  \<open>field_at_apart\<close>.
\<close>


end
