(* ===== verification/Smp_Startup.thy ===== *)
theory Smp_Startup
  imports Smp
begin

text \<open>
  The start of the processors as an interleaving. The boot processor runs \<open>smp_start_aps\<close>: it releases
  the processors one by one, polls their states, counts those that run and stores the count. Each
  released processor runs \<open>ap_entry\<close>. A step is one access to the shared \<open>smp_state\<close> by one of
  them, made of the same updates as the sequential code of \<open>Smp\<close>; the writes of a processor to its
  own stack and GS fields, which nothing else reads, are one step. The field \<open>late\<close> is auxiliary: the
  increments of \<open>started_count\<close> after the boot processor's store.
\<close>

section \<open>States and steps\<close>

datatype ap_pc = Ap_parked | Ap_found | Ap_ready | Ap_running | Ap_counted | Ap_failed

datatype bsp_pc = Releasing nat | Polling nat nat nat | Recounting nat nat | Storing nat | Finished nat

record startup =
  sm :: smp_state
  released :: "nat \<Rightarrow> bool"
  ap_at :: "nat \<Rightarrow> ap_pc"
  bsp_at :: bsp_pc
  late :: nat

definition ncpus :: "startup \<Rightarrow> nat" where
  "ncpus s = unat (cpu_count (sm s))"

definition is_ap :: "startup \<Rightarrow> nat \<Rightarrow> bool" where
  "is_ap s i \<longleftrightarrow> i < ncpus s \<and> \<not> is_bsp (cpus (sm s) ! i)"

text \<open>What the counting loops add for entry \<open>i\<close>.\<close>

definition seen_running :: "startup \<Rightarrow> nat \<Rightarrow> nat" where
  "seen_running s i =
     (if \<not> is_bsp (cpus (sm s) ! i) \<and> cpu_state (cpus (sm s) ! i) = CPU_STATE_RUNNING then 1 else 0)"

inductive smp_step :: "boot_env \<Rightarrow> startup \<Rightarrow> startup \<Rightarrow> bool" for e where
  release: "bsp_at s = Releasing i \<Longrightarrow> i < ncpus s \<Longrightarrow>
     smp_step e s (s\<lparr>released := (if is_ap s i then (released s)(i := True) else released s), bsp_at := Releasing (Suc i)\<rparr>)"
| release_end: "bsp_at s = Releasing i \<Longrightarrow> \<not> i < ncpus s \<Longrightarrow> smp_step e s (s\<lparr>bsp_at := Polling 0 0 0\<rparr>)"
| poll: "bsp_at s = Polling t i n \<Longrightarrow> i < ncpus s \<Longrightarrow>
     smp_step e s (s\<lparr>bsp_at := Polling t (Suc i) (n + seen_running s i)\<rparr>)"
| poll_end: "bsp_at s = Polling t i n \<Longrightarrow> \<not> i < ncpus s \<Longrightarrow> ncpus s - 1 \<le> n \<or> \<not> Suc t < SMP_TIMEOUT \<Longrightarrow>
     smp_step e s (s\<lparr>bsp_at := Recounting 0 0\<rparr>)"
| poll_again: "bsp_at s = Polling t i n \<Longrightarrow> \<not> i < ncpus s \<Longrightarrow> n < ncpus s - 1 \<Longrightarrow> Suc t < SMP_TIMEOUT \<Longrightarrow>
     smp_step e s (s\<lparr>bsp_at := Polling (Suc t) 0 0\<rparr>)"
| recount: "bsp_at s = Recounting i n \<Longrightarrow> i < ncpus s \<Longrightarrow>
     smp_step e s (s\<lparr>bsp_at := Recounting (Suc i) (n + seen_running s i)\<rparr>)"
| recount_end: "bsp_at s = Recounting i n \<Longrightarrow> \<not> i < ncpus s \<Longrightarrow> smp_step e s (s\<lparr>bsp_at := Storing n\<rparr>)"
| store: "bsp_at s = Storing n \<Longrightarrow>
     smp_step e s (s\<lparr>sm := (sm s)\<lparr>started_count := 1 + of_nat n\<rparr>, bsp_at := Finished n, late := 0\<rparr>)"
| ap_enter: "ap_at s i = Ap_parked \<Longrightarrow> released s i \<Longrightarrow> smp_step e s (s\<lparr>ap_at := (ap_at s)(i := Ap_found)\<rparr>)"
| ap_no_memory: "ap_at s i = Ap_found \<Longrightarrow>
     smp_step e s (s\<lparr>sm := ap_failed (of_nat i) (sm s), ap_at := (ap_at s)(i := Ap_failed)\<rparr>)"
| ap_prepare: "ap_at s i = Ap_found \<Longrightarrow>
     smp_step e s (s\<lparr>sm := ap_gs e (of_nat i) (ap_stack (of_nat i) page (sm s)), ap_at := (ap_at s)(i := Ap_ready)\<rparr>)"
| ap_mark: "ap_at s i = Ap_ready \<Longrightarrow>
     smp_step e s (s\<lparr>sm := ap_running (of_nat i) (sm s), ap_at := (ap_at s)(i := Ap_running)\<rparr>)"
| ap_add: "ap_at s i = Ap_running \<Longrightarrow>
     smp_step e s (s\<lparr>sm := ap_count (sm s), ap_at := (ap_at s)(i := Ap_counted),
       late := (case bsp_at s of Finished n \<Rightarrow> Suc (late s) | _ \<Rightarrow> late s)\<rparr>)"

text \<open>As \<open>smp_init\<close> leaves the statics, before the boot processor releases anyone.\<close>

definition startup_init :: "startup \<Rightarrow> bool" where
  "startup_init s \<longleftrightarrow> length (cpus (sm s)) = 256 \<and> ncpus s \<le> 256 \<and> started_count (sm s) = 1
     \<and> (\<forall>i. is_ap s i \<longrightarrow> cpu_state (cpus (sm s) ! i) = CPU_STATE_UNUSED)
     \<and> released s = (\<lambda>_. False) \<and> ap_at s = (\<lambda>_. Ap_parked) \<and> bsp_at s = Releasing 0 \<and> late s = 0"

inductive smp_steps :: "boot_env \<Rightarrow> startup \<Rightarrow> startup \<Rightarrow> bool" for e where
  here: "smp_steps e s s"
| more: "smp_steps e s t \<Longrightarrow> smp_step e t u \<Longrightarrow> smp_steps e s u"

definition startup_reachable :: "boot_env \<Rightarrow> startup \<Rightarrow> bool" where
  "startup_reachable e s \<longleftrightarrow> (\<exists>s0. startup_init s0 \<and> smp_steps e s0 s)"

section \<open>The invariant\<close>

definition up :: "startup \<Rightarrow> nat set" where
  "up s = {i. ap_at s i \<in> {Ap_running, Ap_counted}}"

definition counted :: "startup \<Rightarrow> nat set" where
  "counted s = {i. ap_at s i = Ap_counted}"

definition count_inv :: "startup \<Rightarrow> bool" where
  "count_inv s \<longleftrightarrow>
     (case bsp_at s of
        Recounting i n \<Rightarrow> started_count (sm s) = 1 + of_nat (card (counted s)) \<and> n \<le> card {j \<in> up s. j < i}
      | Storing n \<Rightarrow> started_count (sm s) = 1 + of_nat (card (counted s)) \<and> n \<le> card (up s)
      | Finished n \<Rightarrow> started_count (sm s) = 1 + of_nat n + of_nat (late s) \<and> n \<le> card (up s) \<and> late s \<le> card (counted s)
      | _ \<Rightarrow> started_count (sm s) = 1 + of_nat (card (counted s)))"

definition startup_inv :: "startup \<Rightarrow> bool" where
  "startup_inv s \<longleftrightarrow> length (cpus (sm s)) = 256 \<and> ncpus s \<le> 256
     \<and> (\<forall>i. released s i \<or> ap_at s i \<noteq> Ap_parked \<longrightarrow> is_ap s i)
     \<and> (\<forall>i. is_ap s i \<longrightarrow> (cpu_state (cpus (sm s) ! i) = CPU_STATE_RUNNING \<longleftrightarrow> i \<in> up s))
     \<and> count_inv s"

lemma cpu_states_distinct [simp]:
  "CPU_STATE_UNUSED \<noteq> CPU_STATE_RUNNING" "CPU_STATE_HALTED \<noteq> CPU_STATE_RUNNING"
  by (simp_all add: CPU_STATE_UNUSED_def CPU_STATE_RUNNING_def CPU_STATE_HALTED_def)

lemma startup_init_inv: "startup_init s \<Longrightarrow> startup_inv s"
  by (auto simp: startup_init_def startup_inv_def count_inv_def up_def counted_def)

text \<open>What the processors' updates do to the entries.\<close>

lemma upd_cpu_simps [simp]:
  "cpu_count (upd_cpu i f q) = cpu_count q" "started_count (upd_cpu i f q) = started_count q"
  "length (cpus (upd_cpu i f q)) = length (cpus q)"
  by (simp_all add: upd_cpu_def)

lemma upd_cpu_nth:
  assumes "j < 256" and "k < 256" and "length (cpus q) = 256"
  shows "cpus (upd_cpu (of_nat j) f q) ! k = (if k = j then f (cpus q ! j) else cpus q ! k)"
proof -
  have "unat (of_nat j :: u32) = j" using assms(1) by (simp add: unat_of_nat)
  then show ?thesis using assms by (simp add: upd_cpu_def nth_list_update)
qed

lemma ap_count_simps [simp]:
  "cpu_count (ap_count q) = cpu_count q" "cpus (ap_count q) = cpus q" "started_count (ap_count q) = started_count q + 1"
  by (simp_all add: ap_count_def)

lemma up_bound: "startup_inv s \<Longrightarrow> up s \<subseteq> {i. is_ap s i}"
  by (auto simp: startup_inv_def up_def)

lemma finite_up: "startup_inv s \<Longrightarrow> finite (up s) \<and> card (up s) \<le> 256"
proof -
  assume inv: "startup_inv s"
  have "up s \<subseteq> {..<256}" using up_bound [OF inv] inv by (auto simp: is_ap_def startup_inv_def)
  then show ?thesis using finite_subset card_mono [of "{..<256 :: nat}" "up s"] by auto
qed

lemma counted_up: "counted s \<subseteq> up s"
  by (auto simp: counted_def up_def)

section \<open>Every step keeps it\<close>

text \<open>A step of the boot processor that touches neither the statics nor the others' positions.\<close>

lemma bsp_step_inv:
  assumes inv: "startup_inv s" and t: "sm t = sm s" "ap_at t = ap_at s"
    and rel: "\<And>i. released t i \<Longrightarrow> released s i \<or> is_ap s i" and c: "count_inv t"
  shows "startup_inv t"
proof -
  have n: "ncpus t = ncpus s" by (simp add: ncpus_def t)
  have ap: "is_ap t = is_ap s" and up: "up t = up s" by (simp_all add: is_ap_def n up_def t fun_eq_iff)
  have "is_ap s i" if "released t i \<or> ap_at s i \<noteq> Ap_parked" for i using rel that inv by (auto simp: startup_inv_def)
  with inv c show ?thesis by (simp add: startup_inv_def n ap up t)
qed

text \<open>A step in which processor \<open>i\<close> writes its own entry.\<close>

lemma ap_step_inv:
  assumes inv: "startup_inv s" and i: "is_ap s i" and f: "\<And>x. is_bsp (f x) = is_bsp x"
    and t: "sm t = upd_cpu (of_nat i) f (sm s)" "ap_at t = (ap_at s)(i := pc)" "released t = released s" "bsp_at t = bsp_at s"
      "late t = late s"
    and run: "cpu_state (f (cpus (sm s) ! i)) = CPU_STATE_RUNNING \<longleftrightarrow> pc = Ap_running"
    and pc: "ap_at s i \<notin> {Ap_running, Ap_counted}" "pc \<notin> {Ap_parked, Ap_counted}"
  shows "startup_inv t"
proof -
  have len: "length (cpus (sm s)) = 256" "ncpus s \<le> 256" and ii: "i < 256"
    using inv i by (simp_all add: startup_inv_def is_ap_def)
  have nc: "ncpus t = ncpus s" by (simp add: ncpus_def t)
  have nth: "cpus (sm t) ! k = (if k = i then f (cpus (sm s) ! i) else cpus (sm s) ! k)" if "k < 256" for k
    using upd_cpu_nth [OF ii that len(1)] by (simp add: t)
  have ap: "is_ap t k = is_ap s k" for k
  proof (cases "k < ncpus s")
    case True
    then have "k < 256" using len(2) by simp
    from nth [OF this] show ?thesis by (simp add: is_ap_def nc f)
  qed (simp add: is_ap_def nc)
  have up: "up t = (if pc = Ap_running then insert i (up s) else up s)" and cn: "counted t = counted s"
    using pc by (auto simp: up_def counted_def t)
  have iu: "i \<notin> up s" using pc by (simp add: up_def)
  have "cpu_state (cpus (sm t) ! k) = CPU_STATE_RUNNING \<longleftrightarrow> k \<in> up t" if k: "is_ap t k" for k
  proof -
    have "k < 256" using k len(2) by (simp add: is_ap_def nc)
    then show ?thesis using nth [of k] inv k ap run up iu by (auto simp: startup_inv_def)
  qed
  moreover have "count_inv t"
  proof -
    note fin = finite_up [OF inv, THEN conjunct1]
    have "card (up s) \<le> card (up t)" using fin by (intro card_mono) (auto simp: up)
    moreover have "card {j \<in> up s. j < k} \<le> card {j \<in> up t. j < k}" for k using fin by (intro card_mono) (auto simp: up)
    moreover have "count_inv s" using inv by (simp add: startup_inv_def)
    ultimately show ?thesis unfolding count_inv_def cn t(4) t(5) t(1) upd_cpu_simps
      by (auto split: bsp_pc.splits intro: order_trans)
  qed
  ultimately show ?thesis using inv i pc nc ap len unfolding startup_inv_def t(1) t(2) t(3) upd_cpu_simps
    by (auto simp: ncpus_def t)
qed

lemma seen_running_card:
  assumes inv: "startup_inv s" and i: "i < ncpus s"
  shows "card {j \<in> up s. j < Suc i} = card {j \<in> up s. j < i} + seen_running s i"
proof (cases "i \<in> up s")
  case True
  then have ap: "is_ap s i" using up_bound [OF inv] by auto
  with True inv have "seen_running s i = 1" by (simp add: seen_running_def is_ap_def startup_inv_def)
  moreover have "{j \<in> up s. j < Suc i} = insert i {j \<in> up s. j < i}" using True by auto
  ultimately show ?thesis using finite_up [OF inv] by simp
next
  case False
  then have "seen_running s i = 0" using inv i by (auto simp: seen_running_def is_ap_def startup_inv_def)
  moreover have "{j \<in> up s. j < Suc i} = {j \<in> up s. j < i}" using False by (auto simp: less_Suc_eq)
  ultimately show ?thesis by simp
qed

lemma count_inv_scan:
  "count_inv s \<Longrightarrow> bsp_at s = Recounting i n \<Longrightarrow> started_count (sm s) = 1 + of_nat (card (counted s)) \<and> n \<le> card {j \<in> up s. j < i}"
  by (simp add: count_inv_def)

lemma smp_step_inv:
  assumes "smp_step e s t" and inv: "startup_inv s"
  shows "startup_inv t"
  using assms(1)
proof (cases rule: smp_step.cases)
  case (release i)
  show ?thesis by (rule bsp_step_inv [OF inv]) (use release inv in \<open>auto simp: startup_inv_def count_inv_def counted_def split: if_splits\<close>)
next
  case (release_end i)
  show ?thesis by (rule bsp_step_inv [OF inv]) (use release_end inv in \<open>auto simp: startup_inv_def count_inv_def counted_def\<close>)
next
  case (poll r i n)
  show ?thesis by (rule bsp_step_inv [OF inv]) (use poll inv in \<open>auto simp: startup_inv_def count_inv_def counted_def\<close>)
next
  case (poll_end r i n)
  show ?thesis by (rule bsp_step_inv [OF inv]) (use poll_end inv in \<open>auto simp: startup_inv_def count_inv_def counted_def\<close>)
next
  case (poll_again r i n)
  show ?thesis by (rule bsp_step_inv [OF inv]) (use poll_again inv in \<open>auto simp: startup_inv_def count_inv_def counted_def\<close>)
next
  case (recount i n)
  have "up t = up s" "counted t = counted s" using recount by (simp_all add: up_def counted_def)
  moreover note seen_running_card [OF inv recount(3)]
  moreover have "started_count (sm s) = 1 + of_nat (card (counted s)) \<and> n \<le> card {j \<in> up s. j < i}"
    using inv recount(2) by (intro count_inv_scan) (simp_all add: startup_inv_def)
  ultimately have "count_inv t" using recount by (simp add: count_inv_def)
  then show ?thesis by (intro bsp_step_inv [OF inv]) (use recount in simp_all)
next
  case (recount_end i n)
  have "n \<le> card {j \<in> up s. j < i}" "started_count (sm s) = 1 + of_nat (card (counted s))"
    using inv recount_end(2) count_inv_scan [of s i n] by (simp_all add: startup_inv_def)
  moreover have "card {j \<in> up s. j < i} \<le> card (up s)" using finite_up [OF inv] by (intro card_mono) auto
  ultimately have "count_inv t" using recount_end by (simp add: count_inv_def up_def counted_def)
  then show ?thesis by (intro bsp_step_inv [OF inv]) (use recount_end in simp_all)
next
  case (store n)
  then have "n \<le> card (up s)" using inv by (simp add: startup_inv_def count_inv_def)
  then show ?thesis using inv store
    by (simp add: startup_inv_def count_inv_def up_def counted_def is_ap_def ncpus_def)
next
  case (ap_enter i)
  then have up: "up t = up s" "counted t = counted s" by (auto simp: up_def counted_def)
  have "is_ap s i" using inv ap_enter by (simp add: startup_inv_def)
  moreover have ap: "is_ap t = is_ap s" using ap_enter by (simp add: is_ap_def ncpus_def fun_eq_iff)
  moreover have "sm t = sm s" "late t = late s" "bsp_at t = bsp_at s" using ap_enter by simp_all
  then have "count_inv t = count_inv s" unfolding count_inv_def up by (simp only:)
  then have "count_inv t" using inv by (simp add: startup_inv_def)
  ultimately show ?thesis using inv ap_enter(1) unfolding startup_inv_def up ap by (auto simp: ncpus_def)
next
  case (ap_no_memory i)
  have "is_ap s i" using inv ap_no_memory by (simp add: startup_inv_def)
  then show ?thesis
    by (rule ap_step_inv [OF inv, where pc = Ap_failed and f = "\<lambda>c. c\<lparr>cpu_state := CPU_STATE_HALTED\<rparr>"]) (use ap_no_memory in \<open>simp_all add: ap_failed_def\<close>)
next
  case (ap_prepare i page)
  have ap: "is_ap s i" using inv ap_prepare by (simp add: startup_inv_def)
  let ?f = "\<lambda>c. c\<lparr>kernel_stack := page + 0x1000 - 16, gs_base := cpu_ptr e (of_nat i)\<rparr>"
  have ii: "i < 256" and len: "length (cpus (sm s)) = 256" using inv ap by (simp_all add: startup_inv_def is_ap_def)
  have u: "unat (of_nat i :: u32) = i" using ii by (simp add: unat_of_nat)
  have eq: "ap_gs e (of_nat i) (ap_stack (of_nat i) page (sm s)) = upd_cpu (of_nat i) ?f (sm s)"
    using ii len by (simp add: ap_gs_def ap_stack_def upd_cpu_def u)
  have "cpu_state (cpus (sm s) ! i) \<noteq> CPU_STATE_RUNNING" using inv ap ap_prepare by (simp add: startup_inv_def up_def)
  then have run: "cpu_state (?f (cpus (sm s) ! i)) = CPU_STATE_RUNNING \<longleftrightarrow> Ap_ready = Ap_running" by simp
  have t: "sm t = upd_cpu (of_nat i) ?f (sm s)" "ap_at t = (ap_at s)(i := Ap_ready)" "released t = released s"
    "bsp_at t = bsp_at s" "late t = late s"
    using ap_prepare(1) eq by simp_all
  show ?thesis by (rule ap_step_inv [OF inv ap _ t run]) (use ap_prepare(2) in simp_all)
next
  case (ap_mark i)
  have "is_ap s i" using inv ap_mark by (simp add: startup_inv_def)
  then show ?thesis
    by (rule ap_step_inv [OF inv, where pc = Ap_running and f = "\<lambda>c. c\<lparr>cpu_state := CPU_STATE_RUNNING\<rparr>"]) (use ap_mark in \<open>simp_all add: ap_running_def\<close>)
next
  case (ap_add i)
  have up: "up t = up s" and cn: "counted t = insert i (counted s)" and i: "i \<notin> counted s" "i \<in> up s"
    using ap_add by (auto simp: up_def counted_def)
  have "finite (counted s)" using finite_up [OF inv] counted_up finite_subset by blast
  then have card: "card (counted t) = Suc (card (counted s))" using i cn by simp
  have ap: "is_ap t = is_ap s" and sm: "cpus (sm t) = cpus (sm s)" "ncpus t = ncpus s"
    using ap_add by (simp_all add: is_ap_def ncpus_def fun_eq_iff)
  have iap: "is_ap s i" using inv ap_add by (simp add: startup_inv_def)
  have "count_inv t" using inv ap_add(1) unfolding count_inv_def up card
    by (auto simp: startup_inv_def count_inv_def split: bsp_pc.splits)
  then show ?thesis using inv ap_add(1) iap unfolding startup_inv_def up ap sm by auto
qed

lemma smp_steps_inv: "smp_steps e s t \<Longrightarrow> startup_inv s \<Longrightarrow> startup_inv t"
  by (induction rule: smp_steps.induct) (auto intro: smp_step_inv)

lemma startup_reachable_inv: "startup_reachable e s \<Longrightarrow> startup_inv s"
  by (auto simp: startup_reachable_def intro: smp_steps_inv startup_init_inv)

section \<open>A settled recount\<close>

text \<open>Once every released processor has counted itself or failed, only the boot processor moves.\<close>

definition settled :: "startup \<Rightarrow> bool" where
  "settled s \<longleftrightarrow> (\<forall>i. is_ap s i \<longrightarrow> ap_at s i \<in> {Ap_counted, Ap_failed})"

definition exact_inv :: "startup \<Rightarrow> bool" where
  "exact_inv s \<longleftrightarrow> startup_inv s \<and> settled s \<and>
     (case bsp_at s of
        Recounting i n \<Rightarrow> n = card {j \<in> up s. j < i}
      | Storing n \<Rightarrow> n = card (up s)
      | Finished n \<Rightarrow> n = card (up s) \<and> late s = 0
      | _ \<Rightarrow> False)"

lemma settled_position: "startup_inv s \<Longrightarrow> settled s \<Longrightarrow> ap_at s i \<in> {Ap_parked, Ap_counted, Ap_failed}"
  by (auto simp: settled_def startup_inv_def)

lemma settled_up:
  assumes "startup_inv s" and "settled s"
  shows "up s = counted s"
proof -
  have "ap_at s i \<noteq> Ap_running" for i using settled_position [OF assms, of i] by auto
  then show ?thesis by (auto simp: up_def counted_def)
qed

lemma exact_step:
  assumes "smp_step e s t" and ex: "exact_inv s"
  shows "exact_inv t"
proof -
  have inv: "startup_inv s" and set: "settled s" using ex by (simp_all add: exact_inv_def)
  have inv': "startup_inv t" by (rule smp_step_inv [OF assms(1) inv])
  note pos = settled_position [OF inv set]
  have no: "ap_at s i \<noteq> Ap_found" "ap_at s i \<noteq> Ap_ready" "ap_at s i \<noteq> Ap_running" for i using pos [of i] by auto
  show ?thesis using assms(1)
  proof (cases rule: smp_step.cases)
    case (recount i n)
    have "up t = up s" using recount by (simp add: up_def)
    with seen_running_card [OF inv recount(3)] inv' set recount ex show ?thesis
      by (simp add: exact_inv_def settled_def is_ap_def ncpus_def)
  next
    case (recount_end i n)
    have "{j \<in> up s. j < i} = up s" using up_bound [OF inv] recount_end(3) by (auto simp: is_ap_def)
    moreover have "up t = up s" using recount_end by (simp add: up_def)
    ultimately show ?thesis using inv' set recount_end ex
      by (simp add: exact_inv_def settled_def is_ap_def ncpus_def)
  next
    case (store n)
    have "up t = up s" using store by (simp add: up_def)
    then show ?thesis using inv' set store ex by (simp add: exact_inv_def settled_def is_ap_def ncpus_def)
  next
    case (ap_enter i)
    have "is_ap s i" using inv ap_enter by (simp add: startup_inv_def)
    with set ap_enter show ?thesis by (auto simp: settled_def)
  qed (use no ex in \<open>simp_all add: exact_inv_def\<close>)
qed

lemma exact_steps: "smp_steps e s t \<Longrightarrow> exact_inv s \<Longrightarrow> exact_inv t"
  by (induction rule: smp_steps.induct) (auto intro: exact_step)

end
