(* ===== verification/Smp_Lemmas.thy ===== *)
theory Smp_Lemmas
  imports Smp_Startup
begin

text \<open>
  What \<open>smp_init\<close> leaves in the table of processors, which is where the interleaving of
  \<open>Smp_Startup\<close> starts, and what the two queries for the current processor answer.
\<close>

lemma smp_klog [simp]:
  "smp (klog m s) = smp s" "smp (klog_num a b v c s) = smp s" "smp (klog_hex a v c s) = smp s"
  "smp (s\<lparr>mp := r\<rparr>) = smp s" "smp (on_smp f s) = f (smp s)"
  by (simp_all add: klog_def klog_num_def klog_hex_def on_smp_def)

definition reg_entry :: "boot_env \<Rightarrow> mp_response \<Rightarrow> u32 \<Rightarrow> u32 \<Rightarrow> cpu_info \<Rightarrow> cpu_info" where
  "reg_entry e r bsp i c =
     (let l = mi_lapic_id (mp_cpus r ! unat i)
      in c\<lparr>cpu_id := i, cpu_lapic_id := l,
           cpu_state := (if l = bsp then CPU_STATE_RUNNING else CPU_STATE_UNUSED), is_bsp := (l = bsp),
           gs_base := (if l = bsp then cpu_ptr e i else gs_base c)\<rparr>)"

lemma bsp_state_commute: "c\<lparr>is_bsp := b, cpu_state := x\<rparr> = c\<lparr>cpu_state := x, is_bsp := b\<rparr>"
  by (cases c) simp

lemma register_smp:
  assumes "unat i < length (cpus (smp s))"
  shows "smp (smp_register e r i s) = upd_cpu i (reg_entry e r (bsp_id (smp s)) i) (smp s)"
  using assms by (simp add: smp_register_def Let_def upd_cpu_def reg_entry_def bsp_state_commute)

lemma upd_cpu_bsp_id [simp]: "bsp_id (upd_cpu i f q) = bsp_id q"
  by (simp add: upd_cpu_def)

lemma register_loop:
  fixes e :: boot_env and r :: mp_response and s :: "'a kernel_scheme"
  assumes "length (cpus (smp s)) = 256" and "unat n \<le> 256"
  defines "t \<equiv> for_up 0 n (smp_register e r) s"
  shows "length (cpus (smp t)) = 256" "cpu_count (smp t) = cpu_count (smp s)" "started_count (smp t) = started_count (smp s)"
    and "j < unat n \<Longrightarrow> cpus (smp t) ! j = reg_entry e r (bsp_id (smp s)) (of_nat j) (cpus (smp s) ! j)"
proof -
  define I where "I = (\<lambda>k t :: 'a kernel_scheme. length (cpus (smp t)) = 256 \<and> cpu_count (smp t) = cpu_count (smp s)
    \<and> started_count (smp t) = started_count (smp s) \<and> bsp_id (smp t) = bsp_id (smp s)
    \<and> (\<forall>j < 256. cpus (smp t) ! j =
         (if j < k then reg_entry e r (bsp_id (smp s)) (of_nat j) (cpus (smp s) ! j) else cpus (smp s) ! j)))"
  have "I (unat n) t" unfolding t_def
  proof (rule for_up_rule [where I = I])
    fix k u assume k: "k < unat n" and I: "I k u"
    have k2: "k < 256" using k assms(2) by simp
    then have uk: "unat (of_nat k :: u32) = k" by (simp add: unat_of_nat)
    have len: "length (cpus (smp u)) = 256" using I by (simp add: I_def)
    have "smp (smp_register e r (of_nat k) u) = upd_cpu (of_nat k) (reg_entry e r (bsp_id (smp u)) (of_nat k)) (smp u)"
      by (rule register_smp) (simp add: uk len k2)
    then show "I (Suc k) (smp_register e r (of_nat k) u)"
      using I k2 upd_cpu_nth [OF k2 _ len] by (auto simp: I_def less_Suc_eq)
  qed (simp_all add: I_def assms(1))
  then show "length (cpus (smp t)) = 256" "cpu_count (smp t) = cpu_count (smp s)" "started_count (smp t) = started_count (smp s)"
    "j < unat n \<Longrightarrow> cpus (smp t) ! j = reg_entry e r (bsp_id (smp s)) (of_nat j) (cpus (smp s) ! j)"
    using assms(2) by (simp_all add: I_def)
qed

lemma smp_init_table:
  fixes e :: boot_env and r :: mp_response and s :: "'a kernel_scheme"
  assumes len: "length (cpus (smp s)) = 256" and n: "length (mp_cpus r) \<le> 256"
  defines "t \<equiv> smp (smp_init e (Some r) s)"
  shows "length (cpus t) = 256" "unat (cpu_count t) = length (mp_cpus r)" "started_count t = 1"
    and "j < length (mp_cpus r) \<Longrightarrow>
      cpus t ! j = reg_entry e r (mp_bsp_lapic_id r) (of_nat j) (cpus (smp s) ! j)"
proof -
  let ?s1 = "(klog ''[SMP] Initializing SMP...\<newline>'' s)\<lparr>mp := Some r\<rparr>"
  let ?s2 = "on_smp (\<lambda>sm. sm\<lparr>cpu_count := of_nat (length (mp_cpus r)), bsp_id := mp_bsp_lapic_id r,
               smp_available := True, started_count := 1\<rparr>) ?s1"
  let ?s4 = "klog_hex ''[SMP] BSP: LAPIC ID '' (ucast (bsp_id (smp ?s2))) ''\<newline>''
               (klog_num ''[SMP] Found '' 10 (ucast (cpu_count (smp ?s2))) '' CPUs\<newline>'' ?s2)"
  have c: "unat (of_nat (length (mp_cpus r)) :: u32) = length (mp_cpus r)" using n by (simp add: unat_of_nat)
  then have "(of_nat (length (mp_cpus r)) :: u32) \<le> MAX_CPUS" using n by (simp add: word_le_nat_alt MAX_CPUS_def)
  then have min: "min (of_nat (length (mp_cpus r))) MAX_CPUS = (of_nat (length (mp_cpus r)) :: u32)" by simp
  have t: "t = smp (for_up 0 (of_nat (length (mp_cpus r))) (smp_register e r) ?s4)"
    unfolding t_def smp_init_def Let_def by (simp add: min)
  have l: "length (cpus (smp ?s4)) = 256" and le: "unat (of_nat (length (mp_cpus r)) :: u32) \<le> 256" using len n c by simp_all
  note loop = register_loop [OF l le, where e = e and r = r]
  show "length (cpus t) = 256" "unat (cpu_count t) = length (mp_cpus r)" "started_count t = 1"
    using loop(1-3) c by (simp_all add: t)
  show "cpus t ! j = reg_entry e r (mp_bsp_lapic_id r) (of_nat j) (cpus (smp s) ! j)" if "j < length (mp_cpus r)"
    using loop(4) [of j] that c by (simp add: t)
qed

text \<open>The state in which the interleaving starts.\<close>

definition parked :: "smp_state \<Rightarrow> startup" where
  "parked q = \<lparr>sm = q, released = (\<lambda>_. False), ap_at = (\<lambda>_. Ap_parked), bsp_at = Releasing 0, late = 0\<rparr>"

lemma smp_init_startup:
  assumes "length (cpus (smp s)) = 256" and "length (mp_cpus r) \<le> 256"
  shows "startup_init (parked (smp (smp_init e (Some r) s)))"
  using smp_init_table [OF assms, where e = e] assms(2)
  by (auto simp: startup_init_def parked_def ncpus_def is_ap_def reg_entry_def Let_def)

section \<open>One processor on its own\<close>

text \<open>Allocating a frame and mapping a page leave everything above the paging fields alone.\<close>

lemma paging_more_alloc [simp]: "paging.more (snd (pmm_alloc_page s)) = paging.more s"
  by simp

lemma next_table_more: "paging.more (snd (get_next_table off a i b s)) = paging.more s"
  by (simp add: get_next_table_def case_prod_unfold Let_def)

lemma map_page_more: "paging.more (snd (paging_map_page va pa fl s)) = paging.more s"
proof (cases "paging_hhdm s")
  case (Some off)
  obtain p1 s1 where 1: "get_next_table off (paging_get_cr3 s + off) (pml4_index va) True s = (p1, s1)" by fastforce
  obtain p2 s2 where 2: "get_next_table off p1 (pdp_index va) True s1 = (p2, s2)" by fastforce
  obtain p3 s3 where 3: "get_next_table off p2 (pd_index va) True s2 = (p3, s3)" by fastforce
  have "paging.more s1 = paging.more s" "paging.more s2 = paging.more s1" "paging.more s3 = paging.more s2"
    using next_table_more [of off "paging_get_cr3 s + off" "pml4_index va" True s]
      next_table_more [of off p1 "pdp_index va" True s1] next_table_more [of off p2 "pd_index va" True s2] 1 2 3 by simp_all
  then show ?thesis using Some 1 2 3 by (simp add: paging_map_page_def paging_invalidate_tlb_def Let_def)
qed (simp add: paging_map_page_def)

lemma paging_more_kernel:
  "paging.more t = paging.more s \<Longrightarrow> smp t = smp s \<and> gs_base_msr t = gs_base_msr s \<and> apic t = apic s
    \<and> gdt_ptr t = gdt_ptr s \<and> idtp t = idtp s"
  by (cases s, cases t) simp

lemma kernel_klog [simp]:
  "gs_base_msr (klog m s) = gs_base_msr s" "gs_base_msr (klog_hex a v b s) = gs_base_msr s"
  "interrupts_on (klog m s) = interrupts_on s" "interrupts_on (klog_hex a v b s) = interrupts_on s"
  "pmm_ok (klog_hex a v b s) = pmm_ok s" "taken (klog_hex a v b s) = taken s"
  by (simp_all add: klog_hex_def) (simp_all add: klog_def)

lemma lapic_kernel [simp]:
  "smp (snd (lapic_read e reg s)) = smp s" "gs_base_msr (snd (lapic_read e reg s)) = gs_base_msr s"
  "interrupts_on (snd (lapic_read e reg s)) = interrupts_on s"
  "smp (lapic_write reg v s) = smp s" "gs_base_msr (lapic_write reg v s) = gs_base_msr s"
  "interrupts_on (lapic_write reg v s) = interrupts_on s"
  by (simp_all add: lapic_read_def lapic_write_def mmio_read_def mmio_write_def Let_def)

lemma load_kernel [simp]:
  "smp (idt_load s) = smp s" "gs_base_msr (idt_load s) = gs_base_msr s" "interrupts_on (idt_load s)"
  "smp (gdt_load s) = smp s" "gs_base_msr (gdt_load s) = gs_base_msr s"
  by (simp_all add: idt_load_def idt_flush_def gdt_load_def Let_def klog_def)

lemma on_smp_kernel [simp]:
  "gs_base_msr (on_smp f s) = gs_base_msr s" "interrupts_on (on_smp f s) = interrupts_on s"
  by (simp_all add: on_smp_def)

lemma find_cpu_found:
  "find_cpu l j q = Some (Some i) \<Longrightarrow> i < cpu_count q \<and> i < MAX_CPUS \<and> cpu_lapic_id (cpus q ! unat i) = l"
proof (induction l j q rule: find_cpu.induct)
  case (1 l j q)
  then show ?case by (subst (asm) find_cpu.simps) (auto split: if_splits)
qed

lemma ap_entry_effect:
  fixes s :: "'a kernel_scheme"
  assumes ok: "pmm_ok s" and f: "f \<notin> taken s" and found: "find_cpu l 0 (smp s) = Some (Some i)"
    and len: "length (cpus (smp s)) = 256"
  obtains page t where "page \<noteq> 0" "unat page mod 4096 = 0" "unat page div 4096 \<notin> taken s"
    "ap_entry e l s = Some t" "smp t = ap_count (ap_running i (ap_gs e i (ap_stack i page (smp s))))"
    "gs_base_msr t = cpu_ptr e i" "interrupts_on t"
proof -
  let ?s1 = "klog_hex ''[SMP] AP entry for LAPIC ID '' (ucast l) ''\<newline>'' s"
  obtain page s2 where al: "pmm_alloc_page ?s1 = (page, s2)" by fastforce
  have pok: "pmm_ok ?s1" using ok by simp
  have page: "page \<noteq> 0" using alloc_page_exhausted [OF pok] al f by auto
  have new: "unat page div 4096 \<notin> taken s" "unat page mod 4096 = 0"
    using avail.alloc_new [OF pok] avail.alloc_aligned [OF pok] al page by auto
  have i: "unat i < 256" using find_cpu_found [OF found] by (simp add: MAX_CPUS_def word_less_nat_alt)
  have "paging.more s2 = paging.more ?s1" using paging_more_alloc [of ?s1] al by simp
  from paging_more_kernel [OF this] have s2: "smp s2 = smp s" by simp
  define s3 where "s3 = on_smp (ap_stack i page) s2"
  obtain b s4 where m: "paging_map_page (kernel_stack (cpus (smp s3) ! unat i) AND PAGE_MASK) page
      (PAGING_PRESENT OR PAGING_WRITABLE) s3 = (b, s4)" by fastforce
  have "paging.more s4 = paging.more s3" using map_page_more [of _ page _ s3] m by (metis snd_conv)
  from paging_more_kernel [OF this] have s4: "smp s4 = ap_stack i page (smp s)" by (simp add: s3_def s2)
  define s5 where "s5 = on_smp (ap_gs e i) s4"
  have s5: "smp s5 = ap_gs e i (ap_stack i page (smp s))" by (simp add: s5_def s4)
  have gs: "gs_base (cpus (smp s5) ! unat i) = cpu_ptr e i"
    using i len by (simp add: s5 ap_gs_def ap_stack_def upd_cpu_def)
  define s7 where "s7 = idt_load (gdt_load (s5\<lparr>gs_base_msr := gs_base (cpus (smp s5) ! unat i)\<rparr>))"
  have s7: "smp s7 = smp s5" "gs_base_msr s7 = cpu_ptr e i" "interrupts_on s7" by (simp_all add: s7_def gs)
  define s8 where "s8 = (if apic_on (apic s7)
      then let (siv, t) = lapic_read (dev e) LAPIC_SIV_REG s7
           in lapic_write LAPIC_TASK_PRIO_REG 0 (lapic_write LAPIC_SIV_REG (siv OR LAPIC_SIV_ENABLE) t)
      else s7)"
  have s8: "smp s8 = smp s5" "gs_base_msr s8 = cpu_ptr e i" "interrupts_on s8"
    using s7 by (simp_all add: s8_def case_prod_unfold Let_def)
  let ?t = "klog_hex ''[SMP] AP '' (ucast l) '' started successfully\<newline>'' (on_smp ap_count (on_smp (ap_running i) s8))"
  have "ap_entry e l s = Some ?t"
    using al page m by (simp add: ap_entry_def Let_def found s3_def s5_def s7_def s8_def)
  then show thesis using that [of page ?t] page new s8 s5 by simp
qed

text \<open>The sequential code is a run of the steps of one processor.\<close>

lemma ap_steps:
  assumes rel: "rel (unat i)" and pc: "pcs (unat i) = Ap_parked" and i: "of_nat (unat i) = i"
  shows "smp_steps e \<lparr>sm = q, released = rel, ap_at = pcs, bsp_at = b, late = k\<rparr>
    \<lparr>sm = ap_count (ap_running i (ap_gs e i (ap_stack i page q))), released = rel,
     ap_at = pcs(unat i := Ap_counted), bsp_at = b, late = (case b of Finished n \<Rightarrow> Suc k | _ \<Rightarrow> k)\<rparr>"
proof -
  let ?st = "\<lambda>q pc k. \<lparr>sm = q, released = rel, ap_at = pcs(unat i := pc), bsp_at = b, late = k\<rparr>"
  let ?q1 = "ap_gs e i (ap_stack i page q)" and ?q2 = "ap_running i (ap_gs e i (ap_stack i page q))"
  have 1: "smp_step e \<lparr>sm = q, released = rel, ap_at = pcs, bsp_at = b, late = k\<rparr> (?st q Ap_found k)"
    using smp_step.ap_enter [of "\<lparr>sm = q, released = rel, ap_at = pcs, bsp_at = b, late = k\<rparr>" "unat i" e] rel pc by simp
  have 2: "smp_step e (?st q Ap_found k) (?st ?q1 Ap_ready k)"
    using smp_step.ap_prepare [of "?st q Ap_found k" "unat i" e page] i by simp
  have 3: "smp_step e (?st ?q1 Ap_ready k) (?st ?q2 Ap_running k)"
    using smp_step.ap_mark [of "?st ?q1 Ap_ready k" "unat i" e] i by simp
  have 4: "smp_step e (?st ?q2 Ap_running k) (?st (ap_count ?q2) Ap_counted (case b of Finished n \<Rightarrow> Suc k | _ \<Rightarrow> k))"
    using smp_step.ap_add [of "?st ?q2 Ap_running k" "unat i" e] by (cases b) simp_all
  from smp_steps.more [OF smp_steps.more [OF smp_steps.more [OF smp_steps.more [OF smp_steps.here 1] 2] 3] 4]
  show ?thesis .
qed

section \<open>Interprocessor interrupts\<close>

text \<open>
  The interrupt command register of the local APIC: a write of the low half, at offset 0x300, sends an
  interrupt to the destination last written to the high half, at offset 0x310. \<open>ipis\<close> lists the
  interrupts that a sequence of writes sends, each with its destination.
\<close>

fun ipis :: "u64 \<Rightarrow> u64 \<Rightarrow> (u64 \<times> u64) list \<Rightarrow> (u64 \<times> u64) list" where
  "ipis base dest [] = []"
| "ipis base dest ((a, v) # ws) =
     (if a = base + 0x300 then (dest, v) # ipis base dest ws
      else if a = base + 0x310 then ipis base v ws else ipis base dest ws)"

text \<open>No poll of the delivery status finds it set.\<close>

definition delivers_at_once :: "env \<Rightarrow> bool" where
  "delivers_at_once e \<longleftrightarrow> (\<forall>ws n a. \<not> bit (mmio_in e ws n a) 12)"

lemma status_bit_clear:
  fixes v :: u64
  assumes "\<not> bit v 12"
  shows "(ucast v :: u32) AND 0x1000 = 0"
proof (rule bit_word_eqI)
  have b: "bit (0x1000 :: u32) n \<longleftrightarrow> n = 12" for n
    using bit_push_bit_iff [of 12 "1 :: u32" n] by (auto simp: push_bit_eq_mult bit_simps)
  show "bit ((ucast v :: u32) AND 0x1000) n = bit (0 :: u32) n" for n
    using assms by (simp only: bit_and_iff b) (auto simp: bit_simps)
qed

lemma lapic_write_step:
  "apic (lapic_write r v s) = apic s"
  "apic_on (apic s) \<Longrightarrow> lapic_base (apic s) \<noteq> 0
    \<Longrightarrow> mmio_out (lapic_write r v s) = mmio_out s @ [(lapic_base (apic s) + 4 * (ucast r div 4), ucast v)]"
  by (simp_all add: lapic_write_def lapic_reg_def mmio_write_def klog_def)

lemma send_writes:
  fixes s :: "'a machine_scheme"
  assumes "delivers_at_once e" and "apic_on (apic s)" and "lapic_base (apic s) \<noteq> 0"
  shows "\<exists>t. smp_send e a b s = Some t
      \<and> mmio_out t = mmio_out s @ [(lapic_base (apic s) + 0x300, ucast a), (lapic_base (apic s) + 0x310, ucast b)]"
    and "\<exists>t. lapic_send_ipi e b a s = Some t
      \<and> mmio_out t = mmio_out s @ [(lapic_base (apic s) + 0x300, ucast a), (lapic_base (apic s) + 0x310, ucast b)]"
proof -
  have z: "(ucast (mmio_in e ws n x) :: u32) AND 0x1000 = 0" for ws n x
    using assms(1) by (intro status_bit_clear) (simp add: delivers_at_once_def)
  have w: "apic (mmio_write x v u) = apic u" "mmio_out (mmio_write x v u) = mmio_out u @ [(x, v)]" for x v and u :: "'a machine_scheme"
    by (simp_all add: mmio_write_def)
  have poll: "\<exists>t. smp_icr_idle e u = Some t \<and> mmio_out t = mmio_out u" if "apic_on (apic u)" "lapic_base (apic u) \<noteq> 0" for u :: "'a machine_scheme"
    using that z by (subst smp_icr_idle.simps) (simp add: lapic_read_def mmio_read_def Let_def)
  show "\<exists>t. smp_send e a b s = Some t
      \<and> mmio_out t = mmio_out s @ [(lapic_base (apic s) + 0x300, ucast a), (lapic_base (apic s) + 0x310, ucast b)]"
    using poll [of "lapic_write LAPIC_ICR2_REG b (lapic_write LAPIC_ICR1_REG a s)"] assms(2,3)
    by (auto simp: smp_send_def lapic_write_step LAPIC_ICR1_REG_def LAPIC_ICR2_REG_def)
  have "icr_idle e s = Some (s\<lparr>mmio_reads := Suc (mmio_reads s)\<rparr>)"
    using z by (subst icr_idle.simps) (simp add: mmio_read_def Let_def APIC_ICR_DELIVERY_STATUS_BIT_def)
  then show "\<exists>t. lapic_send_ipi e b a s = Some t
      \<and> mmio_out t = mmio_out s @ [(lapic_base (apic s) + 0x300, ucast a), (lapic_base (apic s) + 0x310, ucast b)]"
    by (simp add: lapic_send_ipi_def mmio_write_def APIC_ICR1_def APIC_ICR2_def)
qed

text \<open>
  A routine that sends the command \<open>v\<close> and nothing else, to the destination set before it was called.
\<close>

definition sends_to_old_destination :: "('a machine_scheme \<Rightarrow> 'a machine_scheme option) \<Rightarrow> u64 \<Rightarrow> 'a machine_scheme \<Rightarrow> bool" where
  "sends_to_old_destination f v s \<longleftrightarrow> (\<exists>t new. f s = Some t \<and> mmio_out t = mmio_out s @ new
     \<and> (\<forall>d. ipis (lapic_base (apic s)) d new = [(d, v)]))"

lemma klog_chain_frame:
  "apic (klog m s) = apic s" "mmio_out (klog m s) = mmio_out s"
  "apic (klog_num a b v d s) = apic s" "mmio_out (klog_num a b v d s) = mmio_out s"
  by (simp_all add: klog_num_def klog_def)

lemma swapped_send:
  fixes s :: "'a machine_scheme"
  assumes "delivers_at_once e" and "apic_on (apic s)" and "lapic_base (apic s) \<noteq> 0"
  shows "sends_to_old_destination (smp_send e a b) (ucast a) s"
    and "apic u = apic s \<Longrightarrow> mmio_out u = mmio_out s \<Longrightarrow> sends_to_old_destination (\<lambda>_. lapic_send_ipi e b a u) (ucast a) s"
proof -
  from send_writes(1) [OF assms, of a b] show "sends_to_old_destination (smp_send e a b) (ucast a) s"
    by (auto simp: sends_to_old_destination_def)
  assume u: "apic u = apic s" "mmio_out u = mmio_out s"
  with send_writes(2) [OF assms(1), of u b a] assms(2,3)
  show "sends_to_old_destination (\<lambda>_. lapic_send_ipi e b a u) (ucast a) s"
    by (auto simp: sends_to_old_destination_def)
qed

text \<open>The word that names a processor, taken as a command: fixed delivery of vector 0.\<close>

lemma destination_is_no_command:
  fixes l :: u32
  shows "(ucast (push_bit 24 l) :: u64) AND 0x7FF = 0"
proof (rule bit_word_eqI)
  have b: "bit (0x7FF :: u64) n \<longleftrightarrow> n < 11" for n
    using bit_mask_iff [of 11 n, where 'a = u64] by (auto simp: mask_eq_exp_minus_1)
  show "bit ((ucast (push_bit 24 l) :: u64) AND 0x7FF) n = bit (0 :: u64) n" for n
    by (simp only: bit_and_iff b) (auto simp: bit_simps)
qed

end
