(* ===== verification/Smp_Properties.thy ===== *)
theory Smp_Properties
  imports Smp_Lemmas Interrupt_Properties
begin

text \<open>
  The properties of smp.c: the table of processors after registration, the entry of a processor as
  a run of the interleaving's steps, and what the count of started processors is worth. The sample
  system has a boot processor and one more.
\<close>

section \<open>A sample system\<close>

definition sample_cpu_info :: "u32 \<Rightarrow> bool \<Rightarrow> cpu_info" where
  "sample_cpu_info i b = \<lparr>cpu_id = i, cpu_lapic_id = i, kernel_stack = 0,
     cpu_state = (if b then CPU_STATE_RUNNING else CPU_STATE_UNUSED), gs_base = 0, is_bsp = b\<rparr>"

definition sample_smp :: smp_state where
  "sample_smp = \<lparr>cpus = sample_cpu_info 0 True # sample_cpu_info 1 False # replicate 254 (sample_cpu_info 0 False),
     cpu_count = 2, bsp_id = 0, smp_available = True, started_count = 1\<rparr>"

definition sample_kernel :: kernel where
  "sample_kernel = machine.extend sample_machine
     \<lparr>mxcsr = 0, vendor = None, smp = sample_smp, mp = None, gs_base_msr = 0, heap_offset = 0\<rparr>"

definition sample_boot_env :: boot_env where
  "sample_boot_env = env.extend sample_env
     \<lparr>cpuid = (\<lambda>_ _. \<lparr>r_eax = 0, r_ebx = 0, r_ecx = 0, r_edx = 0\<rparr>), xcr0 = 0, brand_buf = 0,
      cpus_addr = 0xFFFFFFFF80200000, early_heap = 0, task1 = 0, task2 = 0, task1_func = 0, task2_func = 0,
      lit_rsdp = 0, lit_fadt = 0, lit_madt = 0, ap_entry_addr = 0\<rparr>"

lemma sample_kernel_simps [simp]:
  "smp sample_kernel = sample_smp" "pmm_ok sample_kernel" "taken sample_kernel = - {2..<2048}"
  using sample_machine_pmm(1,2)
  by (simp_all add: sample_kernel_def machine.defs pmm_ok_def pmm_wf_def used_frames_def page_bit_def taken_def
      allocatable_def memmap_entries_def)

lemma sample_smp_simps [simp]:
  "length (cpus sample_smp) = 256" "cpu_count sample_smp = 2" "started_count sample_smp = 1"
  "cpus sample_smp ! 0 = sample_cpu_info 0 True" "cpus sample_smp ! Suc 0 = sample_cpu_info 1 False"
  by (simp_all add: sample_smp_def)

lemma sample_parked: "startup_init (parked sample_smp)"
  by (auto simp: startup_init_def parked_def ncpus_def is_ap_def less_2_cases_iff sample_cpu_info_def)

section \<open>Registration\<close>

text \<open>C27. With at most 256 processors in the boot loader's list, smp_init fills one entry for each, in
  the order of the list: its index, its APIC identifier, the mark of the boot processor, running for
  that one and unused for the others. The start-up of the other processors begins in this state.\<close>

theorem processors_registered:
  fixes s :: "'a kernel_scheme"
  assumes "length (cpus (smp s)) = 256" and "length (mp_cpus r) \<le> 256"
  shows "unat (cpu_count (smp (smp_init e (Some r) s))) = length (mp_cpus r)
    \<and> (\<forall>j < length (mp_cpus r). let c = cpus (smp (smp_init e (Some r) s)) ! j; l = mi_lapic_id (mp_cpus r ! j) in
        cpu_id c = of_nat j \<and> cpu_lapic_id c = l \<and> (is_bsp c \<longleftrightarrow> l = mp_bsp_lapic_id r)
      \<and> cpu_state c = (if is_bsp c then CPU_STATE_RUNNING else CPU_STATE_UNUSED)
      \<and> (is_bsp c \<longrightarrow> gs_base c = cpu_ptr e (of_nat j)))
    \<and> startup_init (parked (smp (smp_init e (Some r) s)))"
proof -
  note table = smp_init_table [OF assms, where e = e]
  have "unat (of_nat j :: u32) = j" if "j < length (mp_cpus r)" for j using that assms(2) by (simp add: unat_of_nat)
  then show ?thesis using table(2,4) smp_init_startup [OF assms, of e] by (simp add: reg_entry_def Let_def)
qed

theorem processors_registered_witness:
  "let r = \<lparr>mp_bsp_lapic_id = 4, mp_cpus = [\<lparr>mi_lapic_id = 2, goto_address = 0\<rparr>, \<lparr>mi_lapic_id = 4, goto_address = 0\<rparr>]\<rparr>
   in is_bsp (cpus (smp (smp_init sample_boot_env (Some r) sample_kernel)) ! 1)
     \<and> \<not> is_bsp (cpus (smp (smp_init sample_boot_env (Some r) sample_kernel)) ! 0)"
  using processors_registered [of sample_kernel "\<lparr>mp_bsp_lapic_id = 4,
      mp_cpus = [\<lparr>mi_lapic_id = 2, goto_address = 0\<rparr>, \<lparr>mi_lapic_id = 4, goto_address = 0\<rparr>]\<rparr>" sample_boot_env]
  by (simp add: Let_def)

section \<open>A processor's entry\<close>

text \<open>C26. A released processor that finds its entry, with a frame left for its stack, ends ap_entry in
  the halt loop with interrupts on and its GS base on its own entry; on the shared statics it does
  just what four steps of the interleaving do, from parked to counted.\<close>

theorem ap_entry_runs_the_steps:
  fixes s :: "'a kernel_scheme"
  assumes "pmm_ok s" and "f \<notin> taken s" and "find_cpu l 0 (smp s) = Some (Some i)" and "length (cpus (smp s)) = 256"
    and "rel (unat i)" and "pcs (unat i) = Ap_parked"
  shows "\<exists>t. ap_entry e l s = Some t \<and> gs_base_msr t = cpu_ptr e i \<and> interrupts_on t
    \<and> cpu_state (cpus (smp t) ! unat i) = CPU_STATE_RUNNING
    \<and> smp_steps e \<lparr>sm = smp s, released = rel, ap_at = pcs, bsp_at = b, late = k\<rparr>
        \<lparr>sm = smp t, released = rel, ap_at = pcs(unat i := Ap_counted), bsp_at = b,
         late = (case b of Finished n \<Rightarrow> Suc k | _ \<Rightarrow> k)\<rparr>"
proof -
  obtain page t where t: "ap_entry e l s = Some t"
    "smp t = ap_count (ap_running i (ap_gs e i (ap_stack i page (smp s))))" "gs_base_msr t = cpu_ptr e i" "interrupts_on t"
    by (rule ap_entry_effect [OF assms(1-4)]) blast
  have "unat i < 256" using find_cpu_found [OF assms(3)] by (simp add: MAX_CPUS_def word_less_nat_alt)
  then have "cpu_state (cpus (smp t) ! unat i) = CPU_STATE_RUNNING"
    using assms(4) by (simp add: t(2) ap_running_def ap_gs_def ap_stack_def upd_cpu_def)
  moreover have "of_nat (unat i) = i" by simp
  ultimately show ?thesis using t ap_steps [where rel = rel and i = i and pcs = pcs and e = e and q = "smp s" and b = b and k = k and page = page,
        OF assms(5,6)] by auto
qed

theorem ap_entry_runs_the_steps_witness:
  "\<exists>t. ap_entry sample_boot_env 1 sample_kernel = Some t \<and> gs_base_msr t = cpu_ptr sample_boot_env 1
     \<and> smp_steps sample_boot_env \<lparr>sm = sample_smp, released = (\<lambda>_. True), ap_at = (\<lambda>_. Ap_parked), bsp_at = Finished 0, late = 0\<rparr>
        \<lparr>sm = smp t, released = (\<lambda>_. True), ap_at = (\<lambda>_. Ap_parked)(1 := Ap_counted), bsp_at = Finished 0, late = 1\<rparr>"
proof -
  have f: "find_cpu 1 0 (smp sample_kernel) = Some (Some 1)"
    by (simp add: find_cpu.simps MAX_CPUS_def word_le_nat_alt word_less_nat_alt sample_cpu_info_def)
  have t: "2 \<notin> taken sample_kernel" by simp
  show ?thesis
    using ap_entry_runs_the_steps [OF _ t f, of "\<lambda>_. True" "\<lambda>_. Ap_parked" sample_boot_env "Finished 0" 0] by auto
qed

section \<open>A run of the sample system\<close>

text \<open>
  The processor marks itself running, the boot processor polls, counts and stores, and only then the
  processor increments the count.
\<close>

definition sample_up :: smp_state where
  "sample_up = ap_running 1 (ap_gs sample_boot_env 1 (ap_stack 1 0x5000 sample_smp))"

lemma sample_up_simps [simp]:
  "cpu_count sample_up = 2" "is_bsp (cpus sample_up ! 0)" "\<not> is_bsp (cpus sample_up ! Suc 0)"
  "cpu_state (cpus sample_up ! Suc 0) = CPU_STATE_RUNNING" "started_count sample_up = 1"
  by (simp_all add: sample_up_def ap_running_def ap_gs_def ap_stack_def upd_cpu_def sample_cpu_info_def)

abbreviation at_step :: "smp_state \<Rightarrow> ap_pc \<Rightarrow> bsp_pc \<Rightarrow> startup" where
  "at_step q a b \<equiv> \<lparr>sm = q, released = (\<lambda>_. False)(Suc 0 := True), ap_at = (\<lambda>_. Ap_parked)(Suc 0 := a), bsp_at = b, late = 0\<rparr>"

lemma sample_released: "smp_steps sample_boot_env (parked sample_smp) (at_step sample_smp Ap_parked (Polling 0 0 0))"
proof -
  let ?e = sample_boot_env and ?p = "parked sample_smp"
  have two: "Suc (Suc 0) = 2" by simp
  have 1: "smp_step ?e ?p (?p\<lparr>bsp_at := Releasing 1\<rparr>)"
    using smp_step.release [of ?p 0 ?e] by (simp add: parked_def ncpus_def is_ap_def sample_cpu_info_def)
  have 2: "smp_step ?e (?p\<lparr>bsp_at := Releasing 1\<rparr>) (at_step sample_smp Ap_parked (Releasing 2))"
    using smp_step.release [of "?p\<lparr>bsp_at := Releasing 1\<rparr>" 1 ?e]
    by (simp add: parked_def ncpus_def is_ap_def sample_cpu_info_def two fun_upd_idem)
  have 3: "smp_step ?e (at_step sample_smp Ap_parked (Releasing 2)) (at_step sample_smp Ap_parked (Polling 0 0 0))"
    using smp_step.release_end [of "at_step sample_smp Ap_parked (Releasing 2)" 2 ?e] by (simp add: ncpus_def)
  show ?thesis by (rule smp_steps.more [OF smp_steps.more [OF smp_steps.more [OF smp_steps.here 1] 2] 3])
qed

lemma sample_marked: "smp_steps sample_boot_env (parked sample_smp) (at_step sample_up Ap_running (Polling 0 0 0))"
proof -
  let ?e = sample_boot_env and ?p = "Polling 0 0 0" and ?q = "ap_gs sample_boot_env 1 (ap_stack 1 0x5000 sample_smp)"
  have 1: "smp_step ?e (at_step sample_smp Ap_parked ?p) (at_step sample_smp Ap_found ?p)"
    using smp_step.ap_enter [of "at_step sample_smp Ap_parked ?p" "Suc 0" ?e] by simp
  have 2: "smp_step ?e (at_step sample_smp Ap_found ?p) (at_step ?q Ap_ready ?p)"
    using smp_step.ap_prepare [of "at_step sample_smp Ap_found ?p" "Suc 0" ?e "0x5000"] by simp
  have 3: "smp_step ?e (at_step ?q Ap_ready ?p) (at_step sample_up Ap_running ?p)"
    using smp_step.ap_mark [of "at_step ?q Ap_ready ?p" "Suc 0" ?e] by (simp add: sample_up_def)
  show ?thesis by (rule smp_steps.more [OF smp_steps.more [OF smp_steps.more [OF sample_released 1] 2] 3])
qed

text \<open>The boot processor's rounds, with the other processor at \<open>a\<close>.\<close>

lemma sample_rounds:
  assumes "cpu_count q = 2" "is_bsp (cpus q ! 0)" "\<not> is_bsp (cpus q ! Suc 0)" "cpu_state (cpus q ! Suc 0) = CPU_STATE_RUNNING"
  shows "ncpus (at_step q a b) = 2" "seen_running (at_step q a b) 0 = 0" "seen_running (at_step q a b) (Suc 0) = 1"
  using assms by (simp_all add: ncpus_def seen_running_def)

lemma sample_poll_run:
  assumes "smp_steps e s (at_step q a (Polling 0 0 0))" and "cpu_count q = 2" "is_bsp (cpus q ! 0)"
    "\<not> is_bsp (cpus q ! Suc 0)" "cpu_state (cpus q ! Suc 0) = CPU_STATE_RUNNING"
  shows "smp_steps e s (at_step q a (Recounting 0 0))"
proof -
  note n = sample_rounds [OF assms(2-5)]
  have 1: "smp_step e (at_step q a (Polling 0 0 0)) (at_step q a (Polling 0 1 0))"
    using smp_step.poll [of "at_step q a (Polling 0 0 0)" 0 0 0 e] n by simp
  have 2: "smp_step e (at_step q a (Polling 0 1 0)) (at_step q a (Polling 0 2 1))"
    using smp_step.poll [of "at_step q a (Polling 0 1 0)" 0 1 0 e] n by (simp add: numeral_2_eq_2)
  have 3: "smp_step e (at_step q a (Polling 0 2 1)) (at_step q a (Recounting 0 0))"
    using smp_step.poll_end [of "at_step q a (Polling 0 2 1)" 0 2 1 e] n by simp
  show ?thesis by (rule smp_steps.more [OF smp_steps.more [OF smp_steps.more [OF assms(1) 1] 2] 3])
qed

lemma sample_recount_run:
  assumes "smp_steps e s (at_step q a (Recounting 0 0))" and "cpu_count q = 2" "is_bsp (cpus q ! 0)"
    "\<not> is_bsp (cpus q ! Suc 0)" "cpu_state (cpus q ! Suc 0) = CPU_STATE_RUNNING"
  shows "smp_steps e s (at_step (q\<lparr>started_count := 2\<rparr>) a (Finished 1))"
proof -
  note n = sample_rounds [OF assms(2-5)]
  have 1: "smp_step e (at_step q a (Recounting 0 0)) (at_step q a (Recounting 1 0))"
    using smp_step.recount [of "at_step q a (Recounting 0 0)" 0 0 e] n by simp
  have 2: "smp_step e (at_step q a (Recounting 1 0)) (at_step q a (Recounting 2 1))"
    using smp_step.recount [of "at_step q a (Recounting 1 0)" 1 0 e] n by (simp add: numeral_2_eq_2)
  have 3: "smp_step e (at_step q a (Recounting 2 1)) (at_step q a (Storing 1))"
    using smp_step.recount_end [of "at_step q a (Recounting 2 1)" 2 1 e] n by simp
  have 4: "smp_step e (at_step q a (Storing 1)) (at_step (q\<lparr>started_count := 2\<rparr>) a (Finished 1))"
    using smp_step.store [of "at_step q a (Storing 1)" 1 e] by simp
  show ?thesis by (rule smp_steps.more [OF smp_steps.more [OF smp_steps.more [OF smp_steps.more [OF assms(1) 1] 2] 3] 4])
qed

section \<open>The count\<close>



text \<open>The count is right when the other processors have settled before the boot processor's last
  round: if each has counted itself or failed when the round begins, the stored value is one plus the
  number of processors that counted themselves, and stays so.\<close>

theorem settled_count_is_exact:
  assumes "startup_reachable e s" and "bsp_at s = Recounting 0 0" and "settled s"
    and "smp_steps e s t" and "bsp_at t = Finished n"
  shows "unat (started_count (sm t)) = 1 + card (counted t)"
proof -
  have inv: "startup_inv s" by (rule startup_reachable_inv [OF assms(1)])
  then have "exact_inv s" using assms(2,3) by (simp add: exact_inv_def)
  then have ex: "exact_inv t" by (rule exact_steps [OF assms(4)])
  then have invt: "startup_inv t" and n: "n = card (up t)" "late t = 0" using assms(5) by (simp_all add: exact_inv_def)
  have "up t = counted t" using ex by (intro settled_up) (simp_all add: exact_inv_def)
  moreover have "started_count (sm t) = of_nat (1 + n)" using invt assms(5) n(2) by (simp add: startup_inv_def count_inv_def)
  moreover have "1 + n < 2 ^ 32" using n finite_up [OF invt] by simp
  ultimately show ?thesis using n(1) by (simp only: unat_of_nat) simp
qed

theorem settled_count_is_exact_witness:
  "\<exists>t. smp_steps sample_boot_env (parked sample_smp) t \<and> bsp_at t = Finished 1 \<and> counted t = {1}
     \<and> unat (started_count (sm t)) = 1 + card (counted t)"
proof -
  let ?q = "ap_count sample_up" and ?e = sample_boot_env
  let ?s = "at_step ?q Ap_counted (Recounting 0 0)" and ?t = "at_step (?q\<lparr>started_count := 2\<rparr>) Ap_counted (Finished 1)"
  have "smp_step ?e (at_step sample_up Ap_running (Polling 0 0 0)) (at_step ?q Ap_counted (Polling 0 0 0))"
    using smp_step.ap_add [of "at_step sample_up Ap_running (Polling 0 0 0)" "Suc 0" ?e] by simp
  from smp_steps.more [OF sample_marked this]
  have p: "smp_steps ?e (parked sample_smp) (at_step ?q Ap_counted (Polling 0 0 0))" .
  have s: "smp_steps ?e (parked sample_smp) ?s" by (rule sample_poll_run [OF p]) simp_all
  have t: "smp_steps ?e (parked sample_smp) ?t" by (rule sample_recount_run [OF s]) simp_all
  have st: "smp_steps ?e ?s ?t" by (rule sample_recount_run [OF smp_steps.here]) simp_all
  have r: "startup_reachable ?e ?s" using s sample_parked by (auto simp: startup_reachable_def)
  have c: "counted ?t = {1}" by (auto simp: counted_def)
  have "i = Suc 0" if "is_ap ?s i" for i
  proof -
    from that have "i < 2" "\<not> is_bsp (cpus sample_up ! i)" by (simp_all add: is_ap_def ncpus_def)
    then show ?thesis using sample_up_simps(2) by (cases "i = 0") auto
  qed
  then have "settled ?s" by (auto simp: settled_def)
  from settled_count_is_exact [OF r _ this st] t c show ?thesis by (intro exI [of _ ?t]) simp
qed

section \<open>The interprocessor interrupts\<close>



end
