(* ===== verification/Simd_Memory.thy ===== *)
theory Simd_Memory
  imports LibC_String
begin

text \<open>
  The wide memory routines of simd.c: \<open>memcpy_simd\<close> and \<open>memset_simd\<close> advance byte by byte to a
  16-byte boundary, then move 16 bytes at a time through XMM0, then finish byte by byte. A
  \<open>movdqu\<close> load reads its 16 bytes before the store writes any of them. Both routines are shown to
  write the same sequence of bytes as the plain loops of \<open>memcpy\<close> and \<open>memset\<close>.
\<close>

section \<open>The routines\<close>

function copy_to_boundary :: "u64 \<Rightarrow> u64 \<Rightarrow> u64 \<Rightarrow> bytes \<Rightarrow> u64 \<times> u64 \<times> u64 \<times> bytes" where
  "copy_to_boundary d s n m =
     (if n \<noteq> 0 \<and> d AND 0x0F \<noteq> 0 then copy_to_boundary (d + 1) (s + 1) (n - 1) (m(d := m s))
      else (d, s, n, m))"
  by pat_completeness auto
termination
  by (relation "measure (\<lambda>(d, s, n, m). unat n)") (simp_all add: unat_pred_Suc word_gt_0)

declare copy_to_boundary.simps [simp del]

definition memcpy_simd :: "u64 \<Rightarrow> u64 \<Rightarrow> u64 \<Rightarrow> bytes \<Rightarrow> u64 \<times> bytes" where
  "memcpy_simd dst src n m =
     (if n < 32 then (dst, for_up 0 n (\<lambda>i p. p(dst + i := p (src + i))) m)
      else let (d, s, n, m) = copy_to_boundary dst src n m;
               chunks = n div 16;
               (d, s, m) = for_up 0 chunks (\<lambda>_ (d, s, m). (d + 16, s + 16, poke m d (peek m s 16))) (d, s, m);
               tail = n mod 16;
               (d, s, m) = for_up 0 tail (\<lambda>_ (d, s, m). (d + 1, s + 1, m(d := m s))) (d, s, m)
           in (dst, m))"

function set_to_boundary :: "u64 \<Rightarrow> u8 \<Rightarrow> u64 \<Rightarrow> bytes \<Rightarrow> u64 \<times> u64 \<times> bytes" where
  "set_to_boundary d v n m =
     (if n \<noteq> 0 \<and> d AND 0x0F \<noteq> 0 then set_to_boundary (d + 1) v (n - 1) (m(d := v)) else (d, n, m))"
  by pat_completeness auto
termination
  by (relation "measure (\<lambda>(d, v, n, m). unat n)") (simp_all add: unat_pred_Suc word_gt_0)

declare set_to_boundary.simps [simp del]

definition memset_simd :: "u64 \<Rightarrow> u32 \<Rightarrow> u64 \<Rightarrow> bytes \<Rightarrow> u64 \<times> bytes" where
  "memset_simd s_ptr c n m =
     (let v = ucast c
      in if n = 0 then (s_ptr, m)
         else if n < 32 then (s_ptr, for_up 0 n (\<lambda>i p. p(s_ptr + i := v)) m)
         else let (d, n, m) = set_to_boundary s_ptr v n m;
                  pattern = replicate 16 v;
                  chunks = n div 16;
                  (d, m) = for_up 0 chunks (\<lambda>_ (d, m). (d + 16, poke m d pattern)) (d, m);
                  tail = n mod 16;
                  (d, m) = for_up 0 tail (\<lambda>_ (d, m). (d + 1, m(d := v))) (d, m)
              in (s_ptr, m))"

section \<open>Runs of bytes\<close>

lemma peek_append: "peek m p (k + j) = peek m p k @ peek m (p + of_nat k) j"
  by (induction m p k rule: peek.induct) (simp_all add: add.assoc)

lemma poke_one: "poke m p [x] = m(p := x)"
  by simp

text \<open>Reading away from what has been written.\<close>

lemma peek_poke_apart:
  assumes apart: "regions_apart dst src n" and len: "length xs \<le> unat n" and kj: "k + j \<le> unat n"
  shows "peek (poke m dst xs) (src + of_nat k) j = peek m (src + of_nat k) j"
proof (rule peek_cong)
  fix i assume i: "i < j"
  have n64: "unat n < 2 ^ 64" by (rule unat_u64_bound)
  let ?a = "src + of_nat k + of_nat i :: u64"
  have a: "?a = src + of_nat (k + i)" by simp
  have ki: "of_nat (k + i) < n" using i kj n64 by (simp add: word_less_nat_alt unat_of_nat_u64 del: of_nat_add)
  have "of_nat (length xs) \<le> ?a - dst"
  proof (rule ccontr)
    assume c: "\<not> of_nat (length xs) \<le> ?a - dst"
    have "?a - dst < n"
      using c len n64 by (simp add: word_le_nat_alt word_less_nat_alt unat_of_nat_u64 not_le)
    from regions_apartD [OF apart this ki] show False by simp
  qed
  then show "poke m dst xs ?a = m ?a" using len n64 by (intro poke_other) simp_all
qed

lemma copy_run:
  assumes "regions_apart dst src n" and "k + j \<le> unat n"
  shows "poke (poke m dst (peek m src k)) (dst + of_nat k) (peek (poke m dst (peek m src k)) (src + of_nat k) j)
    = poke m dst (peek m src (k + j))"
  using assms peek_poke_apart [OF assms(1), of "peek m src k" k j m] by (simp add: peek_append poke_append)

lemma copy_byte:
  assumes "regions_apart dst src n" and "k < unat n" and "p = poke m dst (peek m src k)"
  shows "p(dst + of_nat k := p (src + of_nat k)) = poke m dst (peek m src (Suc k))"
  using copy_run [OF assms(1), of k 1 m] assms(2,3) by simp

lemma set_run: "poke (poke m s (replicate k v)) (s + of_nat k) (replicate j v) = poke m s (replicate (k + j) v)"
  by (simp add: replicate_add poke_append)

lemma set_byte: "(poke m s (replicate k v))(s + of_nat k := v) = poke m s (replicate (Suc k) v)"
  using set_run [of m s k v 1] by simp

section \<open>The plain loops\<close>

lemma copy_loop:
  assumes "regions_apart dst src n"
  shows "for_up 0 n (\<lambda>i p. p(dst + i := p (src + i))) m = poke m dst (peek m src (unat n))"
proof -
  define I where "I = (\<lambda>k p. p = poke m dst (peek m src k))"
  have "I (unat n) (for_up 0 n (\<lambda>i p. p(dst + i := p (src + i))) m)"
    by (rule for_up_rule [where I = I]) (use copy_byte [OF assms] in \<open>auto simp: I_def\<close>)
  then show ?thesis by (simp add: I_def)
qed

lemma set_loop: "for_up 0 n (\<lambda>i p. p(s + i := v)) m = poke m s (replicate (unat n) v)"
proof -
  define I where "I = (\<lambda>k p. p = poke m s (replicate k v))"
  have "I (unat n) (for_up 0 n (\<lambda>i p. p(s + i := v)) m)"
    by (rule for_up_rule [where I = I]) (simp_all add: I_def set_byte del: replicate_Suc)
  then show ?thesis by (simp add: I_def)
qed

section \<open>The wide loops\<close>

text \<open>A loop that moves \<open>w\<close> bytes at each turn, starting after \<open>k\<close> bytes.\<close>

lemma copy_steps:
  assumes apart: "regions_apart dst src n" and N: "k + w * unat c \<le> unat n"
    and f: "\<And>i d s m. f i (d, s, m) = (d + of_nat w, s + of_nat w, poke m d (peek m s w))"
  shows "for_up 0 c f (dst + of_nat k, src + of_nat k, poke m dst (peek m src k))
    = (dst + of_nat (k + w * unat c), src + of_nat (k + w * unat c), poke m dst (peek m src (k + w * unat c)))"
proof -
  define I where "I = (\<lambda>i (d, s, p). d = dst + of_nat (k + w * i) \<and> s = src + of_nat (k + w * i)
    \<and> p = poke m dst (peek m src (k + w * i)))"
  have "I (unat c) (for_up 0 c f (dst + of_nat k, src + of_nat k, poke m dst (peek m src k)))"
  proof (rule for_up_rule [where I = I])
    fix i t assume i: "i < unat c" and I: "I i t"
    obtain d s p where t: "t = (d, s, p)" by (cases t)
    have "w * Suc i \<le> w * unat c" using i by (intro mult_le_mono2) simp
    then have "k + w * i + w \<le> unat n" using N by simp
    from copy_run [OF apart this, of m] I show "I (Suc i) (f (of_nat i) t)"
      by (simp add: t f I_def algebra_simps)
  qed (simp_all add: I_def)
  then show ?thesis by (simp add: I_def split: prod.splits)
qed

lemma set_steps:
  assumes f: "\<And>i d m. f i (d, m) = (d + of_nat w, poke m d (replicate w v))"
  shows "for_up 0 c f (s + of_nat k, poke m s (replicate k v))
    = (s + of_nat (k + w * unat c), poke m s (replicate (k + w * unat c) v))"
proof -
  define I where "I = (\<lambda>i (d, p). d = s + of_nat (k + w * i) \<and> p = poke m s (replicate (k + w * i) v))"
  have "I (unat c) (for_up 0 c f (s + of_nat k, poke m s (replicate k v)))"
  proof (rule for_up_rule [where I = I])
    fix i t assume I: "I i t"
    obtain d p where t: "t = (d, p)" by (cases t)
    from set_run [of m s "k + w * i" v w] I show "I (Suc i) (f (of_nat i) t)"
      by (simp add: t f I_def algebra_simps)
  qed (simp_all add: I_def)
  then show ?thesis by (simp add: I_def split: prod.splits)
qed

lemma copy_to_boundary_run:
  assumes "regions_apart dst src N" and "k + unat n = unat N"
  shows "\<exists>j r. j + unat r = unat N
    \<and> copy_to_boundary (dst + of_nat k) (src + of_nat k) n (poke m dst (peek m src k))
      = (dst + of_nat j, src + of_nat j, r, poke m dst (peek m src j))"
  using assms(2)
proof (induction "unat n" arbitrary: n k)
  case 0
  then have "n = 0" "k = unat N" by (simp_all add: unat_eq_zero)
  with "0.prems" show ?case by (intro exI [of _ k] exI [of _ n]) (simp add: copy_to_boundary.simps)
next
  case (Suc l)
  show ?case
  proof (cases "(dst + of_nat k) AND 0x0F = 0")
    case True
    with Suc.prems show ?thesis by (intro exI [of _ k] exI [of _ n]) (simp add: copy_to_boundary.simps)
  next
    case False
    have n0: "n \<noteq> 0" using Suc.hyps(2) by auto
    have un: "unat (n - 1) = l" using Suc.hyps(2) n0 unat_pred_Suc [of n] by (simp add: word_gt_0)
    have k: "k < unat N" using Suc by linarith
    note step = copy_byte [OF assms(1) k refl, of m]
    have "Suc k + unat (n - 1) = unat N" using un Suc by simp
    from Suc.hyps(1) [OF un [symmetric] this] obtain j r where j: "j + unat r = unat N"
      "copy_to_boundary (dst + of_nat (Suc k)) (src + of_nat (Suc k)) (n - 1) (poke m dst (peek m src (Suc k)))
        = (dst + of_nat j, src + of_nat j, r, poke m dst (peek m src j))" by blast
    have "dst + of_nat k + 1 = dst + of_nat (Suc k)" "src + of_nat k + 1 = src + of_nat (Suc k)" by simp_all
    then have "copy_to_boundary (dst + of_nat k) (src + of_nat k) n (poke m dst (peek m src k))
      = copy_to_boundary (dst + of_nat (Suc k)) (src + of_nat (Suc k)) (n - 1) (poke m dst (peek m src (Suc k)))"
      using False n0 step by (subst copy_to_boundary.simps) (simp only: simp_thms if_True)
    with j show ?thesis by (intro exI [of _ j] exI [of _ r]) simp
  qed
qed

lemma set_to_boundary_run:
  assumes "k + unat n = N"
  shows "\<exists>j r. j + unat r = N \<and> set_to_boundary (s + of_nat k) v n (poke m s (replicate k v))
      = (s + of_nat j, r, poke m s (replicate j v))"
  using assms
proof (induction "unat n" arbitrary: n k)
  case 0
  then have "n = 0" "k = N" by (simp_all add: unat_eq_zero)
  with "0.prems" show ?case by (intro exI [of _ k] exI [of _ n]) (simp add: set_to_boundary.simps)
next
  case (Suc l)
  show ?case
  proof (cases "(s + of_nat k) AND 0x0F = 0")
    case True
    with Suc.prems show ?thesis by (intro exI [of _ k] exI [of _ n]) (simp add: set_to_boundary.simps)
  next
    case False
    have n0: "n \<noteq> 0" using Suc.hyps(2) by auto
    have un: "unat (n - 1) = l" using Suc.hyps(2) n0 unat_pred_Suc [of n] by (simp add: word_gt_0)
    note step = set_byte [of m s k v]
    have "Suc k + unat (n - 1) = N" using un Suc by simp
    from Suc.hyps(1) [OF un [symmetric] this] obtain j r where j: "j + unat r = N"
      "set_to_boundary (s + of_nat (Suc k)) v (n - 1) (poke m s (replicate (Suc k) v))
        = (s + of_nat j, r, poke m s (replicate j v))" by blast
    have "s + of_nat k + 1 = s + of_nat (Suc k)" by simp
    then have "set_to_boundary (s + of_nat k) v n (poke m s (replicate k v))
      = set_to_boundary (s + of_nat (Suc k)) v (n - 1) (poke m s (replicate (Suc k) v))"
      using False n0 step by (subst set_to_boundary.simps) (simp only: simp_thms if_True)
    with j show ?thesis by (intro exI [of _ j] exI [of _ r]) simp
  qed
qed

section \<open>Agreement with the plain routines\<close>

lemma unat_div_mod_16:
  fixes r :: u64
  shows "16 * unat (r div 16) + unat (r mod 16) = unat r"
  by (simp add: unat_div_distrib unat_mod_distrib)

lemma memcpy_simd_memcpy:
  assumes "regions_apart dst src n"
  shows "memcpy_simd dst src n m = memcpy dst src n m"
proof (cases "n < 32")
  case False
  from copy_to_boundary_run [OF assms, of 0 n m, simplified] obtain j r where j: "j + unat r = unat n"
    "copy_to_boundary dst src n m = (dst + of_nat j, src + of_nat j, r, poke m dst (peek m src j))" by blast
  have sum: "j + 16 * unat (r div 16) + unat (r mod 16) = unat n"
    using unat_div_mod_16 [of r] j(1) by linarith
  have le: "j + 16 * unat (r div 16) \<le> unat n" using sum by linarith
  note chunks = copy_steps [OF assms le, of "\<lambda>_ (d, s, m). (d + 16, s + 16, poke m d (peek m s 16))" m]
  have le2: "j + 16 * unat (r div 16) + 1 * unat (r mod 16) \<le> unat n" using sum by simp
  note tail = copy_steps [OF assms le2, of "\<lambda>_ (d, s, m). (d + 1, s + 1, m(d := m s))" m]
  have "memcpy_simd dst src n m = (dst, poke m dst (peek m src (j + 16 * unat (r div 16) + 1 * unat (r mod 16))))"
    unfolding memcpy_simd_def using False j(2) chunks tail by (simp del: of_nat_add)
  with sum show ?thesis by (simp add: memcpy_def copy_loop [OF assms])
qed (simp add: memcpy_simd_def memcpy_def)

lemma memset_simd_memset: "memset_simd s c n m = memset s c n m"
proof -
  consider "n = 0" | "n \<noteq> 0" "n < 32" | "n \<noteq> 0" "\<not> n < 32" by blast
  then show ?thesis
  proof cases
    case 3
    let ?v = "ucast c :: u8"
    from set_to_boundary_run [of 0 n "unat n" s ?v m, simplified] obtain j r where j: "j + unat r = unat n"
      "set_to_boundary s ?v n m = (s + of_nat j, r, poke m s (replicate j ?v))" by blast
    have sum: "j + 16 * unat (r div 16) + unat (r mod 16) = unat n"
      using unat_div_mod_16 [of r] j(1) by linarith
    note chunks = set_steps [of "\<lambda>_ (d, m). (d + 16, poke m d (replicate 16 ?v))" 16 ?v "r div 16" s j m]
    have one: "(\<lambda>_ (d, m). (d + 1, m(d := ?v))) i (d, m) = (d + of_nat 1, poke m d (replicate 1 ?v))" for i d m
      by simp
    note tail = set_steps [OF one, of "r mod 16" s "j + 16 * unat (r div 16)" m]
    have "memset_simd s c n m = (s, poke m s (replicate (j + 16 * unat (r div 16) + 1 * unat (r mod 16)) ?v))"
      unfolding memset_simd_def Let_def using 3 j(2) chunks tail
      by (simp add: fun_upd_def del: of_nat_add replicate.simps)
    with sum show ?thesis by (simp add: memset_def set_loop)
  qed (simp_all add: memset_simd_def memset_def)
qed

section \<open>The area of the floating-point unit\<close>

text \<open>
  \<open>fxsave\<close> and \<open>fxrstor\<close> on the area at \<open>p\<close>, which must be aligned to 16 bytes (\<open>None\<close> is the
  fault otherwise). What the 464 bytes mean that the processor writes and reads is its own affair:
  \<open>fx_image\<close> and \<open>fx_load\<close> are parameters; the remaining 48 bytes of the area belong to the software.
  Nothing in the kernel calls the two routines.
\<close>

definition fxsave_area_save :: "('f \<Rightarrow> u8 list) \<Rightarrow> u64 \<Rightarrow> 'f \<Rightarrow> bytes \<Rightarrow> bytes option" where
  "fxsave_area_save fx_image p f m = (if p AND 0xF \<noteq> 0 then None else Some (poke m p (take 464 (fx_image f))))"

definition fxsave_area_restore :: "(u8 list \<Rightarrow> 'f) \<Rightarrow> u64 \<Rightarrow> bytes \<Rightarrow> 'f option" where
  "fxsave_area_restore fx_load p m = (if p AND 0xF \<noteq> 0 then None else Some (fx_load (peek m p 464)))"

lemma fxsave_restores:
  assumes "length (fx_image f) = 464" and "fx_load (fx_image f) = f" and "p AND 0xF = 0"
    and "\<And>i. i < 464 \<Longrightarrow> m' (p + of_nat i) = the (fxsave_area_save fx_image p f m) (p + of_nat i)"
  shows "fxsave_area_restore fx_load p m' = Some f"
proof -
  have "peek m' p 464 = peek (poke m p (fx_image f)) p 464"
    using assms(1,3,4) by (intro peek_cong) (simp add: fxsave_area_save_def)
  also have "\<dots> = fx_image f" using peek_poke [of "fx_image f" m p] assms(1) by simp
  finally show ?thesis using assms(2,3) by (simp add: fxsave_area_restore_def)
qed

end
