(* ===== verification/Acpi_Lemmas.thy ===== *)
theory Acpi_Lemmas
  imports Acpi Smp_Lemmas Simd_Memory
begin

text \<open>
  The checksum as a sum, the signature comparison as equality of four bytes, the search of the root
  table as a search in a list, and what the ACPI code leaves alone.
\<close>

section \<open>Checksum and signature\<close>

lemma word_sum_list: "sum_list xs = (of_nat (sum_list (map unat xs)) :: 'a::len word)"
  by (induction xs) simp_all

lemma checksum_loop: "for_up 0 n (\<lambda>i sum. sum + m (d + i)) 0 = sum_list (peek m d (unat n))"
proof -
  define I where "I = (\<lambda>k sum. sum = sum_list (peek m d k))"
  have "I (unat n) (for_up 0 n (\<lambda>i sum. sum + m (d + i)) 0)"
  proof (rule for_up_rule [where I = I])
    fix k t assume "I k t"
    moreover have "peek m d (Suc k) = peek m d k @ [m (d + of_nat k)]" using peek_append [of m d k 1] by simp
    ultimately show "I (Suc k) (t + m (d + of_nat k))" by (simp add: I_def)
  qed (simp_all add: I_def)
  then show ?thesis by (simp add: I_def)
qed

lemma checksum_valid_iff: "acpi_checksum_valid d n m \<longleftrightarrow> sum_list (map unat (peek m d (unat n))) mod 256 = 0"
proof -
  have "acpi_checksum_valid d n m \<longleftrightarrow> (of_nat (sum_list (map unat (peek m d (unat n)))) :: u8) = 0"
    by (simp add: acpi_checksum_valid_def checksum_loop word_sum_list [of "peek m d (unat n)"])
  also have "\<dots> \<longleftrightarrow> unat (of_nat (sum_list (map unat (peek m d (unat n)))) :: u8) = 0" by (simp only: unat_eq_zero)
  also have "\<dots> \<longleftrightarrow> sum_list (map unat (peek m d (unat n))) mod 256 = 0" by (simp only: unat_of_nat) simp
  finally show ?thesis .
qed

lemma strncmp_loop_no_nul:
  "0 \<notin> set (peek m b (unat n)) \<Longrightarrow> strncmp_loop a b n m = 0 \<longleftrightarrow> peek m a (unat n) = peek m b (unat n)"
proof (induction a b n m rule: strncmp_loop.induct)
  case (1 a b n m)
  show ?case
  proof (cases "0 < n")
    case True
    have "(ucast (m a) :: u32) - ucast (m b) = 0 \<longleftrightarrow> m a = m b" by (simp add: ucast_u8_u32_eq)
    then show ?thesis using 1 True unat_pred_Suc [OF True] by (auto simp: strncmp_loop.simps [of a b n])
  next
    case False
    then have "unat n = 0" by (simp add: word_less_nat_alt)
    with False show ?thesis by (simp add: strncmp_loop.simps [of a b n])
  qed
qed

lemma strncmp_no_nul:
  "0 \<notin> set (peek m b (unat n)) \<Longrightarrow> strncmp a b n m = 0 \<longleftrightarrow> peek m a (unat n) = peek m b (unat n)"
  using strncmp_loop_no_nul [of m b n a] by (simp add: strncmp_def)

section \<open>Searching a root table\<close>

definition acpi_va :: "'a machine_scheme \<Rightarrow> u64 \<Rightarrow> u64" where
  "acpi_va s pa = (if pa = 0 then 0 else paging_physical_to_virtual pa s)"

text \<open>The page of the address is mapped, or there is no address.\<close>

definition acpi_mapped :: "'a machine_scheme \<Rightarrow> u64 \<Rightarrow> bool" where
  "acpi_mapped s pa \<longleftrightarrow> pa = 0 \<or> paging_is_mapped (acpi_va s pa AND PAGE_MASK) s"

lemma acpi_map_mapped: "acpi_mapped s pa \<Longrightarrow> acpi_map_physical_to_virtual pa s = (acpi_va s pa, s)"
  by (auto simp: acpi_mapped_def acpi_va_def acpi_map_physical_to_virtual_def)

text \<open>A table with this signature whose bytes sum to a multiple of 256.\<close>

definition acpi_table :: "bytes \<Rightarrow> u64 \<Rightarrow> u64 \<Rightarrow> bool" where
  "acpi_table m signature h \<longleftrightarrow> h \<noteq> 0 \<and> peek m h 4 = peek m signature 4
     \<and> sum_list (map unat (peek m h (unat (sdt_length m h)))) mod 256 = 0"

lemma acpi_search_find:
  fixes s :: "'a machine_scheme"
  assumes "0 \<notin> set (peek (kmem s) signature 4)"
    and "\<And>j. j < unat n \<Longrightarrow> acpi_mapped s (entry (kmem s) (of_nat j))"
  shows "acpi_search i n entry signature s =
    (case find (acpi_table (kmem s) signature) (map (\<lambda>j. acpi_va s (entry (kmem s) (of_nat j))) [unat i..<unat n]) of
       None \<Rightarrow> Some (0, s)
     | Some h \<Rightarrow> map_option (\<lambda>txt. (h, klog ''\<newline>'' (klog txt (klog ''[ACPI] Found table: '' s)))) (text_at (kmem s) h))"
  using assms
proof (induction i n entry signature s rule: acpi_search.induct)
  case (1 i n entry signature s)
  show ?case
  proof (cases "i < n")
    case True
    let ?h = "acpi_va s (entry (kmem s) i)"
    have lt: "unat i < unat n" using True by (simp add: word_less_nat_alt)
    have map: "acpi_map_physical_to_virtual (entry (kmem s) i) s = (?h, s)"
      using "1.prems"(2) [OF lt] by (simp add: acpi_map_mapped)
    have upt: "[unat i..<unat n] = unat i # [unat (i + 1)..<unat n]"
      using lt by (simp add: upt_conv_Cons unat_Suc_of_less [OF True])
    have sig: "strncmp ?h signature 4 (kmem s) = 0 \<longleftrightarrow> peek (kmem s) ?h 4 = peek (kmem s) signature 4"
      using strncmp_no_nul [of "kmem s" signature 4 ?h] "1.prems"(1) by simp
    have len: "unat (ucast (sdt_length (kmem s) ?h) :: u64) = unat (sdt_length (kmem s) ?h)" by (rule unat_ucast_up) simp
    have table: "acpi_table (kmem s) signature ?h \<longleftrightarrow> ?h \<noteq> 0 \<and> strncmp ?h signature 4 (kmem s) = 0
        \<and> acpi_checksum_valid ?h (ucast (sdt_length (kmem s) ?h)) (kmem s)"
      by (simp add: acpi_table_def sig checksum_valid_iff len)
    note IH = "1.IH"(1) [OF True refl map [symmetric]] "1.IH"(2) [OF True refl map [symmetric]]
    show ?thesis
    proof (cases "acpi_table (kmem s) signature ?h")
      case True
      with table \<open>i < n\<close> map show ?thesis by (subst acpi_search.simps) (simp add: upt)
    next
      case False
      then have "acpi_search i n entry signature s = acpi_search (i + 1) n entry signature s"
        using table \<open>i < n\<close> map by (subst acpi_search.simps) auto
      also have "\<dots> = (case find (acpi_table (kmem s) signature)
            (map (\<lambda>j. acpi_va s (entry (kmem s) (of_nat j))) [unat (i + 1)..<unat n]) of
          None \<Rightarrow> Some (0, s)
        | Some h \<Rightarrow> map_option (\<lambda>txt. (h, klog ''\<newline>'' (klog txt (klog ''[ACPI] Found table: '' s)))) (text_at (kmem s) h))"
        using IH "1.prems" False table by (cases "?h = 0") auto
      finally show ?thesis using False by (simp add: upt)
    qed
  next
    case False
    then have none: "[unat i..<unat n] = []" by (simp add: word_less_nat_alt)
    show ?thesis unfolding none using False by (subst acpi_search.simps) simp
  qed
qed

section \<open>Fields left alone\<close>

lemma paging_more_machine: "paging.more t = paging.more s \<Longrightarrow> acpi t = acpi s"
  by (cases s, cases t) simp

lemma klog_machine [simp]: "acpi (klog m s) = acpi s" "acpi (klog_num a b v c s) = acpi s"
  "paging.more (klog m s) = paging.more s" "paging.more (klog_num a b v c s) = paging.more s"
  by (simp_all add: klog_def klog_num_def)

lemma acpi_map_more: "acpi_map_physical_to_virtual pa s = (v, t) \<Longrightarrow> paging.more t = paging.more s"
  using map_page_more [of "paging_physical_to_virtual pa s AND PAGE_MASK" "pa AND PAGE_MASK"
      "PAGING_PRESENT OR PAGING_WRITABLE OR PAGING_NO_EXECUTE" s]
  by (auto simp: acpi_map_physical_to_virtual_def Let_def split: if_splits prod.splits)

lemma acpi_search_more: "acpi_search i n entry signature s = Some (h, t) \<Longrightarrow> paging.more t = paging.more s"
proof (induction i n entry signature s rule: acpi_search.induct)
  case (1 i n entry signature s)
  obtain v s1 where m: "acpi_map_physical_to_virtual (entry (kmem s) i) s = (v, s1)" by fastforce
  note more = acpi_map_more [OF m]
  show ?case using "1.prems" "1.IH" m more
    by (subst (asm) acpi_search.simps) (auto simp: Let_def split: if_splits)
qed

lemma acpi_find_more: "acpi_find_table signature s = Some (h, t) \<Longrightarrow> paging.more t = paging.more s"
  by (auto simp: acpi_find_table_def Let_def split: if_splits dest: acpi_search_more)

lemma acpi_find_acpi: "acpi_find_table signature s = Some (h, t) \<Longrightarrow> acpi t = acpi s"
  by (drule acpi_find_more) (rule paging_more_machine)

text \<open>The look-ups change only the two table pointers.\<close>

lemma locate_fields:
  "acpi_locate_fadt e a b s = Some t \<Longrightarrow> rsdp (acpi t) = rsdp (acpi s) \<and> acpi_on (acpi t) = acpi_on (acpi s)"
  "acpi_locate_madt e a b s = Some t \<Longrightarrow> rsdp (acpi t) = rsdp (acpi s) \<and> acpi_on (acpi t) = acpi_on (acpi s)"
  by (auto simp: acpi_locate_fadt_def acpi_locate_madt_def dest!: acpi_find_acpi)

lemma acpi_tables_fields:
  "acpi_tables e s = Some t \<Longrightarrow> rsdp (acpi t) = rsdp (acpi s) \<and> acpi_on (acpi t)"
  by (auto simp: acpi_tables_def Let_def split: bind_splits dest!: locate_fields)

lemma acpi_root_fields:
  "acpi_root r s = Inl t \<Longrightarrow> acpi_on (acpi t) = acpi_on (acpi s)"
  "acpi_root r s = Inr t \<Longrightarrow> rsdp (acpi t) = rsdp (acpi s)"
  using acpi_map_more [of _ s, THEN paging_more_machine]
  by (auto simp: acpi_root_def Let_def split: if_splits prod.splits)

section \<open>The root pointer\<close>

lemma klog_kmem [simp]: "kmem (klog m s) = kmem s" "kmem (klog_num a b v c s) = kmem s"
  by (simp_all add: klog_def klog_num_def)

definition rsdp_valid :: "boot_env \<Rightarrow> bytes \<Rightarrow> u64 \<Rightarrow> bool" where
  "rsdp_valid e m r \<longleftrightarrow> strncmp r (lit_rsdp e) 8 m = 0
     \<and> acpi_checksum_valid r (if rsdp_revision m r = 0 then 20 else ucast (rsdp_length m r)) m"

lemma use_rsdp_cases:
  assumes "acpi_use_rsdp e r s = Some t"
  shows "acpi_on (acpi t) = acpi_on (acpi s) \<or> rsdp (acpi t) = r \<and> rsdp_valid e (kmem s) r"
  using assms
  by (auto simp: acpi_use_rsdp_def rsdp_valid_def Let_def split: if_splits sum.splits
      dest!: acpi_root_fields acpi_tables_fields)

lemma acpi_init_cases:
  assumes "acpi_init e hhdm_response rsdp_response s = Some t"
  shows "acpi_on (acpi t) = acpi_on (acpi s) \<or>
    (\<exists>pa s1 s2. hhdm_response \<noteq> None \<and> rsdp_response = Some pa \<and> pa \<noteq> 0 \<and> console.more s1 = console.more s
      \<and> acpi_map_physical_to_virtual pa s1 = (rsdp (acpi t), s2) \<and> rsdp (acpi t) \<noteq> 0 \<and> rsdp_valid e (kmem s2) (rsdp (acpi t)))"
proof (cases "hhdm_response = None \<or> rsdp_response = None \<or> rsdp_response = Some 0")
  case True
  with assms show ?thesis by (auto simp: acpi_init_def Let_def split: if_splits)
next
  case False
  then obtain pa off where pa: "rsdp_response = Some pa" "pa \<noteq> 0" "hhdm_response = Some off" by auto
  define s1 where "s1 = klog_num ''[ACPI] RSDP physical address: '' 16 pa ''\<newline>''
    (klog ''[ACPI] RSDP address reported by Limine'' (klog ''[ACPI] Initializing ACPI...'' s))"
  obtain r s2 where m: "acpi_map_physical_to_virtual pa s1 = (r, s2)" by fastforce
  have a: "acpi s2 = acpi s" using paging_more_machine [OF acpi_map_more [OF m]] by (simp add: s1_def)
  have more: "console.more s1 = console.more s" by (simp add: s1_def)
  let ?s4 = "klog_num ''[ACPI] Calculated RSDP virtual address: '' 16 r ''\<newline>'' s2"
  have init: "acpi_init e hhdm_response rsdp_response s =
      (if r = 0 then Some (klog ''[ACPI] ERROR: acpi_map_physical_to_virtual failed for RSDP address!'' ?s4)
       else acpi_use_rsdp e r ?s4)"
    using pa m by (simp add: acpi_init_def Let_def s1_def)
  show ?thesis
  proof (cases "r = 0")
    case True
    with assms init a show ?thesis by auto
  next
    case False
    with assms init have "acpi_use_rsdp e r ?s4 = Some t" by simp
    from use_rsdp_cases [OF this] False pa m more show ?thesis by (auto simp: a)
  qed
qed

end
