(* ===== verification/Cpu_Features.thy ===== *)
theory Cpu_Features
  imports Kernel_State Serial
begin

text \<open>
  The rest of simd.c: what \<open>cpuid\<close> says about the processor (vendor, brand string, instruction set
  extensions), the report printed from it, and the enabling of SSE in the control registers.
\<close>

section \<open>Vendor and brand\<close>

definition le4 :: "u32 \<Rightarrow> u8 list" where
  "le4 w = [ucast w, ucast (drop_bit 8 w), ucast (drop_bit 16 w), ucast (drop_bit 24 w)]"

definition cpuid_get_max_leaf :: "boot_env \<Rightarrow> u32" where
  "cpuid_get_max_leaf e = r_eax (cpuid e 0 0)"

text \<open>The static buffer, filled by the first call.\<close>

definition get_cpu_vendor :: "boot_env \<Rightarrow> 'a kernel_scheme \<Rightarrow> u8 list \<times> 'a kernel_scheme" where
  "get_cpu_vendor e s =
     (case vendor s of
        Some v \<Rightarrow> (v, s)
      | None \<Rightarrow>
          let r = cpuid e 0 0;
              v = le4 (r_ebx r) @ le4 (r_edx r) @ le4 (r_ecx r) @ [0]
          in (v, s\<lparr>vendor := Some v\<rparr>))"

text \<open>
  The compaction runs in place: \<open>src\<close> reads, \<open>dst\<close> writes, \<open>prev\<close> is
  \<open>prev_space\<close>.
\<close>

partial_function (option) squeeze_loop ::
  "u64 \<Rightarrow> u64 \<Rightarrow> u64 \<Rightarrow> bool \<Rightarrow> bytes \<Rightarrow> (u64 \<times> bytes) option" where
  "squeeze_loop brand src dst prev m =
     (if m src \<noteq> 0
      then if m src = 32
           then if \<not> prev \<and> dst \<noteq> brand
                then squeeze_loop brand (src + 1) (dst + 1) True (m(dst := 32))
                else squeeze_loop brand (src + 1) dst True m
           else squeeze_loop brand (src + 1) (dst + 1) False (m(dst := m src))
      else Some (dst, m))"

text \<open>\<open>strcpy\<close> here copies a literal; it does nothing for a null destination.\<close>

definition get_cpu_brand_string :: "boot_env \<Rightarrow> u64 \<Rightarrow> bytes \<Rightarrow> bytes option" where
  "get_cpu_brand_string e brand m =
     (if r_eax (cpuid e 0x80000000 0) < 0x80000004
      then Some (if brand = 0 then m else poke m brand (str_bytes ''Brand string not supported'' @ [0]))
      else let (ptr, m1) = for_up 0x80000002 (0x80000004 + 1) (\<lambda>i (ptr, m).
                 let r = cpuid e i 0
                 in (ptr + 16, store32 (ptr + 12) (r_edx r) (store32 (ptr + 8) (r_ecx r)
                      (store32 (ptr + 4) (r_ebx r) (store32 ptr (r_eax r) m))))) (brand, m);
               m2 = m1(ptr := 0)
           in map_option (\<lambda>(dst, m3). m3(dst := 0)) (squeeze_loop brand brand brand False m2))"

section \<open>Instruction set extensions\<close>

definition check_sse_support :: "boot_env \<Rightarrow> bool" where
  "check_sse_support e = (if cpuid_get_max_leaf e < 1 then False else r_edx (cpuid e 1 0) AND push_bit 25 1 \<noteq> 0)"

definition check_sse2_support :: "boot_env \<Rightarrow> bool" where
  "check_sse2_support e = (r_edx (cpuid e 1 0) AND push_bit 26 1 \<noteq> 0)"

definition check_sse3_support :: "boot_env \<Rightarrow> bool" where
  "check_sse3_support e = (r_ecx (cpuid e 1 0) AND push_bit 0 1 \<noteq> 0)"

definition check_ssse3_support :: "boot_env \<Rightarrow> bool" where
  "check_ssse3_support e = (r_ecx (cpuid e 1 0) AND push_bit 9 1 \<noteq> 0)"

definition check_sse4_1_support :: "boot_env \<Rightarrow> bool" where
  "check_sse4_1_support e = (r_ecx (cpuid e 1 0) AND push_bit 19 1 \<noteq> 0)"

definition check_sse4_2_support :: "boot_env \<Rightarrow> bool" where
  "check_sse4_2_support e = (r_ecx (cpuid e 1 0) AND push_bit 20 1 \<noteq> 0)"

definition check_avx_support :: "boot_env \<Rightarrow> bool" where
  "check_avx_support e =
     (if r_ecx (cpuid e 1 0) AND push_bit 27 1 \<noteq> 0 \<and> r_ecx (cpuid e 1 0) AND push_bit 28 1 \<noteq> 0
      then xcr0 e AND 0x6 = 0x6 else False)"

definition check_avx2_support :: "boot_env \<Rightarrow> bool" where
  "check_avx2_support e =
     (if r_eax (cpuid e 0x80000000 0) < 7 then False
      else check_avx_support e \<and> r_ebx (cpuid e 7 0) AND push_bit 5 1 \<noteq> 0)"

datatype simd_level = SIMD_NONE | SIMD_MMX | SIMD_SSE | SIMD_SSE2 | SIMD_SSE3 | SIMD_SSSE3
  | SIMD_SSE4_1 | SIMD_SSE4_2 | SIMD_AVX | SIMD_AVX2

text \<open>The order of the enumerators, by the integers the C enumeration gives them.\<close>

primrec simd_value :: "simd_level \<Rightarrow> nat" where
  "simd_value SIMD_NONE = 0"
| "simd_value SIMD_MMX = 1"
| "simd_value SIMD_SSE = 2"
| "simd_value SIMD_SSE2 = 3"
| "simd_value SIMD_SSE3 = 4"
| "simd_value SIMD_SSSE3 = 5"
| "simd_value SIMD_SSE4_1 = 6"
| "simd_value SIMD_SSE4_2 = 7"
| "simd_value SIMD_AVX = 8"
| "simd_value SIMD_AVX2 = 9"

lemma simd_value_inject: "simd_value x = simd_value y \<Longrightarrow> x = y"
  by (cases x; cases y) simp_all

instantiation simd_level :: linorder
begin

definition less_eq_simd_level :: "simd_level \<Rightarrow> simd_level \<Rightarrow> bool" where
  "less_eq_simd_level x y \<longleftrightarrow> simd_value x \<le> simd_value y"

definition less_simd_level :: "simd_level \<Rightarrow> simd_level \<Rightarrow> bool" where
  "less_simd_level x y \<longleftrightarrow> simd_value x < simd_value y"

instance
  by standard (auto simp: less_eq_simd_level_def less_simd_level_def intro: simd_value_inject)

end

definition detect_simd_capabilities :: "boot_env \<Rightarrow> simd_level" where
  "detect_simd_capabilities e =
     (if check_avx2_support e then SIMD_AVX2
      else if check_avx_support e then SIMD_AVX
      else if check_sse4_2_support e then SIMD_SSE4_2
      else if check_sse4_1_support e then SIMD_SSE4_1
      else if check_ssse3_support e then SIMD_SSSE3
      else if check_sse3_support e then SIMD_SSE3
      else if check_sse2_support e then SIMD_SSE2
      else if check_sse_support e then SIMD_SSE
      else SIMD_NONE)"

text \<open>The detection reports the greatest level whose check succeeds. MMX is never tested.\<close>

primrec level_check :: "boot_env \<Rightarrow> simd_level \<Rightarrow> bool" where
  "level_check e SIMD_NONE = True"
| "level_check e SIMD_MMX = False"
| "level_check e SIMD_SSE = check_sse_support e"
| "level_check e SIMD_SSE2 = check_sse2_support e"
| "level_check e SIMD_SSE3 = check_sse3_support e"
| "level_check e SIMD_SSSE3 = check_ssse3_support e"
| "level_check e SIMD_SSE4_1 = check_sse4_1_support e"
| "level_check e SIMD_SSE4_2 = check_sse4_2_support e"
| "level_check e SIMD_AVX = check_avx_support e"
| "level_check e SIMD_AVX2 = check_avx2_support e"

lemma detect_greatest:
  "level_check e (detect_simd_capabilities e)" "level_check e l \<Longrightarrow> l \<le> detect_simd_capabilities e"
  by (simp add: detect_simd_capabilities_def)
    (cases l; simp add: detect_simd_capabilities_def less_eq_simd_level_def)

lemma detect_unique:
  "level_check e k \<Longrightarrow> (\<And>l. level_check e l \<Longrightarrow> l \<le> k) \<Longrightarrow> detect_simd_capabilities e = k"
  using detect_greatest [of e] by (blast intro: order.antisym)

primrec simd_level_to_string :: "simd_level \<Rightarrow> string" where
  "simd_level_to_string SIMD_NONE = ''None''"
| "simd_level_to_string SIMD_MMX = ''MMX''"
| "simd_level_to_string SIMD_SSE = ''SSE''"
| "simd_level_to_string SIMD_SSE2 = ''SSE2''"
| "simd_level_to_string SIMD_SSE3 = ''SSE3''"
| "simd_level_to_string SIMD_SSSE3 = ''SSSE3''"
| "simd_level_to_string SIMD_SSE4_1 = ''SSE4.1''"
| "simd_level_to_string SIMD_SSE4_2 = ''SSE4.2''"
| "simd_level_to_string SIMD_AVX = ''AVX''"
| "simd_level_to_string SIMD_AVX2 = ''AVX2''"

section \<open>The report\<close>

text \<open>Vendor and brand are passed as formats, not as arguments.\<close>

definition print_cpu_features :: "boot_env \<Rightarrow> 'a kernel_scheme \<Rightarrow> 'a kernel_scheme option" where
  "print_cpu_features e s =
     (case get_cpu_brand_string e (brand_buf e) (kmem s) of
        None \<Rightarrow> None
      | Some m \<Rightarrow>
          (case prints [(''\<newline>=== CPU INFORMATION ===\<newline>'', []), (''Vendor: '', [])] (s\<lparr>kmem := m\<rparr>) of
             None \<Rightarrow> None
           | Some s1 \<Rightarrow>
               let (v, s2) = get_cpu_vendor e s1
               in case prints [(text_of v, []), (''\<newline>Brand: '', [])] s2 of
                    None \<Rightarrow> None
                  | Some s3 \<Rightarrow>
                      (case text_at (kmem s3) (brand_buf e) of
                         None \<Rightarrow> None
                       | Some brand \<Rightarrow>
                           prints ([(brand, []), (''\<newline>'', []), (''Max CPUID leaf: 0x'', []),
                             (num_text 16 (ucast (cpuid_get_max_leaf e)), []), (''\<newline>'', []), (''SIMD Support: '', []),
                             (simd_level_to_string (detect_simd_capabilities e), []), (''\<newline>'', []), (''Features: '', [])]
                            @ (if check_sse_support e then [(''SSE '', [])] else [])
                            @ (if check_sse2_support e then [(''SSE2 '', [])] else [])
                            @ (if check_sse3_support e then [(''SSE3 '', [])] else [])
                            @ (if check_ssse3_support e then [(''SSSE3 '', [])] else [])
                            @ (if check_sse4_1_support e then [(''SSE4.1 '', [])] else [])
                            @ (if check_sse4_2_support e then [(''SSE4.2 '', [])] else [])
                            @ (if check_avx_support e then [(''AVX '', [])] else [])
                            @ (if check_avx2_support e then [(''AVX2 '', [])] else [])
                            @ [(''\<newline>======================\<newline>'', [])]) s3)))"

section \<open>Enabling SSE\<close>

definition enable_sse :: "'a kernel_scheme \<Rightarrow> 'a kernel_scheme" where
  "enable_sse s =
     (let c0 = cr0 s AND NOT (push_bit 2 1);
          s1 = s\<lparr>cr0 := c0 OR push_bit 1 1\<rparr>;
          c4 = cr4 s1 OR push_bit 9 1;
          s2 = s1\<lparr>cr4 := c4 OR push_bit 10 1\<rparr>
      in s2\<lparr>mxcsr := 0x1F80\<rparr>)"

definition enable_sse_safe :: "boot_env \<Rightarrow> 'a kernel_scheme \<Rightarrow> int \<times> 'a kernel_scheme" where
  "enable_sse_safe e s =
     (if \<not> check_sse_support e then (- 1, klog ''[SIMD] ERROR: SSE not supported by CPU!\<newline>'' s)
      else (0, klog ''[SIMD] SSE enabled successfully\<newline>'' (enable_sse s)))"

end
