(* ===== verification/Brand_String.thy ===== *)
theory Brand_String
  imports Cpu_Features
begin

text \<open>
  What \<open>get_cpu_brand_string\<close> leaves in the buffer. The specification of the in-place compaction is
  the list function \<open>squeeze\<close>; it is characterised by the words of the text, which it keeps, and by
  the spaces between them, of which it keeps one.
\<close>

section \<open>Words\<close>

abbreviation SPACE :: u8 where "SPACE \<equiv> 32"

fun squeeze :: "bool \<Rightarrow> bool \<Rightarrow> u8 list \<Rightarrow> u8 list" where
  "squeeze prev started [] = []"
| "squeeze prev started (c # xs) =
     (if c = SPACE then (if \<not> prev \<and> started then SPACE # squeeze True True xs else squeeze True started xs)
      else c # squeeze False True xs)"

function split_words :: "u8 list \<Rightarrow> u8 list list" where
  "split_words [] = []"
| "split_words (c # xs) =
     (if c = SPACE then split_words xs
      else (c # takeWhile (\<lambda>x. x \<noteq> SPACE) xs) # split_words (dropWhile (\<lambda>x. x \<noteq> SPACE) xs))"
  by pat_completeness auto
termination
  by (relation "measure length") (simp_all add: le_imp_less_Suc length_dropWhile_le)

text \<open>No space at the front and no two in a row.\<close>

fun single_spaced :: "bool \<Rightarrow> u8 list \<Rightarrow> bool" where
  "single_spaced after_space [] \<longleftrightarrow> True"
| "single_spaced after_space (c # xs) \<longleftrightarrow> (c = SPACE \<longrightarrow> \<not> after_space) \<and> single_spaced (c = SPACE) xs"

lemma squeeze_takeWhile: "takeWhile (\<lambda>x. x \<noteq> SPACE) (squeeze False True xs) = takeWhile (\<lambda>x. x \<noteq> SPACE) xs"
  by (induction xs) simp_all

lemma squeeze_words:
  "split_words (squeeze prev started xs) = split_words xs \<and>
   split_words (dropWhile (\<lambda>x. x \<noteq> SPACE) (squeeze False True xs)) = split_words (dropWhile (\<lambda>x. x \<noteq> SPACE) xs)"
  by (induction xs arbitrary: prev started) (simp_all add: squeeze_takeWhile)

lemma squeeze_single_spaced:
  "single_spaced (prev \<or> \<not> started) (squeeze prev started xs)"
proof (induction xs arbitrary: prev started)
  case (Cons c xs)
  show ?case using Cons.IH [of True True] Cons.IH [of True started] Cons.IH [of False True] by simp
qed simp

lemma squeeze_no_nul: "0 \<notin> set xs \<Longrightarrow> 0 \<notin> set (squeeze prev started xs)"
  by (induction prev started xs rule: squeeze.induct) (auto split: if_splits)

lemma squeeze_length: "length (squeeze prev started xs) \<le> length xs"
  by (induction prev started xs rule: squeeze.induct) auto

section \<open>The compaction in memory\<close>

lemma squeeze_loop_run:
  assumes "cstr m (brand + of_nat i) xs" and "j \<le> i" and "i + length xs < 2 ^ 64"
  shows "squeeze_loop brand (brand + of_nat i) (brand + of_nat j) prev m
    = (let out = squeeze prev (j \<noteq> 0) xs in Some (brand + of_nat (j + length out), poke m (brand + of_nat j) out))"
  using assms
proof (induction xs arbitrary: m i j prev)
  case Nil
  then show ?case by (subst squeeze_loop.simps) simp
next
  case (Cons c xs)
  let ?src = "brand + of_nat i :: u64" and ?dst = "brand + of_nat j :: u64"
  have m: "m ?src = c" "c \<noteq> 0" using Cons.prems(1) by simp_all
  have nz: "?dst = brand \<longleftrightarrow> j = 0"
  proof -
    have j: "j < 2 ^ 64" using Cons.prems(2,3) by simp
    have "?dst = brand \<longleftrightarrow> (of_nat j :: u64) = 0" by simp
    also have "\<dots> \<longleftrightarrow> j = 0" using unat_of_nat_u64 [OF j] unat_eq_zero [of "of_nat j :: u64"] by simp
    finally show ?thesis .
  qed
  have keep: "cstr (m(?dst := x)) (brand + of_nat (Suc i)) xs" for x
  proof -
    have "brand + of_nat (Suc i) + of_nat k \<noteq> ?dst" if k: "k \<le> length xs" for k
    proof
      assume "brand + of_nat (Suc i) + of_nat k = ?dst"
      then have "(of_nat (Suc i + k) :: u64) = of_nat j" by (simp add: algebra_simps)
      then have "unat (of_nat (Suc i + k) :: u64) = unat (of_nat j :: u64)" by simp
      then have "Suc i + k = j" using k Cons.prems(2,3) by (simp only: unat_of_nat_u64 list.size)
      with Cons.prems(2) show False by simp
    qed
    then show ?thesis using Cons.prems(1) by (subst cstr_upd) (simp_all add: add.assoc add.commute [of 1])
  qed
  have plain: "cstr m (brand + of_nat (Suc i)) xs" using Cons.prems(1) by (simp add: add.assoc add.commute [of 1])
  have lt: "Suc i + length xs < 2 ^ 64" using Cons.prems(3) by simp
  have src: "?src + 1 = brand + of_nat (Suc i)" and dst: "?dst + 1 = brand + of_nat (Suc j)" by simp_all
  have le: "Suc j \<le> Suc i" "j \<le> Suc i" using Cons.prems(2) by simp_all
  note IH = Cons.IH [OF keep le(1) lt] Cons.IH [OF plain le(2) lt]
  consider "c \<noteq> SPACE" | "c = SPACE" "\<not> prev" "j \<noteq> 0" | "c = SPACE" "prev \<or> j = 0" by blast
  then show ?case
  proof cases
    case 1
    then have "squeeze_loop brand ?src ?dst prev m
      = squeeze_loop brand (brand + of_nat (Suc i)) (brand + of_nat (Suc j)) False (m(?dst := c))"
      using m by (subst squeeze_loop.simps) (simp only: src dst simp_thms if_True if_False)
    with 1 IH(1) [of False c] show ?thesis by (simp add: Let_def fun_upd_def ac_simps)
  next
    case 2
    then have "squeeze_loop brand ?src ?dst prev m
      = squeeze_loop brand (brand + of_nat (Suc i)) (brand + of_nat (Suc j)) True (m(?dst := SPACE))"
      using m nz by (subst squeeze_loop.simps) (simp only: src dst simp_thms if_True if_False)
    with 2 IH(1) [of True SPACE] show ?thesis by (simp add: Let_def fun_upd_def ac_simps)
  next
    case 3
    then have "squeeze_loop brand ?src ?dst prev m = squeeze_loop brand (brand + of_nat (Suc i)) ?dst True m"
      using m nz by (subst squeeze_loop.simps) (auto simp only: src dst simp_thms if_True if_False)
    with 3 IH(2) [of True] show ?thesis by (auto simp: Let_def)
  qed
qed

section \<open>The three leaves\<close>

text \<open>The 48 bytes of the brand string as the processor delivers them.\<close>

definition regs_bytes :: "cpuid_regs \<Rightarrow> u8 list" where
  "regs_bytes r = le4 (r_eax r) @ le4 (r_ebx r) @ le4 (r_ecx r) @ le4 (r_edx r)"

definition brand_bytes :: "boot_env \<Rightarrow> u8 list" where
  "brand_bytes e = regs_bytes (cpuid e 0x80000002 0) @ regs_bytes (cpuid e 0x80000003 0) @ regs_bytes (cpuid e 0x80000004 0)"

lemma length_regs_bytes [simp]: "length (le4 v) = 4" "length (regs_bytes r) = 16" "length (brand_bytes e) = 48"
  by (simp_all add: brand_bytes_def regs_bytes_def le4_def)

lemma store32_poke: "store32 a v m = poke m a (le4 v)"
proof
  fix x
  have lt: "x - a < 4 \<longleftrightarrow> x = a \<or> x = a + 1 \<or> x = a + 2 \<or> x = a + 3"
  proof -
    have "y < 4 \<longleftrightarrow> y = 0 \<or> y = 1 \<or> y = 2 \<or> y = 3" for y :: u64
    proof -
      have "y < 4 \<longleftrightarrow> unat y \<in> {0, 1, 2, 3}" by (auto simp: word_less_nat_alt)
      also have "\<dots> \<longleftrightarrow> y = 0 \<or> y = 1 \<or> y = 2 \<or> y = 3" by (auto simp: word_unat_eq_iff)
      finally show ?thesis .
    qed
    from this [of "x - a"] show ?thesis by (auto simp: diff_eq_eq add.commute)
  qed
  then show "store32 a v m x = poke m a (le4 v) x"
    by (auto simp: store32_def le4_def)
qed

lemma store_regs:
  "store32 (p + 12) (r_edx r) (store32 (p + 8) (r_ecx r) (store32 (p + 4) (r_ebx r) (store32 p (r_eax r) m)))
    = poke m p (regs_bytes r)"
  by (simp add: store32_poke regs_bytes_def poke_append add.assoc)

lemma brand_loop:
  "for_up 0x80000002 (0x80000004 + 1) (\<lambda>i (ptr, m).
      let r = cpuid e i 0
      in (ptr + 16, store32 (ptr + 12) (r_edx r) (store32 (ptr + 8) (r_ecx r)
           (store32 (ptr + 4) (r_ebx r) (store32 ptr (r_eax r) m))))) (brand, m)
    = (brand + 48, poke m brand (brand_bytes e))"
  by (simp add: for_up_step store_regs brand_bytes_def poke_append Let_def add.assoc)

lemma poke_upd: "(poke m p xs)(p + of_nat (length xs) := x) = poke m p (xs @ [x])"
  by (simp add: poke_append)

lemma cstr_prefix:
  assumes "length bs < 2 ^ 64 - 1"
  shows "cstr (poke m p (bs @ [0])) p (takeWhile (\<lambda>b. b \<noteq> 0) bs)"
proof -
  let ?xs = "takeWhile (\<lambda>b. b \<noteq> 0) bs" and ?bs = "bs @ [0 :: u8]"
  have l: "length ?xs \<le> length bs" by (rule length_takeWhile_le)
  have len: "length ?bs < 2 ^ 64" using assms by simp
  have "peek (poke m p ?bs) p (length ?xs) = ?xs"
    using l len poke_nth [OF _ len, of _ m p]
    by (intro nth_equalityI) (simp_all add: nth_peek nth_append takeWhile_nth)
  moreover have "?bs ! length ?xs = 0"
  proof (cases "length ?xs < length bs")
    case True
    then show ?thesis using nth_length_takeWhile [OF True] by (simp add: nth_append)
  next
    case False
    with l show ?thesis by (simp add: nth_append)
  qed
  then have "poke m p ?bs (p + of_nat (length ?xs)) = 0" using l poke_nth [OF _ len, of "length ?xs" m p] by simp
  moreover have "0 \<notin> set ?xs" by (auto dest: set_takeWhileD)
  ultimately show ?thesis by (simp add: cstr_iff)
qed

lemma brand_string_ok:
  fixes e :: boot_env
  assumes "\<not> r_eax (cpuid e 0x80000000 0) < 0x80000004"
  defines "out \<equiv> squeeze False False (takeWhile (\<lambda>b. b \<noteq> 0) (brand_bytes e))"
  shows "\<exists>m'. get_cpu_brand_string e brand m = Some m' \<and> cstr m' brand out
    \<and> (\<forall>a. 49 \<le> a - brand \<longrightarrow> m' a = m a)"
proof -
  let ?xs = "takeWhile (\<lambda>b. b \<noteq> 0) (brand_bytes e)"
  let ?m2 = "poke m brand (brand_bytes e @ [0])"
  have lcs: "length ?xs \<le> 48" using length_takeWhile_le [of _ "brand_bytes e"] by simp
  have lout: "length out \<le> 48" using squeeze_length [of False False ?xs] lcs by (simp add: out_def)
  have c: "cstr ?m2 (brand + of_nat 0) ?xs" using cstr_prefix [of "brand_bytes e" m brand] by simp
  have "squeeze_loop brand brand brand False ?m2 = Some (brand + of_nat (length out), poke ?m2 brand out)"
    using squeeze_loop_run [OF c le_refl, of False] lcs by (simp add: Let_def out_def)
  moreover have "(poke m brand (brand_bytes e))(brand + 48 := 0) = ?m2"
    using poke_upd [of m brand "brand_bytes e" 0] by simp
  ultimately have run: "get_cpu_brand_string e brand m
      = Some ((poke ?m2 brand out)(brand + of_nat (length out) := 0))"
    using assms(1) unfolding get_cpu_brand_string_def brand_loop by (simp add: Let_def)
  have "0 \<notin> set out" unfolding out_def by (rule squeeze_no_nul) (auto dest: set_takeWhileD)
  then have "cstr ((poke ?m2 brand out)(brand + of_nat (length out) := 0)) brand out"
    using lout by (intro cstr_poke) simp_all
  moreover have "((poke ?m2 brand out)(brand + of_nat (length out) := 0)) a = m a" if a: "49 \<le> a - brand" for a
  proof -
    have lw: "(of_nat (length out) :: u64) \<le> 48" using lout by (simp add: word_le_nat_alt unat_of_nat_u64)
    have 1: "a \<noteq> brand + of_nat (length out)"
    proof
      assume "a = brand + of_nat (length out)"
      with a lw show False by (simp add: word_le_nat_alt)
    qed
    have "(of_nat (length out) :: u64) \<le> a - brand" using lw a by (simp add: word_le_nat_alt)
    then have "poke ?m2 brand out a = ?m2 a" using lout by (intro poke_other) simp_all
    also have "\<dots> = m a" using a by (intro poke_other) simp_all
    finally show ?thesis using 1 by simp
  qed
  ultimately show ?thesis using run by blast
qed

end
