(* ===== verification/Firmware_Properties.thy ===== *)
theory Firmware_Properties
  imports Acpi_Lemmas Brand_String Smp_Properties
begin

text \<open>
  The properties of simd.c and acpi.c. The sample memory repeats one 8-byte pattern, so that every
  table entry is present and leads to another such table: every page is mapped, and tables with
  valid checksums are to be found in it.
\<close>

section \<open>A patterned memory\<close>

definition pattern :: bytes where
  "pattern a = [45, 0, 0, 0, 0, 0x42, 0x78, 0x78] ! (unat a mod 8)"

definition sample_firmware :: machine where
  "sample_firmware = sample_machine\<lparr>kmem := pattern\<rparr>"

lemma unat_add_mod8: "unat (a + k :: u64) mod 8 = (unat a mod 8 + unat k) mod 8"
proof -
  have "unat (a + k) mod 8 = (unat a + unat k) mod 8" by (simp add: unat_word_ariths mod_mod_cancel)
  then show ?thesis by (simp add: mod_add_left_eq)
qed

lemma unat_times8_mod8: "unat (8 * i :: u64) mod 8 = 0"
  by (simp add: unat_word_ariths mod_mod_cancel)

lemma pattern_load64: "unat a mod 8 = 0 \<Longrightarrow> load64 pattern a = 0x787842000000002D"
  by (simp add: load64_def pattern_def unat_add_mod8 upt_rec)

lemma pattern_entry: "unat t mod 8 = 0 \<Longrightarrow> entry_get pattern t i = 0x787842000000002D"
  using unat_add_mod8 [of t "8 * i"] unat_times8_mod8 [of i]
  by (simp add: entry_get_def pattern_load64)

lemma sample_firmware_fields [simp]:
  "kmem sample_firmware = pattern" "paging_hhdm sample_firmware = Some sample_hhdm" "cr3 sample_firmware = 0"
  "acpi_on (acpi sample_firmware) = False"
  by (simp_all add: sample_firmware_def) (simp_all add: sample_machine_def tasking.defs vmm.defs heap.defs)

lemma pattern_mapped:
  assumes "kmem s = pattern" and "paging_hhdm s = Some sample_hhdm" and "cr3 s = 0"
  shows "paging_is_mapped va s"
proof -
  have p: "is_present 0x787842000000002D" by (simp add: PAGING_PRESENT_def)
  have n: "(0x787842000000002D AND PAGE_MASK) + sample_hhdm = 0x7877C20000000000"
    by (simp add: PAGE_MASK_def sample_hhdm_def)
  have e: "entry_get pattern sample_hhdm i = 0x787842000000002D" "entry_get pattern 0x7877C20000000000 i = 0x787842000000002D" for i
    by (rule pattern_entry, simp add: sample_hhdm_def)+
  show ?thesis using assms p by (simp add: paging_is_mapped_def paging_get_cr3_def get_next_table_def e n Let_def)
qed

lemma pattern_acpi_mapped:
  "kmem s = pattern \<Longrightarrow> paging_hhdm s = Some sample_hhdm \<Longrightarrow> cr3 s = 0 \<Longrightarrow> acpi_mapped s pa"
  by (simp add: acpi_mapped_def pattern_mapped)

text \<open>Zeros are everywhere, so that every string ends, and every look-up returns.\<close>

lemma strlen_loop_ends: "m (p + k + of_nat n) = 0 \<Longrightarrow> strlen_loop p k m \<noteq> None"
proof (induction n arbitrary: k)
  case 0
  then show ?case by (subst strlen_loop.simps) simp
next
  case (Suc n)
  then have "strlen_loop p (k + 1) m \<noteq> None" using Suc.IH [of "k + 1"] by (simp add: algebra_simps)
  then show ?case by (subst strlen_loop.simps) simp
qed

lemma pattern_text: "text_at pattern h \<noteq> None"
proof -
  let ?k = "9 - unat h mod 8"
  have k: "unat (of_nat ?k :: u64) = ?k" by (rule unat_of_nat_u64) simp
  have "unat (h + of_nat ?k) mod 8 = (unat h mod 8 + ?k) mod 8" by (simp only: unat_add_mod8 k)
  also have "\<dots> = 1" using mod_less_divisor [of 8 "unat h"] by simp
  finally have "pattern (h + 0 + of_nat ?k) = 0" by (simp add: pattern_def)
  from strlen_loop_ends [where m = pattern and p = h and k = 0 and n = ?k, OF this] show ?thesis by (simp add: text_at_def strlen_def)
qed

lemma pattern_find:
  fixes s :: "'a machine_scheme"
  assumes "kmem s = pattern" and "paging_hhdm s = Some sample_hhdm" and "cr3 s = 0" and "\<not> use_xsdt (acpi s)"
  shows "\<exists>h t. acpi_find_table 5 s = Some (h, t) \<and> console.more t = console.more s"
proof -
  have "peek pattern 5 4 = [pattern 5, pattern 6, pattern 7, pattern 8]" by (simp add: eval_nat_numeral)
  then have sig: "0 \<notin> set (peek (kmem s) 5 4)" using assms(1) by (simp add: pattern_def)
  have m: "acpi_mapped s pa" for pa using assms(1-3) by (rule pattern_acpi_mapped)
  have "\<exists>h t. acpi_search 0 n (\<lambda>m. rsdt_table m (rsdt (acpi s))) 5 s = Some (h, t) \<and> console.more t = console.more s" for n :: u32
  proof -
    let ?l = "map (\<lambda>j. acpi_va s (rsdt_table (kmem s) (rsdt (acpi s)) (of_nat j))) [unat (0 :: u32)..<unat n]"
    note run = acpi_search_find [of s 5 n "\<lambda>m. rsdt_table m (rsdt (acpi s))" 0, OF sig m]
    show ?thesis
    proof (cases "find (acpi_table (kmem s) 5) ?l")
      case None
      then show ?thesis using run by simp
    next
      case (Some h)
      from pattern_text [of h] obtain z where "text_at (kmem s) h = Some z" using assms(1) by auto
      then show ?thesis using run Some by simp
    qed
  qed
  then show ?thesis using assms(4) by (auto simp: acpi_find_table_def Let_def)
qed

section \<open>Wide memory routines\<close>

text \<open>C37. The wide copy and fill do what the plain ones do: on regions that do not overlap memcpy_simd
  leaves the same memory and returns the same pointer as memcpy, and memset_simd as memset, for
  every length and alignment.\<close>

theorem wide_routines_agree:
  assumes "regions_apart dst src n"
  shows "memcpy_simd dst src n m = memcpy dst src n m \<and> memset_simd p c k m = memset p c k m"
  using memcpy_simd_memcpy [OF assms] memset_simd_memset by blast

theorem wide_routines_agree_witness:
  "memcpy_simd 0x1003 0x2001 0x40 (\<lambda>a. ucast a) = memcpy 0x1003 0x2001 0x40 (\<lambda>a. ucast a)"
proof -
  have "regions_apart 0x1003 0x2001 0x40" by (simp add: regions_apart_def word_le_nat_alt)
  from wide_routines_agree [OF this] show ?thesis by blast
qed

section \<open>The brand string\<close>

text \<open>When the processor has a brand string, get_cpu_brand_string returns, writes only the 49 bytes
  of the buffer, and leaves there a terminated string with the words of the 48 bytes of the three
  leaves up to their first NUL, one space between two words and none before the first.\<close>

theorem brand_string_words:
  fixes e :: boot_env
  assumes "\<not> r_eax (cpuid e 0x80000000 0) < 0x80000004"
  shows "\<exists>m' out. get_cpu_brand_string e brand m = Some m' \<and> cstr m' brand out \<and> single_spaced True out
    \<and> split_words out = split_words (takeWhile (\<lambda>b. b \<noteq> 0) (brand_bytes e))
    \<and> (\<forall>a. 49 \<le> a - brand \<longrightarrow> m' a = m a)"
proof -
  let ?out = "squeeze False False (takeWhile (\<lambda>b. b \<noteq> 0) (brand_bytes e))"
  have "single_spaced True ?out"
    using squeeze_single_spaced [of False False "takeWhile (\<lambda>b. b \<noteq> 0) (brand_bytes e)"] by simp
  with brand_string_ok [OF assms, of brand m] squeeze_words show ?thesis by blast
qed

theorem brand_string_words_witness:
  "\<exists>m' out. get_cpu_brand_string (sample_boot_env\<lparr>cpuid := (\<lambda>l _. if l = 0x80000000 then \<lparr>r_eax = 0x80000004, r_ebx = 0, r_ecx = 0, r_edx = 0\<rparr>
        else \<lparr>r_eax = 0x41202020, r_ebx = 0x20202042, r_ecx = 0, r_edx = 0\<rparr>)\<rparr>) 0x1000 (\<lambda>_. 0) = Some m'
     \<and> cstr m' 0x1000 out \<and> split_words out = [[0x41, 0x42]]"
proof -
  let ?e = "sample_boot_env\<lparr>cpuid := (\<lambda>l _. if l = 0x80000000 then \<lparr>r_eax = 0x80000004, r_ebx = 0, r_ecx = 0, r_edx = 0\<rparr>
        else \<lparr>r_eax = 0x41202020, r_ebx = 0x20202042, r_ecx = 0, r_edx = 0\<rparr>)\<rparr>"
  have "split_words (takeWhile (\<lambda>b. b \<noteq> 0) (brand_bytes ?e)) = [[0x41, 0x42]]"
    by (simp add: brand_bytes_def regs_bytes_def le4_def)
  moreover have "\<not> r_eax (cpuid ?e 0x80000000 0) < 0x80000004" by simp
  ultimately show ?thesis using brand_string_words [of ?e "0x1000" "\<lambda>_. 0"] by auto
qed

section \<open>ACPI tables\<close>

text \<open>C36. With ACPI available and the pages of the listed tables mapped, a look-up in the extended root
  table returns the first listed table that has the signature and whose bytes sum to a multiple of
  256, and NULL when there is none; memory and tables stay as they are.\<close>

theorem find_table_returns_first:
  fixes s :: "'a machine_scheme"
  assumes "acpi_on (acpi s)" and "use_xsdt (acpi s)" and "xsdt (acpi s) \<noteq> 0" and "0 \<notin> set (peek (kmem s) signature 4)"
    and "n = unat ((ucast (sdt_length (kmem s) (xsdt (acpi s))) - 36 :: u64) div 8)"
    and "\<And>j. j < n \<Longrightarrow> acpi_mapped s (xsdt_table (kmem s) (xsdt (acpi s)) (of_nat j))"
  shows "case find (acpi_table (kmem s) signature)
        (map (\<lambda>j. acpi_va s (xsdt_table (kmem s) (xsdt (acpi s)) (of_nat j))) [0..<n]) of
      None \<Rightarrow> acpi_find_table signature s = Some (0, s)
    | Some h \<Rightarrow> \<forall>txt. text_at (kmem s) h = Some txt \<longrightarrow>
        (\<exists>t. acpi_find_table signature s = Some (h, t) \<and> console.more t = console.more s)"
proof -
  let ?n = "(ucast (sdt_length (kmem s) (xsdt (acpi s))) - SDT_HEADER_SIZE :: u64) div 8"
  let ?x = "\<lambda>m. xsdt_table m (xsdt (acpi s))"
  have n: "unat ?n = n" by (simp add: assms(5) SDT_HEADER_SIZE_def)
  have "acpi_find_table signature s = acpi_search 0 ?n ?x signature s"
    using assms(1-3) by (simp add: acpi_find_table_def Let_def)
  with acpi_search_find [of s signature ?n ?x 0] assms(4,6) show ?thesis
    by (auto simp: n split: option.splits)
qed

text \<open>ACPI becomes available only on a valid root pointer: when acpi_init turns it on, the boot
  loader gave the direct map and an address, the page of the address could be mapped, the eight
  bytes of the signature are there and the checksum of the structure is right.\<close>

theorem acpi_needs_valid_root_pointer:
  fixes s :: "'a machine_scheme"
  assumes "acpi_init e hhdm_response rsdp_response s = Some t" and "\<not> acpi_on (acpi s)" and "acpi_on (acpi t)"
  shows "\<exists>pa s1 s2. hhdm_response \<noteq> None \<and> rsdp_response = Some pa \<and> pa \<noteq> 0 \<and> console.more s1 = console.more s
    \<and> acpi_map_physical_to_virtual pa s1 = (rsdp (acpi t), s2) \<and> rsdp (acpi t) \<noteq> 0
    \<and> rsdp_valid e (kmem s2) (rsdp (acpi t))"
  using acpi_init_cases [OF assms(1)] assms(2,3) by simp

lemma machine_more_fields:
  "console.more t = console.more s \<Longrightarrow> kmem t = kmem s \<and> paging_hhdm t = paging_hhdm s \<and> cr3 t = cr3 s \<and> acpi t = acpi s"
  by (cases s, cases t) simp

definition sample_acpi_env :: boot_env where
  "sample_acpi_env = sample_boot_env\<lparr>lit_rsdp := 0x1002 + sample_hhdm, lit_fadt := 5, lit_madt := 5\<rparr>"

definition pattern_ok :: "'a machine_scheme \<Rightarrow> bool" where
  "pattern_ok s \<longleftrightarrow> kmem s = pattern \<and> paging_hhdm s = Some sample_hhdm \<and> cr3 s = 0 \<and> \<not> use_xsdt (acpi s)"

lemma sample_locate:
  assumes u: "pattern_ok u"
  shows "\<exists>t. acpi_locate_fadt sample_acpi_env a b u = Some t \<and> pattern_ok t"
    and "\<exists>t. acpi_locate_madt sample_acpi_env a b u = Some t \<and> pattern_ok t"
proof -
  obtain h t where t: "acpi_find_table 5 u = Some (h, t)" "console.more t = console.more u"
    using pattern_find [of u] u by (auto simp: pattern_ok_def)
  from machine_more_fields [OF t(2)] t(1) u
  show "\<exists>t. acpi_locate_fadt sample_acpi_env a b u = Some t \<and> pattern_ok t"
    "\<exists>t. acpi_locate_madt sample_acpi_env a b u = Some t \<and> pattern_ok t"
    by (auto simp: acpi_locate_fadt_def acpi_locate_madt_def sample_acpi_env_def pattern_ok_def)
      (simp_all add: klog_def)
qed

lemma sample_tables:
  assumes "pattern_ok s"
  shows "\<exists>t. acpi_tables sample_acpi_env s = Some t"
proof -
  let ?e = sample_acpi_env
  from sample_locate(1) [OF assms] obtain s1 where 1: "acpi_locate_fadt ?e ''[ACPI] FADT found''
      ''[ACPI] WARNING: FADT not found (ACPI shutdown/reboot unavailable)'' s = Some s1" "pattern_ok s1" by blast
  from sample_locate(2) [OF 1(2)] obtain s2 where 2: "acpi_locate_madt ?e ''[ACPI] MADT found\<newline>''
      ''[ACPI] WARNING: MADT not found (APIC might not be available)\<newline>'' s1 = Some s2" "pattern_ok s2" by blast
  then have "pattern_ok (s2\<lparr>acpi := (acpi s2)\<lparr>acpi_on := True\<rparr>\<rparr>)" by (simp add: pattern_ok_def)
  from sample_locate(2) [OF this] obtain s3 where 3: "acpi_locate_madt ?e ''[ACPI] MADT found\<newline>'' ''''
      (s2\<lparr>acpi := (acpi s2)\<lparr>acpi_on := True\<rparr>\<rparr>) = Some s3" "pattern_ok s3" by blast
  from sample_locate(1) [OF 3(2)] obtain s4 where 4: "acpi_locate_fadt ?e ''[ACPI] FADT found\<newline>''
      ''[ACPI] FADT NOT FOUND - ACPI shutdown/reboot unavailable\<newline>'' s3 = Some s4" by blast
  show ?thesis using 1(1) 2(1) 3(1) 4 by (simp add: acpi_tables_def Let_def)
qed

lemma strncmp_same: "strncmp p p n m = 0"
proof -
  have "a = b \<Longrightarrow> strncmp_loop a b n m = 0" for a b
    by (induction a b n m rule: strncmp_loop.induct) (subst strncmp_loop.simps, simp)
  then show ?thesis by (simp add: strncmp_def)
qed

lemma sample_rsdp_valid: "rsdp_valid sample_acpi_env pattern 0xFFFF800000001002"
proof -
  have "acpi_checksum_valid 0xFFFF800000001002 20 pattern"
    by (simp add: acpi_checksum_valid_def for_up_step pattern_def)
  then show ?thesis
    by (simp add: rsdp_valid_def sample_acpi_env_def sample_hhdm_def rsdp_revision_def pattern_def strncmp_same)
qed

lemma pattern_ok_klog: "pattern_ok s \<Longrightarrow> pattern_ok (klog a s)" "pattern_ok s \<Longrightarrow> pattern_ok (klog_num a b v c s)"
  by (simp_all add: pattern_ok_def) (simp_all add: klog_num_def klog_def)

lemma pattern_ok_map:
  assumes "pattern_ok s"
  shows "acpi_map_physical_to_virtual pa s = ((if pa = 0 then 0 else pa + sample_hhdm), s)"
proof -
  have "acpi_mapped s pa" using assms by (intro pattern_acpi_mapped) (simp_all add: pattern_ok_def)
  then show ?thesis using assms by (simp add: acpi_map_mapped acpi_va_def paging_physical_to_virtual_def pattern_ok_def)
qed

lemma sample_root:
  assumes "pattern_ok s"
  shows "\<exists>t. acpi_root 0xFFFF800000001002 s = Inr t \<and> pattern_ok t"
proof -
  have k: "kmem s = pattern" using assms by (simp add: pattern_ok_def)
  have v: "rsdp_revision pattern 0xFFFF800000001002 = 0" by (simp add: rsdp_revision_def pattern_def)
  have a: "rsdp_rsdt_address pattern 0xFFFF800000001002 = 0x42000000"
    by (simp add: rsdp_rsdt_address_def load32_def pattern_def upt_rec)
  have "pattern_ok (s\<lparr>acpi := (acpi s)\<lparr>rsdt := x, use_xsdt := False\<rparr>\<rparr>)" for x using assms by (simp add: pattern_ok_def)
  then have t: "pattern_ok (klog c (s\<lparr>acpi := (acpi s)\<lparr>rsdt := x\<rparr>\<rparr>)
      \<lparr>acpi := (acpi s)\<lparr>rsdt := x, use_xsdt := False\<rparr>\<rparr>)" for x c
    by (simp add: pattern_ok_def klog_def)
  show ?thesis
    using t by (simp add: acpi_root_def Let_def k v a pattern_ok_map [OF assms] sample_hhdm_def)
qed

lemma sample_acpi_init:
  "\<exists>t. acpi_init sample_acpi_env (Some sample_hhdm) (Some 0x1002) sample_firmware = Some t \<and> acpi_on (acpi t)"
proof -
  let ?e = sample_acpi_env and ?r = "0xFFFF800000001002 :: u64"
  have ok: "pattern_ok sample_firmware"
    by (simp add: pattern_ok_def) (simp add: sample_firmware_def sample_machine_def tasking.defs vmm.defs heap.defs)
  define s4 where "s4 = klog_num ''[ACPI] Calculated RSDP virtual address: '' 16 ?r ''\<newline>''
    (klog_num ''[ACPI] RSDP physical address: '' 16 0x1002 ''\<newline>''
      (klog ''[ACPI] RSDP address reported by Limine'' (klog ''[ACPI] Initializing ACPI...'' sample_firmware)))"
  have 4: "pattern_ok s4" unfolding s4_def by (intro pattern_ok_klog ok)
  have "pattern_ok (s4\<lparr>acpi := (acpi s4)\<lparr>rsdp := ?r\<rparr>\<rparr>)" using 4 by (simp add: pattern_ok_def)
  then have root: "\<exists>t. acpi_root ?r (klog a (klog b (klog_num c d w f (klog g (klog h (s4\<lparr>acpi := (acpi s4)\<lparr>rsdp := ?r\<rparr>\<rparr>)))))) = Inr t
      \<and> pattern_ok t" for a b c d w f g h
    by (intro sample_root pattern_ok_klog)
  have k: "kmem s4 = pattern" using 4 by (simp add: pattern_ok_def)
  note v = sample_rsdp_valid [unfolded rsdp_valid_def]
  obtain u where r: "acpi_root ?r (klog ''[ACPI] RSDP checksum valid'' (klog ''[ACPI] RSDP signature valid''
      (klog_num (char_of (unat (pattern ?r)) # '' '') 16 (ucast (pattern ?r)) ''\<newline>''
        (klog ''[ACPI] First byte of signature read: ''
          (klog ''[ACPI] RSDP virtual address assigned'' (s4\<lparr>acpi := (acpi s4)\<lparr>rsdp := ?r\<rparr>\<rparr>)))))) = Inr u"
    and u2: "pattern_ok u" using root by blast
  have u: "acpi_use_rsdp ?e ?r s4 = acpi_tables ?e u" "pattern_ok u"
    using v u2 by (auto simp: acpi_use_rsdp_def Let_def k r split: if_splits)
  from sample_tables [OF u(2)] obtain t where t: "acpi_tables ?e u = Some t" by blast
  have "acpi_init ?e (Some sample_hhdm) (Some 0x1002) sample_firmware = acpi_use_rsdp ?e ?r s4"
    by (simp add: acpi_init_def Let_def pattern_ok_map pattern_ok_klog ok s4_def sample_hhdm_def)
  with u t acpi_tables_fields [OF t] show ?thesis by simp
qed

theorem acpi_needs_valid_root_pointer_witness:
  "\<exists>t. acpi_init sample_acpi_env (Some sample_hhdm) (Some 0x1002) sample_firmware = Some t \<and> acpi_on (acpi t)
     \<and> rsdp (acpi t) \<noteq> 0"
proof -
  obtain t where t: "acpi_init sample_acpi_env (Some sample_hhdm) (Some 0x1002) sample_firmware = Some t" "acpi_on (acpi t)"
    using sample_acpi_init by blast
  have "\<not> acpi_on (acpi sample_firmware)" by simp
  from acpi_needs_valid_root_pointer [OF t(1) this t(2)] t show ?thesis by blast
qed

section \<open>A look-up in the extended root table\<close>

definition sample_xsdt :: machine where
  "sample_xsdt = sample_firmware\<lparr>acpi := (acpi sample_firmware)\<lparr>xsdt := 0x1004, use_xsdt := True, acpi_on := True\<rparr>\<rparr>"

theorem find_table_returns_first_witness:
  "\<exists>t. acpi_find_table 5 sample_xsdt = Some (0x7877C2000000002D, t) \<and> console.more t = console.more sample_xsdt"
proof -
  let ?h = "0x7877C2000000002D :: u64"
  have f: "acpi_on (acpi sample_xsdt)" "use_xsdt (acpi sample_xsdt)" "xsdt (acpi sample_xsdt) = 0x1004" "kmem sample_xsdt = pattern"
    by (simp_all add: sample_xsdt_def)
  have hh: "paging_hhdm sample_xsdt = Some sample_hhdm" "cr3 sample_xsdt = 0" by (simp_all add: sample_xsdt_def)
  have p4: "peek m a 4 = [m a, m (a + 1), m (a + 2), m (a + 3)]" for m a by (simp add: eval_nat_numeral ac_simps)
  have sig: "0 \<notin> set (peek (kmem sample_xsdt) 5 4)" by (simp add: f p4 pattern_def)
  have l: "sdt_length pattern 0x1004 = 45" by (simp add: sdt_length_def load32_def pattern_def upt_rec)
  have e: "xsdt_table pattern 0x1004 0 = 0x787842000000002D" by (simp add: xsdt_table_def pattern_load64)
  have va: "acpi_va sample_xsdt 0x787842000000002D = ?h"
    by (simp add: acpi_va_def paging_physical_to_virtual_def hh sample_hhdm_def)
  have n: "1 = unat ((ucast (sdt_length (kmem sample_xsdt) (xsdt (acpi sample_xsdt))) - 36 :: u64) div 8)"
    by (simp add: f l)
  have t: "acpi_table pattern 5 ?h"
    by (simp add: acpi_table_def p4 sdt_length_def load32_def pattern_def upt_rec)
  have "find (acpi_table (kmem sample_xsdt) 5)
      (map (\<lambda>j. acpi_va sample_xsdt (xsdt_table (kmem sample_xsdt) (xsdt (acpi sample_xsdt)) (of_nat j))) [0..<1]) = Some ?h"
    using t by (simp add: f e va)
  moreover obtain z where "text_at (kmem sample_xsdt) ?h = Some z" using pattern_text [of ?h] f(4) by auto
  moreover have "xsdt (acpi sample_xsdt) \<noteq> 0" by (simp add: f)
  ultimately show ?thesis
    using find_table_returns_first [OF f(1,2) _ sig n] pattern_acpi_mapped [OF f(4) hh] by auto
qed

end
