(* ===== verification/Kernel_Main.thy ===== *)
theory Kernel_Main
  imports Cpu_Features Acpi Smp
begin

text \<open>
  The kernel's entry (kernel.c): the order in which the subsystems are initialised, the two test
  tasks and the switch to the first of them, the report on the screen, and the early allocator. A
  function that may wait for ever is \<open>None\<close> when it does. \<open>kmain\<close> adds to the state the
  driver of the serial port and the three responses that kernel.c keeps in statics.
\<close>

section \<open>State\<close>

record kmain = kernel +
  com1 :: serial
  hhdm_response :: "u64 option"
  memmap_response :: "memmap_entry list option"
  rsdp_response :: "u64 option"

text \<open>What the boot loader has put into the request structures.\<close>

record limine_requests =
  framebuffer_reply :: "framebuffer list option"
  hhdm_reply :: "u64 option"
  memmap_reply :: "memmap_entry list option"
  rsdp_reply :: "u64 option"
  mp_reply :: "mp_response option"

section \<open>The early allocator\<close>

definition EARLY_HEAP_SIZE :: u64 where "EARLY_HEAP_SIZE = 64 * 1024"

definition early_malloc :: "boot_env \<Rightarrow> u64 \<Rightarrow> 'a kernel_scheme \<Rightarrow> u64 \<times> 'a kernel_scheme" where
  "early_malloc e sz s =
     (if heap_offset s + sz > EARLY_HEAP_SIZE then (0, s)
      else (early_heap e + heap_offset s, s\<lparr>heap_offset := heap_offset s + sz\<rparr>))"

section \<open>Initialisation\<close>

definition initialize_memory_subsystems :: "'a kmain_scheme \<Rightarrow> 'a kmain_scheme" where
  "initialize_memory_subsystems s =
     (let s1 = klog ''[DEER] Initializing Physical Memory Manager...\<newline>'' s;
          s2 = klog ''[DEER] PMM initialized\<newline>'' (pmm_init (memmap_response s1) (hhdm_response s1) s1);
          s3 = klog ''[DEER] Initializing Paging...\<newline>'' s2;
          s4 = klog ''[DEER] Paging initialized\<newline>'' (paging_init (hhdm_response s3) s3);
          s5 = klog ''[DEER] Initializing Kernel Heap...\<newline>'' s4;
          s6 = klog ''[DEER] Heap initialized\<newline>'' (heap_init s5);
          s7 = klog ''[DEER] Initializing Virtual Memory Manager...\<newline>'' s6
      in klog ''[DEER] VMM initialized\<newline>'' (vmm_init (hhdm_response s7) s7))"

definition apic_mode :: "'a machine_scheme \<Rightarrow> bool" where
  "apic_mode s \<longleftrightarrow> apic_on (apic s) \<and> ioapic_on (apic s)"

text \<open>The last third of \<open>initialize_subsystems\<close>: the timer and its handler.\<close>

definition install_timer :: "'a machine_scheme \<Rightarrow> 'a machine_scheme" where
  "install_timer s =
     (let s1 = (if apic_mode s
            then klog ''[DEER] LAPIC timer initialized\<newline>'' (lapic_timer_init 32 1000
                   (klog ''[DEER] Initializing LAPIC timer...\<newline>'' s))
            else klog ''[DEER] PIT initialized\<newline>'' (pit_init (klog ''[DEER] Initializing PIT...\<newline>'' s)));
          s2 = klog ''[DEER] Installing timer handler...\<newline>'' s1
      in if apic_mode s2
         then klog ''[DEER] LAPIC timer handler installed\<newline>'' (irq_install_handler 0 Lapic_timer_handler s2)
         else klog ''[DEER] PIT timer handler installed\<newline>'' (irq_install_handler 0 Pit_timer_handler s2))"

text \<open>Up to and with the interrupt descriptors, nothing can fail to return.\<close>

definition initialize_tables :: "env \<Rightarrow> 'a kmain_scheme \<Rightarrow> 'a kmain_scheme" where
  "initialize_tables e s =
     (let s1 = klog ''[DEER] Initializing GDT...\<newline>'' s;
          s2 = klog ''[DEER] GDT initialized\<newline>'' (gdt_load (gdt_init e s1));
          s3 = initialize_memory_subsystems s2;
          s4 = klog ''[DEER] Initializing PIC...\<newline>'' s3;
          s5 = klog ''[DEER] PIC remapped\<newline>'' (pic_remap s4);
          s6 = klog ''[DEER] Initializing IDT...\<newline>'' s5
      in klog ''[DEER] IDT initialized\<newline>'' (idt_init e s6))"

definition initialize_subsystems ::
  "boot_env \<Rightarrow> limine_requests \<Rightarrow> 'a kmain_scheme \<Rightarrow> 'a kmain_scheme option" where
  "initialize_subsystems e req s =
     (let s7 = klog ''[DEER] Initializing ACPI...\<newline>'' (initialize_tables (dev e) s)
      in Option.bind (acpi_init e (hhdm_response s7) (rsdp_reply req) s7) (\<lambda>s8.
         let s9 = klog ''[DEER] Initializing APIC...\<newline>'' (klog ''[DEER] ACPI initialized\<newline>'' s8)
         in Option.bind (apic_init (dev e) (hhdm_response s9) s9) (\<lambda>s10.
            let s11 = klog ''[DEER] Initializing SMP...\<newline>'' (klog ''[DEER] APIC initialized\<newline>'' s10);
                s12 = klog ''[DEER] SMP initialized\<newline>'' (smp_init e (mp_reply req) s11);
                s13 = klog ''[DEER] Initializing IRQ...\<newline>'' s12;
                s14 = klog ''[DEER] IRQ initialized\<newline>'' (irq_init s13)
            in Some (install_timer s14))))"

section \<open>The test tasks\<close>

definition TASK_STACK_SIZE :: u64 where "TASK_STACK_SIZE = 0x4000"

text \<open>\<open>raw + TASK_STACK_SIZE\<close>, aligned downwards; the caller adds the size once more.\<close>

definition stack_top_of :: "u64 \<Rightarrow> u64" where
  "stack_top_of raw = (raw + TASK_STACK_SIZE) AND NOT 0xF"

text \<open>\<open>c\<close> holds the registers at the call of \<open>switch_to_task\<close>. That routine ends in \<open>iretq\<close> and never
  returns here: the result is the registers it loads, and the last message of the function is not
  reached.\<close>

definition setup_and_start_tasks ::
  "boot_env \<Rightarrow> cpu \<Rightarrow> 'a tasking_scheme \<Rightarrow> (cpu \<times> 'a tasking_scheme) option" where
  "setup_and_start_tasks e c s =
     Option.bind (printf ''[TASK] Setting up test tasks...\<newline>'' [] s) (\<lambda>(_, s1).
     Option.bind (kmalloc TASK_STACK_SIZE (tasking_init s1)) (\<lambda>(raw_stack1, s2).
     Option.bind (kmalloc TASK_STACK_SIZE s2) (\<lambda>(raw_stack2, s3).
     let stack1 = stack_top_of raw_stack1;
         stack2 = stack_top_of raw_stack2;
         s4 = s3\<lparr>kmem := task_init (task1 e) (task1_func e) (stack1 + TASK_STACK_SIZE) 1 (kmem s3)\<rparr>;
         s5 = s4\<lparr>kmem := task_init (task2 e) (task2_func e) (stack2 + TASK_STACK_SIZE) 2 (kmem s4)\<rparr>;
         s6 = s5\<lparr>current_task := task1 e\<rparr>;
         s7 = s6\<lparr>kmem := set_task_state (current_task s6) TASK_STATE_RUNNING (kmem s6)\<rparr>
     in Option.bind (task_add (task1 e) s7) (\<lambda>s8.
        Option.bind (task_add (task2 e) s8) (\<lambda>s9.
        let s10 = klog ''[TASK] Tasks created. Switching to first task...\<newline>'' s9
        in Some (switch_to_task (current_task s10) c s10))))))"

text \<open>
  One round of the endless loop of \<open>task1_func\<close> and \<open>task2_func\<close>, and a number of
  rounds. The counter is an \<open>int\<close>: incrementing the largest one has no defined result.
\<close>

definition task_round :: "string \<Rightarrow> int \<times> 'a screen_scheme \<Rightarrow> (int \<times> 'a screen_scheme) option" where
  "task_round msg = (\<lambda>(i, s).
     Option.bind (if i mod 10000000 = 0 then map_option snd (printf msg [] s) else Some s) (\<lambda>s1.
     if i + 1 < 2 ^ 31 then Some (i + 1, s1) else None))"

fun task_rounds :: "string \<Rightarrow> nat \<Rightarrow> int \<times> 'a screen_scheme \<Rightarrow> (int \<times> 'a screen_scheme) option" where
  "task_rounds msg 0 is = Some is"
| "task_rounds msg (Suc n) is = Option.bind (task_rounds msg n is) (task_round msg)"

definition run_task1 :: "nat \<Rightarrow> 'a screen_scheme \<Rightarrow> (int \<times> 'a screen_scheme) option" where
  "run_task1 n s = task_rounds ''[TASK1] Running...\<newline>'' n (0, s)"

definition run_task2 :: "nat \<Rightarrow> 'a screen_scheme \<Rightarrow> (int \<times> 'a screen_scheme) option" where
  "run_task2 n s = task_rounds ''[TASK2] Running...\<newline>'' n (0, s)"

section \<open>The report\<close>

definition cpu_state_text :: "u32 \<Rightarrow> string" where
  "cpu_state_text st =
     (if st = CPU_STATE_UNUSED then ''UNUSED''
      else if st = CPU_STATE_STARTING then ''STARTING''
      else if st = CPU_STATE_RUNNING then ''RUNNING''
      else if st = CPU_STATE_HALTED then ''HALTED''
      else ''UNKNOWN'')"

definition cpu_line :: "cpu_info \<Rightarrow> (string \<times> vararg list) list" where
  "cpu_line c =
     [(''CPU%d: LAPIC ID %d, State: '', [IntArg (ucast (cpu_id c)), IntArg (ucast (cpu_lapic_id c))]),
      (cpu_state_text (cpu_state c), [])]
     @ (if is_bsp c then [('' [BSP]'', [])] else [])
     @ [(''\<newline>'', [])]"

text \<open>Printing changes neither the memory counters nor the table of processors, so that the arguments
  of a run of \<open>printf\<close> calls can be read at its beginning.\<close>

definition report_status :: "'a machine_scheme \<Rightarrow> 'a machine_scheme option" where
  "report_status s0 =
     (let s = printf_set_color COLOR_ORANGE s0
      in Option.bind (prints [(''\<newline>\<newline>DEER OS v0.0.1 - MULTITASKING TEST\<newline>'', []),
           (''==================================\<newline>\<newline>'', [])] s) (\<lambda>s1.
         Option.bind (prints [(''System Status:\<newline>'', []), (''--------------\<newline>'', [])]
           (printf_set_color COLOR_CYAN s1)) (\<lambda>s2.
         prints [(''GDT: ACTIVE\<newline>'', []), (''IDT: ACTIVE\<newline>'', []), (''PIC: REMAPPED\<newline>'', []),
           (''INTERRUPTS: ENABLED\<newline>'', []),
           (''PMM: ACTIVE (%d MB free)\<newline>'', [IntArg (pmm_get_free_memory s2 div 1024 div 1024)]),
           (''PAGING: ACTIVE\<newline>'', []),
           (''HEAP: ACTIVE (%d KB used)\<newline>'', [IntArg (heap_get_used_size s2 div 1024)]),
           (''VMM: ACTIVE\<newline>'', []), (''ACPI: ACTIVE\<newline>'', []), (''APIC: ACTIVE\<newline>'', [])]
           (printf_set_color COLOR_GREEN s2))))"

definition report_smp :: "'a kernel_scheme \<Rightarrow> 'a kernel_scheme option" where
  "report_smp s =
     Option.bind (prints [(''SMP Status:\<newline>'', []), (''-----------\<newline>'', [])] (printf_set_color COLOR_CYAN s)) (\<lambda>s1.
     let sm = smp s1
     in prints ([(''SMP: %s\<newline>'', [StrArg (Some (if smp_available sm then ''AVAILABLE'' else ''UNAVAILABLE''))]),
          (''CPUs: %d/%d running\<newline>'', [IntArg (ucast (started_count sm)), IntArg (ucast (cpu_count sm))]),
          (''BSP: LAPIC ID %d\<newline>'', [IntArg (ucast (bsp_id sm))])]
          @ concat (map (\<lambda>i. cpu_line (cpus sm ! i)) [0..<min (unat (cpu_count sm)) 8]))
          (printf_set_color COLOR_GREEN s1))"

text \<open>\<open>wake\<close> is what the interrupts taken during one \<open>hlt\<close> of the sleep do.\<close>

definition display_system_info ::
  "boot_env \<Rightarrow> ('a kernel_scheme \<Rightarrow> 'a kernel_scheme) \<Rightarrow> framebuffer option \<Rightarrow> 'a kernel_scheme \<Rightarrow> 'a kernel_scheme option" where
  "display_system_info e wake fb s =
     (if fb = None then Some s
      else let s1 = printf_set_bg_color COLOR_BLACK (printf_set_color COLOR_GREEN (printf_init_with_framebuffer fb s))
           in Option.bind (report_status (printf_clear s1)) (\<lambda>s2.
              Option.bind (print_cpu_features e s2) (\<lambda>s3.
              Option.bind (prints [(''\<newline>'', [])] s3) (\<lambda>s4.
              Option.bind (report_smp (printf_set_color COLOR_GREEN s4)) (\<lambda>s5.
              Option.bind (lapic_sleep_ms wake 3000 s5) (\<lambda>s6.
              prints [(''\<newline>3 seconds have passed (using LAPIC sleep).'', []),
                (''\<newline>System operational. Press Ctrl+Alt+G to release mouse from QEMU.\<newline>'', [])] s6))))))"

section \<open>The entry point\<close>

text \<open>The entry point stops in an endless loop, or leaves for the first task.\<close>

datatype 'm boot_end = Stopped 'm | First_task cpu 'm

definition kernel_main ::
  "boot_env \<Rightarrow> limine_requests \<Rightarrow> cpu \<Rightarrow> 'a kmain_scheme \<Rightarrow> 'a kmain_scheme boot_end option" where
  "kernel_main e req c s =
     (let s1 = klog ''[DEER] Kernel started\<newline>'' (s\<lparr>com1 := serial_init (com1 s)\<rparr>);
          (sse, s2) = enable_sse_safe e s1;
          s3 = (if sse \<noteq> 0 then klog ''[DEER] ERROR: Failed to initialize SSE!\<newline>'' s2 else s2);
          s4 = s3\<lparr>hhdm_response := hhdm_reply req, memmap_response := memmap_reply req, rsdp_response := rsdp_reply req\<rparr>
      in if hhdm_response s4 = None then Some (Stopped (klog ''[DEER] FATAL: HHDM response is NULL!\<newline>'' s4))
         else if memmap_response s4 = None then Some (Stopped (klog ''[DEER] FATAL: Memory map is NULL!\<newline>'' s4))
         else Option.bind (initialize_subsystems e req (klog ''[DEER] Limine responses OK\<newline>'' s4)) (\<lambda>s5.
              map_option (\<lambda>(c', t). First_task c' t) (setup_and_start_tasks e c s5)))"

text \<open>The rest of the function, which would run if \<open>setup_and_start_tasks\<close> returned: the state in
  which the processor is halted for good.\<close>

definition kernel_main_rest ::
  "boot_env \<Rightarrow> limine_requests \<Rightarrow> ('a kernel_scheme \<Rightarrow> 'a kernel_scheme) \<Rightarrow> 'a kernel_scheme \<Rightarrow> 'a kernel_scheme option" where
  "kernel_main_rest e req wake s =
     map_option (klog ''[DEER] Entering idle loop...\<newline>'')
       (case framebuffer_reply req of
          Some (fb # _) \<Rightarrow> display_system_info e wake (Some fb) s
        | _ \<Rightarrow> Some s)"

end
