(* ===== verification/Boot_Lemmas.thy ===== *)
theory Boot_Lemmas
  imports Kernel_Main Acpi_Lemmas Interrupt_Lemmas
begin

text \<open>
  What the steps of \<open>initialize_subsystems\<close> leave alone: the list of tasks, the descriptor tables
  and registers, the handlers and the two interrupt controllers. Each step gets one equation for the
  whole of them, or says which part it changes.
\<close>

section \<open>The part of the state that most steps keep\<close>

definition tables_of :: "'a machine_scheme \<Rightarrow>
    (gdt_entry list \<times> table_ptr \<times> table_ptr option) \<times> idt_entry list \<times> table_ptr \<times> table_ptr option \<times> bool
      \<times> isr_handler_t option list" where
  "tables_of s = ((gdt s, gdt_ptr s, gdtr s), idt s, idtp s, idtr s, interrupts_on s, isr_handlers s)"

definition kept_of :: "'a machine_scheme \<Rightarrow> _" where
  "kept_of s = (task_list s, current_task s, irq_handlers s, tables_of s)"

definition pics_of :: "'a machine_scheme \<Rightarrow> pic_chip \<times> pic_chip" where
  "pics_of s = (pic1 s, pic2 s)"

lemma keeps_more:
  "vmm.more t = vmm.more s \<Longrightarrow> kept_of t = kept_of s \<and> pics_of t = pics_of s \<and> apic t = apic s"
  by (cases s, cases t) (simp add: kept_of_def tables_of_def pics_of_def)

lemma vmm_moreI: "heap.more t = heap.more s \<Longrightarrow> vmm.more t = vmm.more s"
  by (cases s, cases t) simp

lemma heap_moreI: "paging.more t = paging.more s \<Longrightarrow> heap.more t = heap.more s"
  by (cases s, cases t) simp

lemma paging_moreI: "pmm.more t = pmm.more s \<Longrightarrow> paging.more t = paging.more s"
  by (cases s, cases t) simp

lemmas keeps_paging = heap_moreI [THEN vmm_moreI, THEN keeps_more]

lemma keeps_klog [simp]:
  "kept_of (klog m s) = kept_of s" "pics_of (klog m s) = pics_of s"
  "kept_of (klog_num a b v c s) = kept_of s" "pics_of (klog_num a b v c s) = pics_of s"
  "kept_of (klog_hex a v c s) = kept_of s" "pics_of (klog_hex a v c s) = pics_of s"
  by (simp_all add: klog_hex_def klog_num_def) (simp_all add: klog_def kept_of_def tables_of_def pics_of_def)

lemma keeps_fields [simp]:
  "kept_of (s\<lparr>apic := a\<rparr>) = kept_of s" "pics_of (s\<lparr>apic := a\<rparr>) = pics_of s"
  "kept_of (s\<lparr>acpi := b\<rparr>) = kept_of s" "pics_of (s\<lparr>acpi := b\<rparr>) = pics_of s"
  "kept_of (mmio_write x v s) = kept_of s" "pics_of (mmio_write x v s) = pics_of s"
  "kept_of (snd (mmio_read e x s)) = kept_of s" "pics_of (snd (mmio_read e x s)) = pics_of s"
  "kept_of (outb_port p w s) = kept_of s"
  by (simp_all add: kept_of_def tables_of_def pics_of_def mmio_write_def mmio_read_def outb_port_def Let_def)

lemma keeps_kernel [simp]:
  "kept_of (k\<lparr>mp := r\<rparr>) = kept_of k" "pics_of (k\<lparr>mp := r\<rparr>) = pics_of k"
  "kept_of (on_smp f k) = kept_of k" "pics_of (on_smp f k) = pics_of k"
  "apic (k\<lparr>mp := r\<rparr>) = apic k" "apic (on_smp f k) = apic k"
  by (simp_all add: kept_of_def tables_of_def pics_of_def on_smp_def)

section \<open>Memory\<close>

lemma klog_paging_more [simp]: "paging.more (klog m s) = paging.more s" "heap.more (klog m u) = heap.more u"
  "heap.more (klog_num a b v c u) = heap.more u"
  by (simp_all add: klog_def klog_num_def)

lemma heap_fields_more [simp]:
  "heap.more (s\<lparr>heap_start := a, heap_end := b, heap_total := c, heap_used := d, block_count := f\<rparr>) = heap.more s"
  "heap.more (s\<lparr>kmem := m, first_block := g\<rparr>) = heap.more s"
  by (cases s, simp)+

lemma pmm_init_paging_more: "paging.more (pmm_init es h s) = paging.more s"
proof (cases "\<exists>x off. es = Some x \<and> h = Some off")
  case True
  then show ?thesis using pmm_init_state(5) [THEN paging_moreI] by auto
next
  case False
  then show ?thesis by (cases es; cases h) (simp_all add: pmm_init_def klog_def)
qed

lemma paging_init_paging_more: "paging.more (paging_init h s) = paging.more s"
  by (cases h) (simp_all add: paging_init_def Let_def klog_def klog_num_def)

lemma heap_map_paging_more: "paging.more (snd (heap_map_loop i n s)) = paging.more s"
proof (induction i n s rule: heap_map_loop.induct)
  case (1 i n s)
  obtain p s1 where a: "pmm_alloc_page s = (p, s1)" by fastforce
  obtain b s2 where m: "paging_map_page (HEAP_START + i * PAGE_SIZE) p (PAGING_PRESENT OR PAGING_WRITABLE) s1 = (b, s2)"
    by fastforce
  have k: "paging.more s1 = paging.more s" "paging.more s2 = paging.more s1"
    using paging_more_alloc [of s] map_page_more [of _ p _ s1] a m by (metis snd_conv)+
  show ?case using "1.IH" a m k by (subst heap_map_loop.simps) auto
qed

lemma heap_init_more: "heap.more (heap_init s) = heap.more s"
proof -
  obtain r t where m: "heap_map_loop 0 (HEAP_INITIAL_SIZE div PAGE_SIZE) (klog ''[HEAP] Initializing...\<newline>'' s) = (r, t)"
    by fastforce
  then have "paging.more t = paging.more s"
    using heap_map_paging_more [of 0 _ "klog ''[HEAP] Initializing...\<newline>'' s"] by (metis klog_paging_more(1) snd_conv)
  then have "heap.more t = heap.more s" by (rule heap_moreI)
  with m show ?thesis by (simp add: heap_init_def Let_def)
qed

lemma vmm_init_more: "vmm.more (vmm_init h s) = vmm.more s"
  by (cases h) (simp_all add: vmm_init_def Let_def klog_def)

lemma keeps_memory [simp]:
  "kept_of (initialize_memory_subsystems s) = kept_of s" "pics_of (initialize_memory_subsystems s) = pics_of s"
  by (simp_all add: initialize_memory_subsystems_def Let_def keeps_more [OF vmm_init_more]
      keeps_more [OF heap_init_more [THEN vmm_moreI]] keeps_paging [OF paging_init_paging_more]
      keeps_paging [OF pmm_init_paging_more])

section \<open>ACPI and APIC\<close>

lemma keeps_find: "acpi_find_table g s = Some (h, t) \<Longrightarrow> kept_of t = kept_of s \<and> pics_of t = pics_of s"
  using keeps_paging [OF acpi_find_more] by blast

lemma keeps_map: "acpi_map_physical_to_virtual pa s = (v, t) \<Longrightarrow> kept_of t = kept_of s \<and> pics_of t = pics_of s"
  using keeps_paging [OF acpi_map_more] by blast

lemma keeps_locate:
  "acpi_locate_fadt e a b s = Some t \<Longrightarrow> kept_of t = kept_of s \<and> pics_of t = pics_of s"
  "acpi_locate_madt e a b s = Some t \<Longrightarrow> kept_of t = kept_of s \<and> pics_of t = pics_of s"
  by (auto simp: acpi_locate_fadt_def acpi_locate_madt_def dest!: keeps_find)

lemma keeps_tables: "acpi_tables e s = Some t \<Longrightarrow> kept_of t = kept_of s \<and> pics_of t = pics_of s"
  by (auto simp: acpi_tables_def Let_def split: bind_splits dest!: keeps_locate)

lemma keeps_root:
  "acpi_root r s = Inl t \<Longrightarrow> kept_of t = kept_of s \<and> pics_of t = pics_of s"
  "acpi_root r s = Inr t \<Longrightarrow> kept_of t = kept_of s \<and> pics_of t = pics_of s"
  by (auto simp: acpi_root_def Let_def split: if_splits prod.splits dest!: keeps_map)

lemma keeps_use_rsdp: "acpi_use_rsdp e r s = Some t \<Longrightarrow> kept_of t = kept_of s \<and> pics_of t = pics_of s"
  by (auto simp: acpi_use_rsdp_def Let_def split: if_splits sum.splits dest!: keeps_root keeps_tables)

lemma keeps_acpi_init: "acpi_init e h r s = Some t \<Longrightarrow> kept_of t = kept_of s \<and> pics_of t = pics_of s"
  by (auto simp: acpi_init_def Let_def split: if_splits option.splits prod.splits dest!: keeps_use_rsdp keeps_map)

lemma keeps_lapic [simp]:
  "kept_of (snd (lapic_read e reg s)) = kept_of s" "pics_of (snd (lapic_read e reg s)) = pics_of s"
  "kept_of (lapic_write reg v s) = kept_of s" "pics_of (lapic_write reg v s) = pics_of s"
  by (simp_all add: lapic_read_def lapic_write_def case_prod_unfold Let_def)

lemma keeps_lapic_init [simp]: "kept_of (lapic_init e h s) = kept_of s" "pics_of (lapic_init e h s) = pics_of s"
  by (simp_all add: lapic_init_def Let_def case_prod_unfold keeps_paging [OF map_page_more] split: option.split)

lemma keeps_ioapic_init: "ioapic_init h s = Some t \<Longrightarrow> kept_of t = kept_of s \<and> pics_of t = pics_of s"
  by (auto simp: ioapic_init_def Let_def split: if_splits option.splits)

lemma keeps_hpet_access [simp]:
  "kept_of (snd (hpet_read e reg s)) = kept_of s" "pics_of (snd (hpet_read e reg s)) = pics_of s"
  "kept_of (hpet_write reg v s) = kept_of s" "pics_of (hpet_write reg v s) = pics_of s"
  by (simp_all add: hpet_read_def hpet_write_def)

lemma keeps_hpet_on [simp]:
  "kept_of (hpet_init e h s) = kept_of s" "pics_of (hpet_init e h s) = pics_of s"
  by (simp_all add: hpet_init_def Let_def case_prod_unfold split: option.split)

text \<open>Disabling the controllers writes both masks; nothing else reaches them.\<close>

definition chips_ready :: "pic_chip \<times> pic_chip \<Rightarrow> bool" where
  "chips_ready p \<longleftrightarrow> icws (fst p) = [] \<and> icws (snd p) = [] \<and> vector_base (fst p) = 0x20 \<and> vector_base (snd p) = 0x28"

lemma disable_pic_ready:
  "chips_ready (pics_of s) \<Longrightarrow> chips_ready (pics_of (apic_disable_pic s))" "kept_of (apic_disable_pic s) = kept_of s"
  by (simp_all add: apic_disable_pic_def) (simp add: pics_of_def chips_ready_def pic_data_def)

lemma keeps_apic_init:
  "apic_init e h s = Some t \<Longrightarrow> kept_of t = kept_of s \<and> (chips_ready (pics_of s) \<longrightarrow> chips_ready (pics_of t))"
  by (auto simp: apic_init_def Let_def disable_pic_ready split: if_splits option.splits dest!: keeps_ioapic_init)

section \<open>Processors, interrupt lines and the timer\<close>

lemma keeps_register [simp]: "kept_of (smp_register e r i s) = kept_of s" "pics_of (smp_register e r i s) = pics_of s"
  by (simp_all add: smp_register_def Let_def)

lemma keeps_smp_init [simp]: "kept_of (smp_init e r s) = kept_of s" "pics_of (smp_init e r s) = pics_of s"
  by (simp_all add: smp_init_def Let_def for_up_frame [of kept_of] for_up_frame [of pics_of] split: option.split)

lemma keeps_timer_init [simp]:
  "kept_of (lapic_timer_init v f s) = kept_of s" "pics_of (lapic_timer_init v f s) = pics_of s"
  "kept_of (pit_init s) = kept_of s" "pics_of (pit_init s) = pics_of s"
  by (simp_all add: lapic_timer_init_def pit_init_def Let_def)

section \<open>Interrupt lines\<close>

lemma unmask_ready:
  "chips_ready (pics_of s) \<Longrightarrow> chips_ready (pics_of (pic_unmask_irq irq s))" "kept_of (pic_unmask_irq irq s) = kept_of s"
  by (simp_all add: pic_unmask_irq_def Let_def) (simp add: pics_of_def chips_ready_def pic_data_def pic_ports)

lemma ready_pics: "chips_ready (pics_of s) \<Longrightarrow> pics_ready s"
  by (simp add: chips_ready_def pics_of_def pics_ready_def)

lemma install_irq:
  assumes "chips_ready (pics_of s)" and "irq < 16"
  shows "chips_ready (pics_of (irq_install_handler irq h s))"
    and "irq_handlers (irq_install_handler irq h s) = (irq_handlers s)[unat irq := Some h]"
    and "irq_masked k (irq_install_handler irq h s) \<longleftrightarrow> k \<noteq> irq \<and> irq_masked k s"
    and "tables_of (irq_install_handler irq h s) = tables_of s"
    and "task_list (irq_install_handler irq h s) = task_list s" "current_task (irq_install_handler irq h s) = current_task s"
proof -
  let ?s = "klog_num ''[IRQ] Installed handler for IRQ'' 10 (ucast irq) ''\<newline>''
      (s\<lparr>irq_handlers := (irq_handlers s)[unat irq := Some h]\<rparr>)"
  have i: "irq_install_handler irq h s = pic_unmask_irq irq ?s" using assms(2) by (simp add: irq_install_handler_def)
  have p: "pics_of ?s = pics_of s" by simp (simp add: pics_of_def)
  show "chips_ready (pics_of (irq_install_handler irq h s))" unfolding i using assms(1) p by (intro unmask_ready) simp
  have "kept_of ?s = (task_list s, current_task s, (irq_handlers s)[unat irq := Some h], tables_of s)"
    by simp (simp add: kept_of_def tables_of_def)
  then have k: "kept_of (irq_install_handler irq h s) = \<dots>" unfolding i unmask_ready(2) .
  then show "irq_handlers (irq_install_handler irq h s) = (irq_handlers s)[unat irq := Some h]"
    "tables_of (irq_install_handler irq h s) = tables_of s" "task_list (irq_install_handler irq h s) = task_list s"
    "current_task (irq_install_handler irq h s) = current_task s"
    by (simp_all add: kept_of_def)
  have "pics_ready ?s" using assms(1) p by (intro ready_pics) simp
  from irq_mask_effect(2) [OF this assms(2), of k] show "irq_masked k (irq_install_handler irq h s) \<longleftrightarrow> k \<noteq> irq \<and> irq_masked k s"
    unfolding i using p by (simp add: irq_masked_def pics_of_def)
qed

lemma keeps_apic_klog [simp]: "apic (klog m s) = apic s" "apic (klog_num a b w c s) = apic s"
  by (simp_all add: klog_num_def) (simp_all add: klog_def)

lemma apic_install_irq: "apic (irq_install_handler irq h s) = apic s"
proof -
  have "apic (outb_port p v u) = apic u" for p v and u :: "'a machine_scheme" by (simp add: outb_port_def)
  then show ?thesis by (simp add: irq_install_handler_def pic_unmask_irq_def Let_def del: outb_pics)
qed

lemma fold_install_irq:
  assumes "chips_ready (pics_of s)" and "length (irq_handlers s) = 16" and "n \<le> 16"
  shows "chips_ready (pics_of (fold (\<lambda>i. irq_install_handler (of_nat i) h) [0..<n] s))
    \<and> irq_handlers (fold (\<lambda>i. irq_install_handler (of_nat i) h) [0..<n] s) = replicate n (Some h) @ drop n (irq_handlers s)
    \<and> (\<forall>k. unat k < n \<longrightarrow> \<not> irq_masked k (fold (\<lambda>i. irq_install_handler (of_nat i) h) [0..<n] s))
    \<and> tables_of (fold (\<lambda>i. irq_install_handler (of_nat i) h) [0..<n] s) = tables_of s
    \<and> task_list (fold (\<lambda>i. irq_install_handler (of_nat i) h) [0..<n] s) = task_list s"
  using assms(3)
proof (induction n)
  case (Suc n)
  let ?t = "fold (\<lambda>i. irq_install_handler (of_nat i) h) [0..<n] s"
  have u: "unat (of_nat n :: u8) = n" using Suc.prems by (simp add: unat_u8)
  then have lt: "(of_nat n :: u8) < 16" using Suc.prems by (simp add: word_less_nat_alt)
  have IH: "chips_ready (pics_of ?t)" "irq_handlers ?t = replicate n (Some h) @ drop n (irq_handlers s)"
    "\<And>k. unat k < n \<Longrightarrow> \<not> irq_masked k ?t" "tables_of ?t = tables_of s" "task_list ?t = task_list s"
    using Suc by auto
  note i = install_irq [OF IH(1) lt, where h = h]
  have d: "drop n (irq_handlers s) = irq_handlers s ! n # drop (Suc n) (irq_handlers s)"
    using Suc.prems assms(2) by (simp add: Cons_nth_drop_Suc)
  have "unat k = n \<longleftrightarrow> k = of_nat n" for k :: u8 using u by (auto simp: word_unat_eq_iff)
  then show ?case using IH i by (auto simp: u d list_update_append less_Suc_eq replicate_append_same [symmetric])
qed (use assms(1) in simp)

lemma irq_init_effect:
  assumes "chips_ready (pics_of s)" and "length (irq_handlers s) = 16"
  shows "chips_ready (pics_of (irq_init s))" "irq_handlers (irq_init s) = replicate 16 (Some Irq_default_handler)"
    "k < 16 \<Longrightarrow> \<not> irq_masked k (irq_init s)" "tables_of (irq_init s) = tables_of s" "task_list (irq_init s) = task_list s"
proof -
  let ?s = "klog ''[IRQ] Initializing IRQ handlers...\<newline>'' s"
  have p: "pics_of ?s = pics_of s" and k': "kept_of ?s = kept_of s" by simp_all
  then have "irq_handlers ?s = irq_handlers s" "tables_of ?s = tables_of s" "task_list ?s = task_list s"
    by (simp_all add: kept_of_def)
  note f = fold_install_irq [of ?s 16 Irq_default_handler, unfolded p this, OF assms order_refl]
  have kk: "irq_masked k (klog a b) = irq_masked k b" for a and b :: "'a machine_scheme" by (simp add: irq_masked_def)
  have kl: "pics_of (klog a b) = pics_of b" "irq_handlers (klog a b) = irq_handlers b" "tables_of (klog a b) = tables_of b"
    "task_list (klog a b) = task_list b" for a and b :: "'a machine_scheme"
    using keeps_klog(1,2) [of a b] by (simp_all add: kept_of_def)
  show "chips_ready (pics_of (irq_init s))" "irq_handlers (irq_init s) = replicate 16 (Some Irq_default_handler)"
    "k < 16 \<Longrightarrow> \<not> irq_masked k (irq_init s)" "tables_of (irq_init s) = tables_of s" "task_list (irq_init s) = task_list s"
    using f assms(2) by (simp_all add: irq_init_def kk kl word_less_nat_alt)
qed

lemma unmasked_chips:
  assumes "\<And>k. k < 16 \<Longrightarrow> \<not> irq_masked k s"
  shows "imr (pic1 s) = 0" "imr (pic2 s) = 0"
proof -
  have "\<not> bit (imr (pic1 s)) n" if "n < 8" for n
    using assms [of "of_nat n"] that by (simp add: irq_masked_def word_less_nat_alt unat_u8)
  then show "imr (pic1 s) = 0" by (intro bit_word_eqI) simp
  have "\<not> bit (imr (pic2 s)) n" if "n < 8" for n
    using assms [of "of_nat (n + 8)"] that by (simp add: irq_masked_def word_less_nat_alt unat_u8 del: of_nat_add)
  then show "imr (pic2 s) = 0" by (intro bit_word_eqI) simp
qed

lemma keeps_apic_base [simp]: "apic (lapic_write r v s) = apic s"
  "apic (lapic_timer_init vec f s) = apic s" "apic (pit_init s) = apic s"
proof -
  have "apic (mmio_write x w s) = apic s" for x w by (simp add: mmio_write_def)
  then show w: "apic (lapic_write r v s) = apic s" for r v s by (simp add: lapic_write_def mmio_write_def)
  show "apic (lapic_timer_init vec f s) = apic s" "apic (pit_init s) = apic s"
    by (simp_all add: w lapic_timer_init_def pit_init_def Let_def)
qed

lemma install_timer_effect:
  assumes "chips_ready (pics_of s)"
  shows "chips_ready (pics_of (install_timer s))"
    "irq_handlers (install_timer s) = (irq_handlers s)[0 := Some (if apic_mode s then Lapic_timer_handler else Pit_timer_handler)]"
    "irq_masked k (install_timer s) \<longleftrightarrow> k \<noteq> 0 \<and> irq_masked k s"
    "tables_of (install_timer s) = tables_of s" "task_list (install_timer s) = task_list s"
proof -
  define s2 where "s2 = klog ''[DEER] Installing timer handler...\<newline>'' (if apic_mode s
            then klog ''[DEER] LAPIC timer initialized\<newline>'' (lapic_timer_init 32 1000
                   (klog ''[DEER] Initializing LAPIC timer...\<newline>'' s))
            else klog ''[DEER] PIT initialized\<newline>'' (pit_init (klog ''[DEER] Initializing PIT...\<newline>'' s)))"
  have s2: "kept_of s2 = kept_of s" "pics_of s2 = pics_of s" "apic_mode s2 = apic_mode s"
    by (simp_all add: s2_def apic_mode_def)
  define h where "h = (if apic_mode s then Lapic_timer_handler else Pit_timer_handler)"
  obtain m where t: "install_timer s = klog m (irq_install_handler 0 h s2)"
    unfolding install_timer_def s2_def [symmetric] Let_def s2(3) h_def by (cases "apic_mode s") auto
  have kl: "pics_of (klog a b) = pics_of b" "irq_handlers (klog a b) = irq_handlers b" "tables_of (klog a b) = tables_of b"
    "task_list (klog a b) = task_list b" "irq_masked k (klog a b) = irq_masked k b" for a and b :: "'a machine_scheme"
    using keeps_klog(1,2) [of a b] by (simp_all add: kept_of_def irq_masked_def)
  have f: "irq_handlers s2 = irq_handlers s" "tables_of s2 = tables_of s" "task_list s2 = task_list s"
    "irq_masked k s2 = irq_masked k s"
    using s2(1,2) by (simp_all add: kept_of_def pics_of_def irq_masked_def)
  have "chips_ready (pics_of s2)" "(0 :: u8) < 16" using assms s2(2) by simp_all
  note i = install_irq [OF this, where h = h]
  show "chips_ready (pics_of (install_timer s))"
    "irq_handlers (install_timer s) = (irq_handlers s)[0 := Some (if apic_mode s then Lapic_timer_handler else Pit_timer_handler)]"
    "irq_masked k (install_timer s) \<longleftrightarrow> k \<noteq> 0 \<and> irq_masked k s"
    "tables_of (install_timer s) = tables_of s" "task_list (install_timer s) = task_list s"
    unfolding t kl using i by (simp_all add: f h_def)
qed

section \<open>Up to the interrupt descriptors\<close>

lemma gdt_steps:
  assumes "length (gdt s) = 5"
  shows "gdt (gdt_load (gdt_init e s)) = [gdt_entry_of 0 0 0 0, gdt_entry_of 0 0xFFFFF 0x9A 0xA0,
      gdt_entry_of 0 0xFFFFF 0x92 0x80, gdt_entry_of 0 0 0 0, gdt_entry_of 0 0 0 0]"
    and "gdtr (gdt_load (gdt_init e s)) = Some \<lparr>tp_limit = 39, tp_base = gdt_addr e\<rparr>"
proof -
  show "gdt (gdt_load (gdt_init e s)) = [gdt_entry_of 0 0 0 0, gdt_entry_of 0 0xFFFFF 0x9A 0xA0,
      gdt_entry_of 0 0xFFFFF 0x92 0x80, gdt_entry_of 0 0 0 0, gdt_entry_of 0 0 0 0]"
    using gdt_init_table [OF assms, of e] by (simp add: gdt_load_def Let_def)
  show "gdtr (gdt_load (gdt_init e s)) = Some \<lparr>tp_limit = 39, tp_base = gdt_addr e\<rparr>"
    by (simp add: gdt_load_def gdt_init_def gdt_set_entry_def Let_def klog_def)
qed

lemma gdt_keeps:
  "idtr (gdt_load (gdt_init e s)) = idtr s" "idt (gdt_load (gdt_init e s)) = idt s"
  "interrupts_on (gdt_load (gdt_init e s)) = interrupts_on s" "isr_handlers (gdt_load (gdt_init e s)) = isr_handlers s"
  "irq_handlers (gdt_load (gdt_init e s)) = irq_handlers s" "task_list (gdt_load (gdt_init e s)) = task_list s"
  by (simp_all add: gdt_load_def gdt_init_def gdt_set_entry_def Let_def klog_def)

text \<open>\<open>idt_init\<close> fills the table and its descriptor; it loads neither.\<close>

definition idt_kept :: "'a machine_scheme \<Rightarrow> _" where
  "idt_kept s = (gdt s, gdtr s, idtr s, interrupts_on s, irq_handlers s, task_list s, pics_of s)"

lemma idt_kept_steps [simp]:
  "idt_kept (klog m s) = idt_kept s" "idt_kept (idt_set_entry i b sl a s) = idt_kept s"
  "idt_kept (isr_install_handler i h s) = idt_kept s" "idt_kept (s\<lparr>idtp := p\<rparr>) = idt_kept s"
  by (simp_all add: idt_kept_def idt_set_entry_def isr_install_handler_def klog_num_def klog_def pics_of_def)

lemma fold_frame: "(\<And>x s. p (f x s) = p s) \<Longrightarrow> p (fold f xs s) = p s"
  by (induction xs arbitrary: s) simp_all

lemma idt_init_kept: "idt_kept (idt_init e s) = idt_kept s"
  by (simp add: idt_init_def Let_def fold_frame [of idt_kept])

lemma idt_init_idtp: "idtp (idt_init e s) = \<lparr>tp_limit = 4095, tp_base = idt_addr e\<rparr>"
proof -
  have "idtp (fold (\<lambda>i. isr_install_handler (of_nat i) h) xs u) = idtp u" for h xs and u :: "'a machine_scheme"
    by (rule fold_frame) (simp add: install_table)
  then show ?thesis by (simp add: idt_init_def Let_def install_table)
qed

lemma remap_ready: "chips_ready (pics_of (pic_remap s))" "kept_of (pic_remap s) = kept_of s"
proof -
  show "chips_ready (pics_of (pic_remap s))" by (simp add: pics_of_def chips_ready_def pic_remap_chips)
  show "kept_of (pic_remap s) = kept_of s" by (simp add: pic_remap_def Let_def)
qed

lemma initialize_tables_effect:
  fixes s :: "'a kmain_scheme" and e :: env
  assumes "length (gdt s) = 5" and "length (idt s) = 256" and "length (isr_handlers s) = 256"
  defines "t \<equiv> initialize_tables e s"
  shows "gdt t = [gdt_entry_of 0 0 0 0, gdt_entry_of 0 0xFFFFF 0x9A 0xA0,
      gdt_entry_of 0 0xFFFFF 0x92 0x80, gdt_entry_of 0 0 0 0, gdt_entry_of 0 0 0 0]"
    and "gdtr t = Some \<lparr>tp_limit = 39, tp_base = gdt_addr e\<rparr>" and "idtp t = \<lparr>tp_limit = 4095, tp_base = idt_addr e\<rparr>"
    and "v < 256 \<Longrightarrow> idt t ! v = (if v < 48 then idt_entry_of (isr_stub e (of_nat v)) 0x08 (gate_attr v)
      else idt_entry_of 0 0 0)"
    and "idtr t = idtr s" and "interrupts_on t = interrupts_on s" and "irq_handlers t = irq_handlers s"
    and "task_list t = task_list s" and "chips_ready (pics_of t)"
proof -
  define s2 where "s2 = gdt_load (gdt_init e (klog ''[DEER] Initializing GDT...\<newline>'' s))"
  define s5 where "s5 = pic_remap (klog ''[DEER] Initializing PIC...\<newline>''
      (initialize_memory_subsystems (klog ''[DEER] GDT initialized\<newline>'' s2)))"
  define s6 where "s6 = klog ''[DEER] Initializing IDT...\<newline>'' (klog ''[DEER] PIC remapped\<newline>'' s5)"
  have t: "t = klog ''[DEER] IDT initialized\<newline>'' (idt_init e s6)"
    by (simp add: t_def initialize_tables_def Let_def s2_def s5_def s6_def)
  have "kept_of s6 = kept_of s2" by (simp add: s6_def s5_def remap_ready)
  then have k: "gdt s6 = gdt s2" "gdtr s6 = gdtr s2" "idt s6 = idt s2" "idtr s6 = idtr s2" "interrupts_on s6 = interrupts_on s2"
    "isr_handlers s6 = isr_handlers s2" "irq_handlers s6 = irq_handlers s2" "task_list s6 = task_list s2"
    by (simp_all add: kept_of_def tables_of_def)
  have "length (gdt (klog ''[DEER] Initializing GDT...\<newline>'' s)) = 5" using assms(1) by (simp add: klog_def)
  note g = gdt_steps [OF this, of e, folded s2_def]
    gdt_keeps [of e "klog ''[DEER] Initializing GDT...\<newline>'' s", folded s2_def, unfolded klog_def, simplified]
  have len: "length (idt s6) = 256" "length (isr_handlers s6) = 256" using k g assms by simp_all
  have "idt_kept t = idt_kept s6" by (simp add: t idt_init_kept)
  then have i: "gdt t = gdt s6" "gdtr t = gdtr s6" "idtr t = idtr s6" "interrupts_on t = interrupts_on s6"
    "irq_handlers t = irq_handlers s6" "task_list t = task_list s6" "pics_of t = pics_of s6"
    by (simp_all add: idt_kept_def)
  show "gdt t = [gdt_entry_of 0 0 0 0, gdt_entry_of 0 0xFFFFF 0x9A 0xA0,
      gdt_entry_of 0 0xFFFFF 0x92 0x80, gdt_entry_of 0 0 0 0, gdt_entry_of 0 0 0 0]"
    "gdtr t = Some \<lparr>tp_limit = 39, tp_base = gdt_addr e\<rparr>" "idtr t = idtr s" "interrupts_on t = interrupts_on s"
    "irq_handlers t = irq_handlers s" "task_list t = task_list s"
    using i k g by simp_all
  show "idtp t = \<lparr>tp_limit = 4095, tp_base = idt_addr e\<rparr>" by (simp add: t idt_init_idtp)
  show "chips_ready (pics_of t)" unfolding i(7) by (simp add: s6_def s5_def remap_ready)
  show "idt t ! v = (if v < 48 then idt_entry_of (isr_stub e (of_nat v)) 0x08 (gate_attr v) else idt_entry_of 0 0 0)"
    if "v < 256" using idt_init_tables(1) [OF len that] by (simp add: t)
qed

section \<open>All of it\<close>

lemma initialize_subsystems_stages:
  assumes "initialize_subsystems e req s = Some t" and "chips_ready (pics_of (initialize_tables (dev e) s))"
  obtains u where "kept_of u = kept_of (initialize_tables (dev e) s)" and "chips_ready (pics_of u)"
    and "t = install_timer (klog ''[DEER] IRQ initialized\<newline>'' (irq_init u))"
proof -
  let ?s7 = "klog ''[DEER] Initializing ACPI...\<newline>'' (initialize_tables (dev e) s)"
  from assms(1) obtain s8 where 8: "acpi_init e (hhdm_response ?s7) (rsdp_reply req) ?s7 = Some s8"
    and r: "Option.bind (apic_init (dev e) (hhdm_response (klog ''[DEER] Initializing APIC...\<newline>'' (klog ''[DEER] ACPI initialized\<newline>'' s8)))
        (klog ''[DEER] Initializing APIC...\<newline>'' (klog ''[DEER] ACPI initialized\<newline>'' s8)))
      (\<lambda>s10. Some (install_timer (klog ''[DEER] IRQ initialized\<newline>'' (irq_init
        (klog ''[DEER] Initializing IRQ...\<newline>'' (klog ''[DEER] SMP initialized\<newline>'' (smp_init e (mp_reply req)
          (klog ''[DEER] Initializing SMP...\<newline>'' (klog ''[DEER] APIC initialized\<newline>'' s10))))))))) = Some t"
    unfolding initialize_subsystems_def Let_def by (subst (asm) (1) bind_eq_Some_conv) blast
  let ?s9 = "klog ''[DEER] Initializing APIC...\<newline>'' (klog ''[DEER] ACPI initialized\<newline>'' s8)"
  from r obtain s10 where 10: "apic_init (dev e) (hhdm_response ?s9) ?s9 = Some s10"
    and t: "t = install_timer (klog ''[DEER] IRQ initialized\<newline>'' (irq_init
        (klog ''[DEER] Initializing IRQ...\<newline>'' (klog ''[DEER] SMP initialized\<newline>'' (smp_init e (mp_reply req)
          (klog ''[DEER] Initializing SMP...\<newline>'' (klog ''[DEER] APIC initialized\<newline>'' s10)))))))"
    by (subst (asm) bind_eq_Some_conv) blast
  show thesis
    by (rule that [OF _ _ t]) (use keeps_acpi_init [OF 8] keeps_apic_init [OF 10] assms(2) in simp_all)
qed

text \<open>The last two steps: the sixteen lines, then the timer's.\<close>

lemma boot_last_steps:
  assumes "chips_ready (pics_of u)" and "length (irq_handlers u) = 16"
  defines "t \<equiv> install_timer (klog ''[DEER] IRQ initialized\<newline>'' (irq_init u))"
  shows "chips_ready (pics_of t)" "tables_of t = tables_of u" "task_list t = task_list u" "imr (pic1 t) = 0" "imr (pic2 t) = 0"
    and "irq_handlers t = Some (if apic_mode u then Lapic_timer_handler else Pit_timer_handler)
      # replicate 15 (Some Irq_default_handler)"
proof -
  let ?v = "klog ''[DEER] IRQ initialized\<newline>'' (irq_init u)"
  note i = irq_init_effect [OF assms(1,2)]
  have v: "kept_of ?v = kept_of (irq_init u)" "pics_of ?v = pics_of (irq_init u)" by simp_all
  then have w: "tables_of ?v = tables_of u" "task_list ?v = task_list u" "irq_handlers ?v = replicate 16 (Some Irq_default_handler)"
    "\<And>k. irq_masked k ?v = irq_masked k (irq_init u)"
    using i by (simp_all add: kept_of_def pics_of_def irq_masked_def)
  have r: "chips_ready (pics_of ?v)" using v(2) i(1) by simp
  note n = install_timer_effect [OF r, folded t_def]
  have "apic (irq_init u) = apic u"
    by (simp add: irq_init_def fold_frame [of apic] apic_install_irq)
  then have m: "apic_mode ?v = apic_mode u" by (simp add: apic_mode_def)
  show "chips_ready (pics_of t)" "tables_of t = tables_of u" "task_list t = task_list u" using n w by simp_all
  show "irq_handlers t = Some (if apic_mode u then Lapic_timer_handler else Pit_timer_handler)
      # replicate 15 (Some Irq_default_handler)"
    using n(2) by (simp add: w m) (simp add: numeral_eq_Suc)
  have "\<not> irq_masked k t" if "k < 16" for k using n(3) w(4) i(3) [OF that] by simp
  from unmasked_chips [OF this] show "imr (pic1 t) = 0" "imr (pic2 t) = 0" by blast+
qed

end
