(* ===== verification/Boot_Tasks.thy ===== *)
theory Boot_Tasks
  imports Boot_Lemmas Printf_Spec
begin

text \<open>
  The two test tasks: the memory that \<open>setup_and_start_tasks\<close> leaves, the registers with which it
  enters the first task, and the place of the two stacks in the heap.
\<close>

section \<open>Printing and allocating leave the tasks alone\<close>

lemma klog_screen_more [simp]: "screen.more (klog m s) = screen.more s"
  by (simp add: klog_def)

lemma auto_init_more [simp]: "screen.more (printf_auto_init s) = screen.more s"
  by (simp add: printf_auto_init_def split: option.split list.split)

lemma putchar_fb_more [simp]: "screen.more (putchar_fb fb c s) = screen.more s"
proof -
  have "screen.more (scroll_screen t) = screen.more t" for t :: "'a screen_scheme"
    by (simp add: scroll_screen_def split: option.split)
  then show ?thesis by (simp add: putchar_fb_def Let_def)
qed

lemma putchar_more: "screen.more (putchar c s) = screen.more s"
  by (simp add: putchar_def Let_def split: option.split)

lemma putstring_more: "screen.more (putstring xs s) = screen.more s"
  by (induction xs arbitrary: s) (simp_all add: putchar_more)

lemma printf_more: "printf fmt args s = Some (n, t) \<Longrightarrow> screen.more t = screen.more s"
  by (auto simp: printf_render putstring_more auto_init_more)

lemma screen_more_tasks: "screen.more t = screen.more s \<Longrightarrow> task_list t = task_list s \<and> kmem t = kmem s"
  by (cases s, cases t) simp

lemma heap_update_more [simp]:
  "heap.more (s\<lparr>kmem := m\<rparr>) = heap.more s" "heap.more (s\<lparr>heap_used := u\<rparr>) = heap.more s"
  "heap.more (s\<lparr>kmem := m, block_count := n\<rparr>) = heap.more s"
  by (cases s, simp)+

lemma split_block_more [simp]: "heap.more (split_block b z s) = heap.more s"
  by (simp only: split_block_def Let_def heap_update_more)

lemma kmalloc_more: "kmalloc n s = Some (a, t) \<Longrightarrow> heap.more t = heap.more s"
  by (auto simp: kmalloc_def Let_def split: if_splits option.splits)

lemma heap_more_tasks: "heap.more t = heap.more s \<Longrightarrow> task_list t = task_list s"
  by (cases s, cases t) simp

section \<open>A prepared task\<close>

lemma task_init_changes: "changes_in (span_of t TASK_SIZE) m (task_init t entry sp i m)"
proof -
  have s: "span_of (t + k) 8 \<subseteq> span_of t TASK_SIZE" if "k \<le> 152" for k
    using slot_sub [OF that] task_fields_sub(3) by blast
  have z: "changes_in (span_of t TASK_SIZE) m (snd (memset t 0 TASK_SIZE m))"
    by (simp add: changes_in_def memset_apply span_of_def)
  have f: "span_of (t + 168) 4 \<subseteq> span_of t TASK_SIZE" "span_of (t + 176) 8 \<subseteq> span_of t TASK_SIZE"
    using span_of_sub [of 168 TASK_SIZE 4 t] span_of_sub [of 176 TASK_SIZE 8 t] by (simp_all add: TASK_SIZE_def)
  show ?thesis
    unfolding task_init_def Let_def
    by (intro changes_in_trans [OF _ changes_store64] changes_in_trans [OF _ changes_store32]
        changes_in_trans [OF _ changes_in_mono [OF set_next_changes task_fields_sub(1)]]
        changes_in_trans [OF _ changes_in_mono [OF set_state_changes task_fields_sub(2)]] z s f) simp_all
qed

section \<open>Entering the first task\<close>

definition test_tasks_apart :: "boot_env \<Rightarrow> cpu \<Rightarrow> bool" where
  "test_tasks_apart e c \<longleftrightarrow> task1 e \<noteq> 0 \<and> task2 e \<noteq> 0 \<and> tasks_apart [task1 e, task2 e] \<and> task1 e \<noteq> task2 e
     \<and> span_of (task1 e) TASK_SIZE \<inter> span_of (rsp c - 40) 40 = {} \<and> span_of (task2 e) TASK_SIZE \<inter> span_of (rsp c - 40) 40 = {}"

text \<open>The memory in which the first task is entered, over the memory \<open>m\<close> after the two allocations.\<close>

definition tasks_memory :: "boot_env \<Rightarrow> u64 \<Rightarrow> u64 \<Rightarrow> bytes \<Rightarrow> bytes" where
  "tasks_memory e top1 top2 m =
     set_task_next (task1 e) (task2 e) (set_task_state (task1 e) TASK_STATE_RUNNING
       (task_init (task2 e) (task2_func e) top2 2 (task_init (task1 e) (task1_func e) top1 1 m)))"

lemma tasks_memory_fields:
  fixes e :: boot_env and top1 top2 :: u64 and m :: bytes
  assumes ap: "test_tasks_apart e c"
  defines "m' \<equiv> tasks_memory e top1 top2 m"
  shows "load64 m' (task1 e + 120) = task1_func e" "load64 m' (task1 e + 128) = 0x08" "load64 m' (task1 e + 136) = 0x202"
    "load64 m' (task1 e + 144) = top1" "load64 m' (task1 e + 152) = 0x10" "load64 m' (task2 e + 144) = top2"
    "chain m' (task1 e) [task1 e, task2 e]" "task_state m' (task1 e) = TASK_STATE_RUNNING"
    "task_state m' (task2 e) = TASK_STATE_READY"
proof -
  let ?t = "task1 e" and ?u = "task2 e"
  define m1 where "m1 = task_init ?t (task1_func e) top1 1 m"
  define m2 where "m2 = task_init ?u (task2_func e) top2 2 m1"
  define m3 where "m3 = set_task_state ?t TASK_STATE_RUNNING m2"
  have m': "m' = set_task_next ?t ?u m3" by (simp add: m'_def tasks_memory_def m1_def m2_def m3_def)
  have dj: "span_of ?t TASK_SIZE \<inter> span_of ?u TASK_SIZE = {}" and ne: "?t \<noteq> ?u"
    using ap by (auto simp: test_tasks_apart_def tasks_apart_def)
  note f1 = task_init_fields [of ?t "task1_func e" top1 1 m, folded m1_def]
  note f2 = task_init_fields [of ?u "task2_func e" top2 2 m1, folded m2_def]
  note c2 = task_init_changes [where t = ?u and m = m1 and entry = "task2_func e" and sp = top2 and i = 2, folded m2_def]
  note c3 = set_state_changes [where t = ?t and m = m2 and v = TASK_STATE_RUNNING, folded m3_def]
  note c4 = set_next_changes [where t = ?t and m = m3 and v = ?u, folded m']
  have sub: "span_of (x + k) 8 \<subseteq> span_of x 160" if "k \<le> 152" for x k :: u64 by (rule slot_sub [OF that])
  have upper: "span_of x 160 \<inter> span_of (x + 160) 8 = {}" "span_of x 160 \<inter> span_of (x + 172) 4 = {}" for x :: u64
    using span_of_apart [of 160 160 8 x] span_of_apart [of 160 172 4 x] by simp_all
  have own: "load64 m' (?t + k) = load64 m1 (?t + k)" if k: "k \<le> 152" for k
  proof -
    have "load64 m' (?t + k) = load64 m3 (?t + k)" using sub [OF k] upper(1) by (intro load64_changes [OF c4]) blast
    also have "\<dots> = load64 m2 (?t + k)" using sub [OF k] upper(2) by (intro load64_changes [OF c3]) blast
    also have "\<dots> = load64 m1 (?t + k)" using sub [OF k] task_fields_sub(3) dj by (intro load64_changes [OF c2]) blast
    finally show ?thesis .
  qed
  show "load64 m' (?t + 120) = task1_func e" "load64 m' (?t + 128) = 0x08" "load64 m' (?t + 136) = 0x202"
    "load64 m' (?t + 144) = top1" "load64 m' (?t + 152) = 0x10" by (simp_all add: own f1)
  have c: "changes_in (span_of ?t TASK_SIZE) m2 m'"
    using changes_in_trans [OF changes_in_mono [OF c3 task_fields_sub(2)] changes_in_mono [OF c4 task_fields_sub(1)]] .
  have "load64 m' (?u + 144) = load64 m2 (?u + 144)" using sub [of 144 ?u] task_fields_sub(3) dj
    by (intro load64_changes [OF c]) fastforce
  then show "load64 m' (?u + 144) = top2" by (simp add: f2)
  have "task_next m' ?u = 0" 
  proof -
    have "task_next m' ?u = task_next m2 ?u" using task_fields_sub(1) dj by (intro task_next_changes [OF c]) blast
    then show ?thesis by (simp add: f2)
  qed
  then show "chain m' ?t [?t, ?u]" using ap by (simp add: m' test_tasks_apart_def)
  have "span_of (?t + 172) 4 \<inter> span_of (?t + 160) 8 = {}"
    using span_of_apart [of 8 12 4 "?t + 160"] by (auto simp: add.assoc)
  then show "task_state m' ?t = TASK_STATE_RUNNING"
    using task_state_changes [OF c4] by (simp add: m3_def)
  have "task_state m' ?u = task_state m2 ?u" using task_fields_sub(2) dj by (intro task_state_changes [OF c]) blast
  then show "task_state m' ?u = TASK_STATE_READY" by (simp add: f2)
qed

lemma first_task_alone:
  assumes "test_tasks_apart e c"
  shows "task_next (set_task_state (task1 e) v (task_init (task2 e) b top2 2 (task_init (task1 e) a top1 1 m))) (task1 e) = 0"
proof -
  let ?m1 = "task_init (task1 e) a top1 1 m" and ?t = "task1 e"
  have dj: "span_of ?t TASK_SIZE \<inter> span_of (task2 e) TASK_SIZE = {}"
    using assms by (auto simp: test_tasks_apart_def tasks_apart_def)
  have "span_of (?t + 160) 8 \<inter> span_of (?t + 172) 4 = {}"
    using span_of_apart [of 8 12 4 "?t + 160"] by (auto simp: add.assoc)
  then have "task_next (set_task_state ?t v (task_init (task2 e) b top2 2 ?m1)) ?t = task_next (task_init (task2 e) b top2 2 ?m1) ?t"
    by (intro task_next_changes [OF set_state_changes])
  also have "\<dots> = task_next ?m1 ?t"
    using task_fields_sub(1) dj by (intro task_next_changes [OF task_init_changes]) blast
  finally show ?thesis by (simp add: task_init_fields)
qed

lemma setup_effect:
  fixes s :: "'a tasking_scheme"
  assumes ap: "test_tasks_apart e c" and empty: "task_list s = 0"
    and p: "printf ''[TASK] Setting up test tasks...\<newline>'' [] s = Some (n, s1)"
    and k1: "kmalloc TASK_STACK_SIZE (tasking_init s1) = Some (raw1, s2)"
    and k2: "kmalloc TASK_STACK_SIZE s2 = Some (raw2, s3)"
  obtains c' t where "setup_and_start_tasks e c s = Some (c', t)"
    and "rip c' = task1_func e" "cs c' = 0x10" "rflags c' = 0x08" "rsp c' = 0x202"
    and "ss c' = stack_top_of raw1 + TASK_STACK_SIZE" "load64 (kmem t) (task2 e + 144) = stack_top_of raw2 + TASK_STACK_SIZE"
    and "chain (kmem t) (task_list t) [task1 e, task2 e]" "current_task t = task1 e"
    and "task_state (kmem t) (task1 e) = TASK_STATE_RUNNING" "task_state (kmem t) (task2 e) = TASK_STATE_READY"
    and "tasking.more t = tasking.more s"
proof -
  let ?t = "task1 e" and ?u = "task2 e"
  define top1 where "top1 = stack_top_of raw1 + TASK_STACK_SIZE"
  define top2 where "top2 = stack_top_of raw2 + TASK_STACK_SIZE"
  define m where "m = tasks_memory e top1 top2 (kmem s3)"
  have "heap.more s3 = heap.more s1"
    using kmalloc_more [OF k1] kmalloc_more [OF k2] by (simp add: tasking_init_def)
  moreover have "heap.more s1 = heap.more s" using printf_more [OF p] by (cases s, cases s1) simp
  ultimately have more: "heap.more s3 = heap.more s" by simp
  then have tl: "task_list s3 = 0" and tm: "tasking.more s3 = tasking.more s"
    using empty by (cases s, cases s3, simp)+
  define m3 where "m3 = set_task_state ?t TASK_STATE_RUNNING
    (task_init ?u (task2_func e) top2 2 (task_init ?t (task1_func e) top1 1 (kmem s3)))"
  have nz: "?t \<noteq> 0" using ap by (simp add: test_tasks_apart_def)
  have "chain m3 ?t ([] @ [?t])" using first_task_alone [OF ap] nz by (simp add: m3_def)
  then have lt: "last_task m3 ?t = Some ?t" by (rule last_task_chain)
  define s9 where "s9 = s3\<lparr>current_task := ?t, task_list := ?t, kmem := m\<rparr>"
  define s10 where "s10 = klog ''[TASK] Tasks created. Switching to first task...\<newline>'' s9"
  have mm: "m = set_task_next ?t ?u m3" by (simp add: m_def m3_def tasks_memory_def)
  have run: "setup_and_start_tasks e c s = Some (switch_to_task ?t c s10)"
    using tl nz lt
    by (simp add: setup_and_start_tasks_def p k1 k2 Let_def task_add_def s10_def s9_def mm m3_def top1_def top2_def klog_def)
  obtain c' t where sw: "switch_to_task ?t c s10 = (c', t)" by fastforce
  have k: "kmem s10 = m" "task_list s10 = ?t" "current_task s10 = ?t" "tasking.more s10 = tasking.more s3"
    by (simp_all add: s10_def s9_def klog_def)
  note f = tasks_memory_fields [OF ap, where ?top1.0 = top1 and ?top2.0 = top2 and m = "kmem s3", folded m_def]
  have st: "span_of ?t TASK_SIZE \<inter> span_of (rsp c - 40) 40 = {}" "span_of ?u TASK_SIZE \<inter> span_of (rsp c - 40) 40 = {}"
    using ap by (simp_all add: test_tasks_apart_def)
  note fr = switch_frame [OF st(1), of s10, unfolded sw fst_conv k f]
  have ch: "changes_in (span_of (rsp c - 40) 40) m (kmem t)"
    using switch_memory [of ?t c s10] switch_pushes_area(2) [of c m ?t] by (simp add: sw k)
  have nx: "task_next (kmem t) x = task_next m x" "task_state (kmem t) x = task_state m x" if "x \<in> {?t, ?u}" for x
  proof -
    have "span_of x TASK_SIZE \<inter> span_of (rsp c - 40) 40 = {}" using that st by auto
    then have "span_of (x + 160) 8 \<inter> span_of (rsp c - 40) 40 = {}" "span_of (x + 172) 4 \<inter> span_of (rsp c - 40) 40 = {}"
      using task_fields_sub(1,2) [of x] by blast+
    then show "task_next (kmem t) x = task_next m x" "task_state (kmem t) x = task_state m x"
      by (simp_all add: task_next_changes [OF ch] task_state_changes [OF ch])
  qed
  have tk: "task_list t = ?t" "current_task t = ?t" "tasking.more t = tasking.more s3"
    using switch_fields [of ?t c s10] switch_more [of ?t c s10] by (simp_all add: sw k)
  show thesis
  proof (rule that [OF run [unfolded sw]])
    show "chain (kmem t) (task_list t) [?t, ?u]" using f(7) chain_cong [of "[?t, ?u]" "kmem t" m] nx by (simp add: tk)
    have "load64 (kmem t) (?u + 144) = load64 m (?u + 144)"
      using st(2) slot_sub [of 144 ?u] task_fields_sub(3) by (intro load64_changes [OF ch]) fastforce
    then show "load64 (kmem t) (?u + 144) = stack_top_of raw2 + TASK_STACK_SIZE" by (simp add: f top2_def)
  qed (use fr nx f(8,9) tk tm in \<open>simp_all add: top1_def\<close>)
qed

section \<open>The stacks in a fresh heap\<close>

lemma two_stacks:
  fixes s :: "'a heap_scheme"
  assumes inv: "heap_inv [(HEAP_BYTES - 32, False)] s"
  obtains s2 s3 where "kmalloc TASK_STACK_SIZE s = Some (HEAP_START + 0x20, s2)"
    and "kmalloc TASK_STACK_SIZE s2 = Some (HEAP_START + 0x4040, s3)"
    and "heap_inv [(0x4000, True), (0x4000, True), (HEAP_BYTES - 0x8060, False)] s3"
    and "heap_blocks s3 = {(unat (HEAP_START + 0x20), 0x4000), (unat (HEAP_START + 0x4040), 0x4000)}"
proof -
  have sz: "TASK_STACK_SIZE \<noteq> 0" "unat TASK_STACK_SIZE + 7 < 2 ^ 64" and r: "request_nat (unat TASK_STACK_SIZE) = 0x4000"
    by (simp_all add: TASK_STACK_SIZE_def request_nat_def)
  have b1: "best_fit (request_nat (unat TASK_STACK_SIZE)) [(HEAP_BYTES - 32, False)] 0"
    unfolding r by (simp add: best_fit_def fits_def HEAP_BYTES_def)
  have b2: "best_fit (request_nat (unat TASK_STACK_SIZE)) [(0x4000, True), (HEAP_BYTES - 0x4040, False)] 1"
    unfolding r by (simp add: best_fit_def fits_def HEAP_BYTES_def less_Suc_eq)
  have a: "addr (block_addr [(HEAP_BYTES - 32, False)] 0 + 32) = HEAP_START + 0x20"
    "addr (block_addr [(0x4000, True), (HEAP_BYTES - 0x4040, False)] 1 + 32) = HEAP_START + 0x4040"
    by (simp_all add: block_addr_def addr_def HEAP_START_def HEAP_BASE_def)
  have t1: "take_block 0x4000 (HEAP_BYTES - 32) [] = [(0x4000, True), (HEAP_BYTES - 0x4040, False)]"
    and t2: "take_block 0x4000 (HEAP_BYTES - 0x4040) [] = [(0x4000, True), (HEAP_BYTES - 0x8060, False)]"
    by (simp_all add: take_block_def HEAP_BYTES_def)
  obtain s2 where s2: "kmalloc TASK_STACK_SIZE s = Some (HEAP_START + 0x20, s2)"
    "heap_inv [(0x4000, True), (HEAP_BYTES - 0x4040, False)] s2"
    by (rule kmalloc_best [OF inv sz b1]) (simp add: a r t1)
  obtain s3 where s3: "kmalloc TASK_STACK_SIZE s2 = Some (HEAP_START + 0x4040, s3)"
    "heap_inv [(0x4000, True), (0x4000, True), (HEAP_BYTES - 0x8060, False)] s3"
    by (rule kmalloc_best [OF s2(2) sz b2]) (simp add: a [simplified] r t2)
  have "heap_blocks s3 = {(unat (HEAP_START + 0x20), 0x4000), (unat (HEAP_START + 0x4040), 0x4000)}"
    unfolding heap_blocks_live [OF s3(2)] by (simp add: live_def HEAP_START_def HEAP_BASE_def insert_commute)
  with s2 s3 that show thesis by blast
qed

lemma stack_tops:
  "stack_top_of (HEAP_START + 0x20) = HEAP_START + 0x4020" "stack_top_of (HEAP_START + 0x4040) = HEAP_START + 0x8040"
  by (simp_all add: stack_top_of_def TASK_STACK_SIZE_def HEAP_START_def)

end
