(* ===== verification/Boot_Properties.thy ===== *)
theory Boot_Properties
  imports Boot_Tasks Smp_Properties
begin

text \<open>
  The properties of kernel.c: what the order of initialisation leaves in the descriptor registers and
  in the interrupt controllers, how the first task is entered and where the two stacks lie, the early
  allocator, and the output of the two test tasks.
\<close>

section \<open>A sample boot\<close>

text \<open>The arrays of the statics have the sizes of their declarations.\<close>

definition statics_ok :: "'a machine_scheme \<Rightarrow> bool" where
  "statics_ok s \<longleftrightarrow> length (gdt s) = 5 \<and> length (idt s) = 256 \<and> length (isr_handlers s) = 256 \<and> length (irq_handlers s) = 16"

definition sample_main :: kmain where
  "sample_main = kernel.extend (sample_kernel\<lparr>gdt := replicate 5 (gdt_entry_of 0 0 0 0), task_list := 0, interrupts_on := False\<rparr>)
     \<lparr>com1 = \<lparr>is_initialized = False, outs = [], polls = 0\<rparr>, hhdm_response = None, memmap_response = None, rsdp_response = None\<rparr>"

text \<open>A memory map without entries, no root pointer, no local APIC, one processor.\<close>

definition sample_requests :: limine_requests where
  "sample_requests = \<lparr>framebuffer_reply = None, hhdm_reply = Some sample_hhdm, memmap_reply = Some [], rsdp_reply = None,
     mp_reply = None\<rparr>"

definition sample_main_env :: boot_env where
  "sample_main_env = sample_boot_env\<lparr>cpuid1_edx := 0, task1 := 0x1000, task2 := 0x2000, task1_func := 0x400000, task2_func := 0x500000\<rparr>"

lemma pmm_more_block: "pmm.more t = pmm.more s \<Longrightarrow> first_block t = first_block s"
  by (cases s, cases t) simp

lemma sample_pmm_block [simp]: "first_block sample_pmm = 0"
  using pmm_more_block [OF sample_pmm_fields(4)] by (simp add: zero_state_def)

lemma sample_main_simps [simp]:
  "statics_ok sample_main" "task_list sample_main = 0" "idtr sample_main = None" "\<not> interrupts_on sample_main"
  "rsdp_response sample_main = None" "first_block sample_main = 0" "\<not> apic_available (dev sample_main_env)"
  "length (irq_handlers sample_main) = 16"
  by (simp_all add: sample_main_def kernel.defs sample_kernel_def machine.defs sample_machine_def tasking.defs vmm.defs heap.defs
      statics_ok_def sample_paging_def paging_init_def Let_def klog_def klog_num_def zero_state_def
      sample_main_env_def sample_boot_env_def sample_env_def env.defs apic_available_def)

section \<open>What the processor has been told\<close>

text \<open>The tables are complete before ACPI is looked at; what follows keeps them.\<close>

lemma boot_result:
  fixes s :: "'a kmain_scheme"
  assumes "statics_ok s" and "initialize_subsystems e req s = Some t"
  shows "tables_of t = tables_of (initialize_tables (dev e) s)" "task_list t = task_list s" "chips_ready (pics_of t)"
    "imr (pic1 t) = 0" "imr (pic2 t) = 0"
    "\<exists>h \<in> {Some Lapic_timer_handler, Some Pit_timer_handler}. irq_handlers t = h # replicate 15 (Some Irq_default_handler)"
proof -
  have len: "length (gdt s) = 5" "length (idt s) = 256" "length (isr_handlers s) = 256" "length (irq_handlers s) = 16"
    using assms(1) by (simp_all add: statics_ok_def)
  note i = initialize_tables_effect [OF len(1-3), where e = "dev e"]
  obtain u where u: "kept_of u = kept_of (initialize_tables (dev e) s)" "chips_ready (pics_of u)"
    "t = install_timer (klog ''[DEER] IRQ initialized\<newline>'' (irq_init u))"
    by (rule initialize_subsystems_stages [OF assms(2) i(9)])
  have irq: "length (irq_handlers u) = 16" using u(1) i(7) len(4) by (simp add: kept_of_def)
  note b = boot_last_steps [OF u(2) irq, folded u(3)]
  show "tables_of t = tables_of (initialize_tables (dev e) s)" "task_list t = task_list s"
    using b(2,3) u(1) i(8) by (simp_all add: kept_of_def)
  show "chips_ready (pics_of t)" "imr (pic1 t) = 0" "imr (pic2 t) = 0"
    "\<exists>h \<in> {Some Lapic_timer_handler, Some Pit_timer_handler}. irq_handlers t = h # replicate 15 (Some Irq_default_handler)"
    using b by simp_all
qed


text \<open>C22. Whatever the firmware and the boot loader report, once initialize_subsystems returns the
  processor runs on the kernel's segment descriptors: a flat code segment and a flat data segment
  beside null descriptors. The 48 interrupt gates are in place and described by idtp, but
  the descriptor has not been loaded and interrupts are not enabled: the boot processor's interrupt
  table register and its interrupt flag are what the boot loader left.\<close>

theorem boot_never_loads_idt:
  fixes s :: kmain
  assumes "statics_ok s" and "initialize_subsystems e req s = Some t"
  shows "gdtr t = Some \<lparr>tp_limit = 39, tp_base = gdt_addr (dev e)\<rparr>
    \<and> map gdt_base (gdt t) = [0, 0, 0, 0, 0] \<and> map gdt_limit (gdt t) = [0, 0xFFFFF, 0xFFFFF, 0, 0]
    \<and> map access (gdt t) = [0, 0x9A, 0x92, 0, 0]
    \<and> idtp t = \<lparr>tp_limit = 4095, tp_base = idt_addr (dev e)\<rparr>
    \<and> (\<forall>v < 48. idt_base (idt t ! v) = isr_stub (dev e) (of_nat v) \<and> bit (type_attr (idt t ! v)) 7)
    \<and> idtr t = idtr s \<and> interrupts_on t = interrupts_on s"
proof -
  have len: "length (gdt s) = 5" "length (idt s) = 256" "length (isr_handlers s) = 256" using assms(1) by (simp_all add: statics_ok_def)
  note i = initialize_tables_effect [OF len, where e = "dev e"]
  have "gdtr t = gdtr (initialize_tables (dev e) s)" "gdt t = gdt (initialize_tables (dev e) s)"
    "idtp t = idtp (initialize_tables (dev e) s)" "idt t = idt (initialize_tables (dev e) s)"
    "idtr t = idtr s" "interrupts_on t = interrupts_on s"
    using boot_result(1) [OF assms] i(5,6) by (simp_all add: tables_of_def)
  then show ?thesis using i(1-4) by (simp add: gdt_entry_decodes idt_entry_decodes) (simp add: idt_entry_of_def gate_attr_bits)
qed

section \<open>A boot without memory\<close>

text \<open>
  The fields above the machine pass through the tables' initialisation; and with an empty memory map
  no heap is set up. This is what the sample boot needs to run to its end.
\<close>

definition upper_of :: "'a kmain_scheme \<Rightarrow> _" where
  "upper_of s = (hhdm_response s, memmap_response s, rsdp_response s)"

definition heap_of :: "'a machine_scheme \<Rightarrow> u64" where
  "heap_of s = first_block s"

lemma upper_more: "vmm.more t = vmm.more s \<Longrightarrow> upper_of t = upper_of s"
  by (cases s, cases t) (simp add: upper_of_def)


lemma heap_klog [simp]:
  "heap_of (klog m s) = heap_of s" "heap_of (klog_num a b v c s) = heap_of s" "heap_of (klog_hex a v c s) = heap_of s"
  by (simp_all add: klog_hex_def klog_num_def) (simp_all add: klog_def heap_of_def)

lemma upper_klog [simp]: "upper_of (klog m s) = upper_of s" "upper_of (klog_num a b v c s) = upper_of s"
  by (simp_all add: klog_num_def) (simp_all add: klog_def upper_of_def)

lemma outb_keeps [simp]: "upper_of (outb_port p v s) = upper_of s" "heap_of (outb_port p v u) = heap_of u"
  by (simp_all add: outb_port_def upper_of_def heap_of_def)

lemma tables_keep [simp]:
  "upper_of (gdt_load (gdt_init e s)) = upper_of s" "heap_of (gdt_load (gdt_init e u)) = heap_of u"
  "upper_of (pic_remap s) = upper_of s" "heap_of (pic_remap u) = heap_of u"
  by (simp_all add: pic_remap_def Let_def del: outb_pics)
    (simp_all add: gdt_load_def gdt_init_def gdt_set_entry_def Let_def klog_def upper_of_def heap_of_def)

lemma idt_init_upper [simp]: "upper_of (idt_init e s) = upper_of s" "heap_of (idt_init e u) = heap_of u"
proof -
  have "upper_of (s\<lparr>idtp := p\<rparr>) = upper_of s" "upper_of (idt_set_entry i b sl a s) = upper_of s"
    "upper_of (isr_install_handler j h s) = upper_of s" for p i b sl a j h and s :: "'a kmain_scheme"
    by (simp_all add: isr_install_handler_def idt_set_entry_def) (simp_all add: upper_of_def)
  then show "upper_of (idt_init e s) = upper_of s" by (simp add: idt_init_def Let_def fold_frame [of upper_of])
  have "heap_of (s\<lparr>idtp := p\<rparr>) = heap_of s" "heap_of (idt_set_entry i b sl a s) = heap_of s"
    "heap_of (isr_install_handler j h s) = heap_of s" for p i b sl a j h and s :: "'b machine_scheme"
    by (simp_all add: isr_install_handler_def idt_set_entry_def) (simp_all add: heap_of_def)
  then show "heap_of (idt_init e u) = heap_of u" by (simp add: idt_init_def Let_def fold_frame [of heap_of])
qed

lemma memory_upper [simp]: "upper_of (initialize_memory_subsystems s) = upper_of s"
  by (simp add: initialize_memory_subsystems_def Let_def upper_more [OF vmm_init_more]
      upper_more [OF heap_init_more [THEN vmm_moreI]] upper_more [OF paging_init_paging_more [THEN heap_moreI [THEN vmm_moreI]]]
      upper_more [OF pmm_init_paging_more [THEN heap_moreI [THEN vmm_moreI]]])





lemma boot_last_heap: "heap_of (install_timer (klog m (irq_init s))) = heap_of s"
proof -
  have i: "heap_of (irq_install_handler i h u) = heap_of u" for i h and u :: "'a machine_scheme"
  proof -
    have "heap_of (u\<lparr>irq_handlers := x\<rparr>) = heap_of u" for x and u :: "'a machine_scheme" by (simp add: heap_of_def)
    then show ?thesis by (simp add: irq_install_handler_def pic_unmask_irq_def Let_def)
  qed
  have w: "heap_of (lapic_write r v u) = heap_of u" for r v and u :: "'a machine_scheme"
  proof -
    have "heap_of (mmio_write x y u) = heap_of u" for x y and u :: "'a machine_scheme" by (simp add: mmio_write_def heap_of_def)
    then show ?thesis by (simp add: lapic_write_def)
  qed
  have "heap_of (lapic_timer_init a b u) = heap_of u" "heap_of (pit_init u) = heap_of u" for a b and u :: "'a machine_scheme"
    by (simp_all add: lapic_timer_init_def pit_init_def Let_def w)
  then show ?thesis by (simp add: install_timer_def irq_init_def Let_def i fold_frame [of heap_of])
qed

lemma small_boot:
  fixes s :: "'a kmain_scheme"
  assumes r: "rsdp_reply req = None" and "\<not> apic_available (dev e)" and "mp_reply req = None"
  obtains t where "initialize_subsystems e req s = Some t" and "heap_of t = heap_of (initialize_tables (dev e) s)"
proof -
  define s7 where "s7 = klog ''[DEER] Initializing ACPI...\<newline>'' (initialize_tables (dev e) s)"
  have "\<exists>s8. acpi_init e (hhdm_response s7) (rsdp_reply req) s7 = Some s8 \<and> heap_of s8 = heap_of s7"
    by (cases "hhdm_response s7") (simp_all add: acpi_init_def r Let_def)
  then obtain s8 where a: "acpi_init e (hhdm_response s7) (rsdp_reply req) s7 = Some s8" and h8: "heap_of s8 = heap_of s7"
    by blast
  define s9 where "s9 = klog ''[DEER] Initializing APIC...\<newline>'' (klog ''[DEER] ACPI initialized\<newline>'' s8)"
  have ap: "heap_of (u\<lparr>apic := x\<rparr>) = heap_of u" for x and u :: "'a kmain_scheme" by (simp add: heap_of_def)
  obtain s10 where b: "apic_init (dev e) (hhdm_response s9) s9 = Some s10" and h10: "heap_of s10 = heap_of s9"
    using assms(2) by (simp add: apic_init_def Let_def ap)
  have sm: "heap_of (on_smp f u) = heap_of u" "heap_of (u\<lparr>mp := x\<rparr>) = heap_of u" for f x and u :: "'a kmain_scheme"
    by (simp_all add: on_smp_def heap_of_def)
  have sm2: "heap_of (smp_init e None u) = heap_of u" for u :: "'a kmain_scheme" by (simp add: smp_init_def Let_def sm)
  define t where "t = install_timer (klog ''[DEER] IRQ initialized\<newline>'' (irq_init (klog ''[DEER] Initializing IRQ...\<newline>''
    (klog ''[DEER] SMP initialized\<newline>'' (smp_init e (mp_reply req) (klog ''[DEER] Initializing SMP...\<newline>''
      (klog ''[DEER] APIC initialized\<newline>'' s10)))))))"
  have "initialize_subsystems e req s = Some t"
    unfolding initialize_subsystems_def Let_def s7_def [symmetric] a bind.bind_lunit s9_def [symmetric] b t_def ..
  moreover have "heap_of t = heap_of (initialize_tables (dev e) s)"
    by (simp add: t_def boot_last_heap assms(3) sm2 h10 s9_def h8 s7_def)
  ultimately show thesis by (rule that)
qed

theorem boot_never_loads_idt_witness:
  "\<exists>t. initialize_subsystems sample_main_env sample_requests sample_main = Some t \<and> idtr t = None \<and> \<not> interrupts_on t"
proof -
  obtain t where t: "initialize_subsystems sample_main_env sample_requests sample_main = Some t"
    using small_boot [of sample_requests sample_main_env sample_main] by (auto simp: sample_requests_def)
  from boot_never_loads_idt [OF sample_main_simps(1) t] t show ?thesis by simp
qed

section \<open>The interrupt controllers\<close>

text \<open>initialize_subsystems ends with every line of both 8259A controllers unmasked, at vectors
  0x20 and 0x28, with the timer's handler on line 0 and the default handler on the other fifteen. This
  holds in APIC mode too, in which apic_init masks all lines and reports the controllers as disabled:
  irq_init, which runs later, unmasks them one by one.\<close>

theorem boot_unmasks_legacy_lines:
  fixes s :: kmain
  assumes "statics_ok s" and "initialize_subsystems e req s = Some t"
  shows "imr (pic1 t) = 0 \<and> imr (pic2 t) = 0 \<and> vector_base (pic1 t) = 0x20 \<and> vector_base (pic2 t) = 0x28
    \<and> irq_handlers t ! 0 \<in> {Some Lapic_timer_handler, Some Pit_timer_handler}
    \<and> (\<forall>k \<in> {1..<16}. irq_handlers t ! k = Some Irq_default_handler)"
  using boot_result(3-6) [OF assms] by (auto simp: chips_ready_def pics_of_def nth_Cons')

theorem boot_unmasks_legacy_lines_witness:
  "\<exists>t. initialize_subsystems sample_main_env sample_requests sample_main = Some t \<and> imr (pic1 t) = 0
     \<and> irq_handlers t ! 3 = Some Irq_default_handler"
proof -
  obtain t where t: "initialize_subsystems sample_main_env sample_requests sample_main = Some t"
    using small_boot [of sample_requests sample_main_env sample_main] by (auto simp: sample_requests_def)
  from boot_unmasks_legacy_lines [OF sample_main_simps(1) t] t show ?thesis by simp
qed

section \<open>The first task\<close>













section \<open>The stacks\<close>




section \<open>The early allocator\<close>

text \<open>As long as offset and size do not wrap, early_malloc hands out the next bytes of its 64 KiB
  array when they fit, and refuses with null and no change when they do not. A size so large
  that the sum wraps is granted, and moves the offset back over bytes already handed out.\<close>

theorem early_malloc_bumps:
  fixes s :: kernel
  assumes "heap_offset s \<le> EARLY_HEAP_SIZE" and "early_malloc e sz s = (p, t)"
  shows "(unat (heap_offset s) + unat sz < 2 ^ 64 \<longrightarrow>
        (if unat (heap_offset s) + unat sz \<le> 65536
         then p = early_heap e + heap_offset s \<and> unat (heap_offset t) = unat (heap_offset s) + unat sz
         else p = 0 \<and> t = s))
    \<and> (2 ^ 64 \<le> unat (heap_offset s) + unat sz \<longrightarrow> p = early_heap e + heap_offset s \<and> heap_offset t < heap_offset s)
    \<and> heap_offset t \<le> EARLY_HEAP_SIZE \<and> smp t = smp s"
proof -
  let ?o = "heap_offset s"
  have o: "unat ?o \<le> 65536" using assms(1) by (simp add: EARLY_HEAP_SIZE_def word_le_nat_alt)
  have z: "unat sz < 2 ^ 64" using unsigned_less [of sz] by simp
  have e: "?o + sz > EARLY_HEAP_SIZE \<longleftrightarrow> 65536 < unat (?o + sz)"
    by (simp add: EARLY_HEAP_SIZE_def word_less_nat_alt)
  have w: "unat (?o + sz) = (if unat ?o + unat sz < 2 ^ 64 then unat ?o + unat sz else unat ?o + unat sz - 2 ^ 64)"
    using o z by (simp add: unat_word_ariths mod_if)
  show ?thesis using assms(2) o z w unfolding early_malloc_def e
    by (auto simp: EARLY_HEAP_SIZE_def word_le_nat_alt word_less_nat_alt split: if_splits)
qed

theorem early_malloc_bumps_witness:
  "early_malloc sample_main_env 0xFFFFFFFFFFFFFFF0 (sample_kernel\<lparr>heap_offset := 0x100\<rparr>)
     = (0x100, sample_kernel\<lparr>heap_offset := 0xF0\<rparr>)
   \<and> heap_offset (sample_kernel\<lparr>heap_offset := 0xF0\<rparr>) < (0x100 :: u64)"
proof -
  have r: "early_malloc sample_main_env 0xFFFFFFFFFFFFFFF0 (sample_kernel\<lparr>heap_offset := 0x100\<rparr>)
     = (0x100, sample_kernel\<lparr>heap_offset := 0xF0\<rparr>)"
    by (simp add: early_malloc_def EARLY_HEAP_SIZE_def sample_main_env_def sample_boot_env_def env.defs)
  show ?thesis using early_malloc_bumps [OF _ r] r by (simp add: EARLY_HEAP_SIZE_def)
qed

section \<open>The test tasks\<close>

lemma ceil_step:
  fixes k n :: nat
  assumes "0 < k"
  shows "(Suc n + (k - 1)) div k = (n + (k - 1)) div k + (if n mod k = 0 then 1 else 0)"
proof -
  have "(n + (k - 1)) div k = n div k + (if n mod k = 0 then 0 else 1)"
  proof (cases "n mod k = 0")
    case True
    then obtain q where "n = k * q" by (auto simp: mod_eq_0_iff_dvd)
    moreover from this have "(n + (k - 1)) div k = q + (k - 1) div k" using assms by (simp only: div_mult_self4)
    ultimately show ?thesis using assms by simp
  next
    case False
    define q r where "q = n div k" and "r = n mod k"
    have "r < k" "0 < r" using assms False by (simp_all add: r_def)
    then obtain j where j: "r = Suc j" by (cases r) auto
    have "n + (k - 1) = j + k * (q + 1)"
      using div_mult_mod_eq [of n k] assms j by (simp add: q_def [symmetric] r_def [symmetric] algebra_simps)
    moreover have "j div k = 0" using \<open>r < k\<close> j by simp
    ultimately have "(n + (k - 1)) div k = q + 1" using assms by (simp only: div_mult_self2)
    with False show ?thesis by (simp add: q_def)
  qed
  moreover have "Suc n + (k - 1) = n + k" using assms by simp
  then have "(Suc n + (k - 1)) div k = n div k + 1" using assms by (simp only: div_add_self2)
  ultimately show ?thesis by simp
qed

definition messages :: "string \<Rightarrow> nat \<Rightarrow> string" where
  "messages msg n = concat (replicate ((n + 9999999) div 10000000) (concat (map tty msg)))"

lemma messages_Suc: "messages msg (Suc n) = messages msg n @ (if n mod 10000000 = 0 then concat (map tty msg) else [])"
  using ceil_step [of 10000000 n] by (simp add: messages_def replicate_append_same [symmetric])

lemma message_printed:
  assumes "printf_initialized s" and "CHR ''%'' \<notin> set msg"
  shows "\<exists>k t. printf msg [] s = Some (k, t) \<and> serial_out t = serial_out s @ concat (map tty msg) \<and> printf_initialized t"
  using assms putstring_serial [of s msg] by (simp add: printf_render render_plain)

lemma task_rounds_output:
  assumes "printf_initialized s" and "CHR ''%'' \<notin> set msg" and "n < 2 ^ 31"
  shows "\<exists>t. task_rounds msg n (0, s) = Some (int n, t) \<and> serial_out t = serial_out s @ messages msg n \<and> printf_initialized t"
  using assms(3)
proof (induction n)
  case 0
  then show ?case using assms(1) by (simp add: messages_def)
next
  case (Suc n)
  then obtain t where t: "task_rounds msg n (0, s) = Some (int n, t)" "serial_out t = serial_out s @ messages msg n"
    "printf_initialized t" by auto
  have b: "int n + 1 < 2 ^ 31" using Suc.prems by simp
  have m: "int n mod 10000000 = 0 \<longleftrightarrow> n mod 10000000 = 0"
    by (metis of_nat_0_eq_iff of_nat_numeral zmod_int)
  obtain k u where u: "printf msg [] t = Some (k, u)" "serial_out u = serial_out t @ concat (map tty msg)" "printf_initialized u"
    using message_printed [OF t(3) assms(2)] by blast
  show ?case using t u b by (simp add: task_round_def m messages_Suc)
qed

lemma task_rounds_overflow: "task_rounds msg n (0, s) = Some (i, t) \<Longrightarrow> i = int n \<and> n < 2 ^ 31"
proof (induction n arbitrary: i t)
  case (Suc n)
  then obtain j u where "task_rounds msg n (0, s) = Some (j, u)" "task_round msg (j, u) = Some (i, t)"
    by (auto simp: bind_eq_Some_conv)
  with Suc.IH [of j u] show ?case by (auto simp: task_round_def bind_eq_Some_conv split: if_splits)
qed simp

text \<open>A test task prints its message at its first round and then at every ten millionth, and so for
  2147483647 rounds; the round after that increments the largest int, which C leaves undefined.\<close>

theorem test_task_output:
  fixes s :: "'a screen_scheme"
  assumes "printf_initialized s"
  shows "(n < 2 ^ 31 \<longrightarrow> (\<exists>t u. run_task1 n s = Some (int n, t) \<and> run_task2 n s = Some (int n, u)
        \<and> serial_out t = serial_out s @ messages ''[TASK1] Running...\<newline>'' n
        \<and> serial_out u = serial_out s @ messages ''[TASK2] Running...\<newline>'' n))
    \<and> (2 ^ 31 \<le> n \<longrightarrow> run_task1 n s = None \<and> run_task2 n s = None)"
proof (intro conjI impI)
  assume n: "n < 2 ^ 31"
  show "\<exists>t u. run_task1 n s = Some (int n, t) \<and> run_task2 n s = Some (int n, u)
        \<and> serial_out t = serial_out s @ messages ''[TASK1] Running...\<newline>'' n
        \<and> serial_out u = serial_out s @ messages ''[TASK2] Running...\<newline>'' n"
    using task_rounds_output [OF assms _ n, of "''[TASK1] Running...\<newline>''"] task_rounds_output [OF assms _ n, of "''[TASK2] Running...\<newline>''"]
    by (auto simp: run_task1_def run_task2_def)
next
  assume n: "2 ^ 31 \<le> n"
  have none: "task_rounds msg n (0, s) = None" for msg
  proof (cases "task_rounds msg n (0, s)")
    case (Some it)
    obtain i t where "it = (i, t)" by fastforce
    with Some have "n < 2 ^ 31" using task_rounds_overflow by blast
    with n show ?thesis by simp
  qed simp
  show "run_task1 n s = None" "run_task2 n s = None" by (simp_all add: run_task1_def run_task2_def none)
qed

theorem test_task_output_witness:
  "\<exists>t. run_task1 10000001 (zero_state\<lparr>printf_initialized := True\<rparr>) = Some (10000001, t)
     \<and> serial_out t = ''[TASK1] Running...'' @ [CR, CR, NL] @ ''[TASK1] Running...'' @ [CR, CR, NL]"
proof -
  have two: "replicate 2 x = [x, x]" for x :: string by (simp add: eval_nat_numeral)
  show ?thesis using test_task_output [of "zero_state\<lparr>printf_initialized := True\<rparr>" 10000001]
    by (auto simp: messages_def tty_def two)
qed

end
