(* ===== verification/Spec2Isabelle.thy ===== *)
theory Spec2Isabelle
  imports Pmm_Properties Paging_Properties Heap_Properties LibC_Properties Console_Properties Vmm_Properties
    Task_Properties Interrupt_Properties Entry_Properties Layout_Properties
    Smp_Properties Firmware_Properties Boot_Properties
begin

text \<open>
  A model of DEER, a kernel for x86-64 that the Limine boot loader starts, and the theorems about it.
  All paths below are relative to \<open>src/kernel/src\<close>.

  The program. \<open>kernel_main\<close> (kernel.c) takes the framebuffer, the memory map and the offset of the
  direct map from the boot loader, then brings the parts up in a fixed order: console, segment and
  interrupt descriptors, the page allocator (memory/pmm.c), the page tables (memory/paging.c), the
  heap (memory/heap.c), the address spaces (memory/vmm.c), processor features and SSE (simd/simd.c),
  the ACPI tables (sys/acpi.c), the interrupt controllers (drivers/pic.c, sys/apic.c), the table of
  processors (sys/smp.c) and the tasks (tasking/task.c). It then prepares two test tasks and leaves
  for the first one. The parts share memory and static variables; a call of one part is a call of its
  definition here, on the state of the caller.

  The state. One record per part, each extending the record of the parts it uses, so that an operation
  is stated once and applies to every larger state: \<open>console\<close> (what has been sent to the serial
  line), \<open>screen\<close> (framebuffer and printf), \<open>pmm\<close>, \<open>paging\<close> (memory, control registers, invalidated
  pages), \<open>heap\<close>, \<open>vmm\<close>, \<open>tasking\<close>, \<open>machine\<close> (descriptor tables, handlers, controllers, ports, device
  registers), \<open>kernel\<close> (processors, SSE) and \<open>kmain\<close> (the statics of kernel.c). The fields of each
  record are the static variables of its file. Memory is a function from 64-bit addresses to bytes,
  and structures the code reaches through pointers (heap blocks, page tables, tasks, ACPI tables,
  interrupt frames) lie in it at their C offsets, so that overlap and aliasing are those of the
  machine. What the surroundings answer is an argument: the records \<open>env\<close> and \<open>boot_env\<close> (cpuid,
  model-specific registers, device registers, addresses the linker chooses), the status bytes of the
  serial port, what interrupts do during \<open>hlt\<close>.

  Theories, in the order of the code.
  Prelude: Kernel\_Prelude (word types, counted loops, collections of rules), LibC\_Memory, Word\_Memory
  (64-bit loads and stores).
  libc: LibC\_Memory and LibC\_String (libc/string), Printf and Printf\_Spec (libc/stdio/printf.c and
  the text it is to produce); LibC\_Properties, Console\_Properties.
  Console: Console (the log as its users see it), Serial (drivers/serial.c), Framebuffer
  (graphics/fb.c, banner.c).
  Memory: Frame\_Allocator and Block\_Allocator (interfaces); Pmm, Pmm\_Init (pmm.c); Paging (paging.c),
  Paging\_Tree (page tables as a tree), Paging\_Map (mapping), Paging\_Mmu (the processor's own walk);
  Heap (heap.c), Heap\_Layout, Heap\_Search, Heap\_Alloc, Heap\_Free, Heap\_Interface, Heap\_Clients;
  Boot\_Memory (the memory part of the boot order); Vmm, Vmm\_Map, Vmm\_Destroy, Vmm\_Create (vmm.c);
  with Pmm\_Properties, Paging\_Properties, Heap\_Properties, Vmm\_Properties.
  Tasks: Task (task.c and the two routines of context\_switch.asm), Task\_List, Task\_Switch,
  Task\_Resume (a saved task chosen again), Task\_Properties.
  Interrupts and devices: Machine (state, ports), Gdt (sys/gdt.c, gdt\_asm.asm), Pic (drivers/pic.c,
  pit.c), Apic (sys/apic.c), Interrupts (interrupts/idt.c, isr.c, irq.c, the fault handlers of
  paging.c), Interrupt\_Lemmas, Entry\_Stubs (interrupts/isr\_asm.asm), Heap\_Fault (demand paging as the
  interrupted code sees it), Interrupt\_Properties, Entry\_Properties.
  Firmware and processors: Kernel\_State, Cpu\_Features, Brand\_String, Simd\_Memory (simd/simd.c), Acpi,
  Acpi\_Lemmas (sys/acpi.c), Smp (sys/smp.c), Smp\_Startup (the start of the processors as an
  interleaving), Smp\_Lemmas, Smp\_Properties, Firmware\_Properties.
  Layout: C\_Layout (the structures of the headers and the offsets of their fields), Layout\_Properties.
  Boot: Kernel\_Main (kernel.c), Boot\_Lemmas, Boot\_Tasks, Boot\_Properties.
  Sample\_States has the concrete states on which the properties are evaluated.

  Names. A definition has the name of the C function, type or macro it models, with a suffix where
  that is a name of HOL; a loop of a function that needs a definition of its own has the function's
  name with the purpose of the loop.

  Interfaces. \<open>char_sink\<close> (a device that takes characters) is interpreted on the serial driver;
  \<open>frame_source\<close> and \<open>frame_allocator\<close> (requests and releases of page frames) on \<open>pmm_alloc_page\<close>
  and \<open>pmm_free_page\<close>, once over the frames marked in the bitmap and once over all frames that are
  not free and usable; \<open>block_allocator\<close> (what a heap owes its clients) on \<open>kmalloc\<close> and \<open>kfree\<close>.
  \<open>simd_level\<close> is an instance of \<open>linorder\<close>, by the values of the C enumeration.
\<close>

text \<open>
  What the lemmas show.
  Page allocator: \<open>pmm_ok\<close> and \<open>pmm_wf\<close> hold after \<open>pmm_init\<close> for every memory map without overlap
  and are kept; an allocation is the first run of free usable frames, is never a frame in use, the
  bitmap's own or one the map reserves.
  Page tables: the tables of a root form a tree of distinct frames; mapping and unmapping change the
  translation of one page; the software walks agree with the processor's walk.
  Heap: the block list tiles the heap's range and no two free blocks are neighbours; \<open>kmalloc\<close>
  takes the best fit and \<open>kfree\<close> restores the layout; the clients' contents are untouched.
  Address spaces: creation shares the kernel half, destruction frees the tree bottom up.
  Tasks: which memory a save writes, the frame a switch hands to \<open>iretq\<close>, and the round over the
  list. The tick never records the task it switches to, and task\_init and the assembly routine use
  different offsets; both are theorems. A saved task comes back with its registers, four excepted, and
  with the stack pointer of before the pushes, so that it returns to the wrong word.
  Interrupts: the gates after \<open>idt_init\<close>; the frame the stubs build, and that an interrupt whose
  handler leaves it alone resumes the code with exactly its registers, a timer tick and the demand
  mapping of a heap page in particular;
  the missing acknowledgement when the timer interrupt switches; for which frequencies the timer is
  started, and with which count.
  Processors: an invariant of all interleavings of \<open>smp_start_aps\<close> with \<open>ap_entry\<close> bounds the
  number stored in \<open>started_count\<close>; the sequential code is one of the interleavings. The
  routines that send interprocessor interrupts have the two halves of the command register exchanged
  and send neither INIT nor start-up; \<open>smp_start_aps\<close> uses none of them, it has the boot loader
  start the processors.
  Firmware: the search of the ACPI root tables, checksums, the brand string, and the agreement of the
  16-byte memory routines with the plain ones.
  Layout: the offsets of all accesses to structures are computed from the C declarations.
  Boot: the stages of \<open>initialize_subsystems\<close> composed, the state in which the first task is entered,
  what has and has not been loaded by then, and where the stacks lie.

  Bounds and termination. Integers have their C width, so every wrap-around is in the definitions. A
  counted loop is the combinator \<open>for_up\<close> or \<open>for_down\<close>; other loops with a measure are functions
  with a termination proof. A loop that may run for ever (polling a device, walking a list the data may
  tie into a cycle, searching a NUL) is a partial function whose value \<open>None\<close> means that it does not
  return; that it does return, where it does, is part of the theorems. \<open>None\<close> also stands for behaviour
  C leaves undefined, as in \<open>printf\<close> with a missing argument and in the \<open>int\<close> counter of a test
  task. The polling loop of smp.c is bounded by its own SMP\_TIMEOUT of 5000000 rounds and its table
  by 256 processors; no other fuel is used. The endless loop of a test task is modelled by its
  rounds.

  Not modelled. The interrupts that could occur between two statements of code that runs with
  interrupts on, except where a state is handed to a parameter (\<open>hlt\<close>) or to the interleaving of
  smp.c; the stack of compiled C code; caches and the translation look-aside buffer beyond the list of
  invalidated pages; reserved bits of device registers. The headers under include/crypto are
  declarations without any code and sha256.c there is empty; the glyphs of the font are data and a
  parameter of the renderer; the build scripts and the boot image are not part of the running program.
  What the processor does in \<open>cpuid\<close>, \<open>fxsave\<close>, device reads and the delivery of an interrupt is a
  parameter or its documented behaviour.
\<close>

end
